(* ===== verification/Prelude.thy ===== *)
theory Prelude
  imports Main "HOL-Library.Word"
begin

unbundle bit_operations_syntax

text \<open>
  Shared ground of the development: the machine integers of the Rust sources, panics as values,
  the collections of simplification rules, and the generic lemmas on words, lists, options and
  maps that the component theories use.

  The repository is built with \<^verbatim>\<open>MODE ?= release\<close> (\<^verbatim>\<open>src/src/0x01/Makefile\<close>), so integer
  arithmetic wraps, \<^verbatim>\<open>debug_assert!\<close> is compiled out and the log level is \<^verbatim>\<open>Info\<close>
  (\<^verbatim>\<open>utils/logger.rs\<close>): arguments of \<^verbatim>\<open>trace!\<close> and \<^verbatim>\<open>debug!\<close> are not evaluated. Words
  of HOL-Library wrap in the same way.
\<close>

section \<open>Machine integers\<close>

type_synonym u8 = "8 word"
type_synonym u16 = "16 word"
type_synonym u32 = "32 word"
type_synonym u64 = "64 word"
type_synonym usize = "64 word"

text \<open>An \<^verbatim>\<open>isize\<close> is kept as its 64 bits; \<^term>\<open>sint\<close> reads its sign, and the casts
  between \<^verbatim>\<open>isize\<close> and \<^verbatim>\<open>usize\<close> of the source are the identity on the bits.\<close>

type_synonym isize = "64 word"

section \<open>Panics\<close>

text \<open>The ways in which the kernel panics: \<^verbatim>\<open>panic!\<close> with its message, \<^verbatim>\<open>unwrap\<close>/\<^verbatim>\<open>expect\<close> on the wrong variant,
  \<^verbatim>\<open>unreachable!\<close>, an index out of bounds, an address that is not canonical or
  checked arithmetic inside the \<^verbatim>\<open>x86_64\<close> crate, and a kernel access to an unmapped page.\<close>

datatype panic =
    Panicked string
  | Unwrap_failed
  | Expect_failed string
  | Unreachable
  | Index_out_of_bounds
  | Address_panic
  | Page_fault

text \<open>A computation that may panic.\<close>

type_synonym 'a res = "panic + 'a"

definition rbind :: "'a res \<Rightarrow> ('a \<Rightarrow> 'b res) \<Rightarrow> 'b res" where
  "rbind r f = (case r of Inl e \<Rightarrow> Inl e | Inr x \<Rightarrow> f x)"

text \<open>A computation that may also run forever (\<^term>\<open>None\<close>).\<close>

definition obind :: "'a res option \<Rightarrow> ('a \<Rightarrow> 'b res option) \<Rightarrow> 'b res option" where
  "obind r f = (case r of None \<Rightarrow> None | Some (Inl e) \<Rightarrow> Some (Inl e) | Some (Inr x) \<Rightarrow> f x)"

definition lift :: "'a res \<Rightarrow> 'a res option" where
  "lift r = Some r"

definition expect :: "panic \<Rightarrow> 'a option \<Rightarrow> 'a res" where
  "expect e v = (case v of None \<Rightarrow> Inl e | Some x \<Rightarrow> Inr x)"

section \<open>Collections of rules\<close>

named_theorems monad_simps \<open>unfolding of the panic monad\<close>
named_theorems inv_intros \<open>preservation of component invariants\<close>
named_theorems abs_simps \<open>how operations act on an abstraction\<close>

lemma rbind_simps [simp, monad_simps]:
  "rbind (Inl e) f = Inl e"
  "rbind (Inr x) f = f x"
  by (simp_all add: rbind_def)

lemma obind_simps [simp, monad_simps]:
  "obind None f = None"
  "obind (Some (Inl e)) f = Some (Inl e)"
  "obind (Some (Inr x)) f = f x"
  "obind (lift (Inl e)) f = Some (Inl e)"
  "obind (lift (Inr x)) f = f x"
  by (simp_all add: obind_def lift_def)

lemma obind_eq_Some_Inr_iff: "obind r f = Some (Inr y) \<longleftrightarrow> (\<exists>x. r = Some (Inr x) \<and> f x = Some (Inr y))"
  by (auto simp: obind_def split: option.splits sum.splits)

lemma lift_eq_Some_iff [simp]: "lift r = Some x \<longleftrightarrow> r = x"
  by (simp add: lift_def)

lemma obind_InrE [elim!]:
  assumes "obind r f = Some (Inr y)"
  obtains x where "r = Some (Inr x)" and "f x = Some (Inr y)"
  using assms by (auto simp: obind_eq_Some_Inr_iff)

lemma expect_simps [simp, monad_simps]:
  "expect e None = Inl e"
  "expect e (Some x) = Inr x"
  by (simp_all add: expect_def)

lemma rbind_eq_Inr_iff: "rbind r f = Inr y \<longleftrightarrow> (\<exists>x. r = Inr x \<and> f x = Inr y)"
  by (cases r) auto

lemma rbind_InrE [elim!]:
  assumes "rbind r f = Inr y"
  obtains x where "r = Inr x" and "f x = Inr y"
  using assms by (auto simp: rbind_eq_Inr_iff)

lemma expect_eq_Inr_iff [simp]: "expect e v = Inr x \<longleftrightarrow> v = Some x"
  by (cases v) auto

lemma rbind_assoc: "rbind (rbind r f) g = rbind r (\<lambda>x. rbind (f x) g)"
  by (cases r) auto

section \<open>Words\<close>

lemma unat_word_less_pow [simp]: "unat (w :: 'a::len word) < 2 ^ LENGTH('a)"
  by (rule unsigned_less)

lemma len64: "LENGTH(64) = 64"
  by simp

lemma unat_add_no_overflow:
  "unat (a :: 'a::len word) + unat b < 2 ^ LENGTH('a) \<Longrightarrow> unat (a + b) = unat a + unat b"
  by (simp add: unat_word_ariths)

lemma unat_Suc_no_overflow:
  "Suc (unat (a :: 'a::len word)) < 2 ^ LENGTH('a) \<Longrightarrow> unat (a + 1) = Suc (unat a)"
  using unat_add_no_overflow [of a 1] by (cases "LENGTH('a) = 0") auto

lemma unat_sub_le: "(b :: 'a::len word) \<le> a \<Longrightarrow> unat (a - b) = unat a - unat b"
  by (rule unat_sub)

lemma unat_pred: "(a :: 'a::len word) \<noteq> 0 \<Longrightarrow> unat (a - 1) = unat a - 1"
  by (simp add: unat_minus_one)

lemma unat_ucast_u8: "unat (ucast (w :: u8) :: u64) = unat w"
  using unat_word_less_pow [of w] by (simp add: unsigned_ucast_eq take_bit_nat_eq_self)

lemma unat_ucast_u32: "unat (ucast (w :: u32) :: u64) = unat w"
  using unat_word_less_pow [of w] by (simp add: unsigned_ucast_eq take_bit_nat_eq_self)

section \<open>Maps\<close>

lemma map_upds_nth:
  "distinct ps \<Longrightarrow> length fs = length ps \<Longrightarrow> i < length ps \<Longrightarrow> (m(ps [\<mapsto>] fs)) (ps ! i) = Some (fs ! i)"
proof (induction ps arbitrary: m fs i)
  case (Cons p ps)
  then obtain f fs' where "fs = f # fs'" by (cases fs) auto
  with Cons show ?case
    by (cases i) (auto simp: map_upds_apply_nontin)
qed simp

end
