(* ===== verification/X86.thy ===== *)
theory X86
  imports Prelude
begin

text \<open>
  The interface to the \<^verbatim>\<open>x86_64\<close> crate, which is not part of the repository. Its functions are
  parameters of the model: a record of operations on addresses and pages, extended by the
  operations of a page-table mapper. What the kernel relies on is stated as the locales
  \<open>x86_addresses\<close> and \<open>x86_mapper\<close>, in the words of the crate's documentation. A reference
  instance at the end shows that the laws can hold together; the witnesses of the development
  compute with it.

  A page and a frame are represented by their start address. A panic inside the crate is
  \<^term>\<open>None\<close>.
\<close>

type_synonym page = u64
type_synonym frame = u64

datatype pt_flag = PRESENT | WRITABLE | USER_ACCESSIBLE | NO_EXECUTE

datatype map_error = FrameAllocationFailed | ParentEntryHugePage | PageAlreadyMapped

datatype unmap_error = UnmapParentEntryHugePage | PageNotMapped | InvalidFrameAddress

section \<open>Addresses and pages\<close>

text \<open>\<open>va_new\<close> is \<^verbatim>\<open>VirtAddr::new\<close>, \<open>va_add\<close> and \<open>va_sub\<close> the addition and subtraction of an
  offset, \<open>page_containing\<close> is \<^verbatim>\<open>Page::containing_address\<close>, \<open>page_add\<close>, \<open>page_sub\<close> and
  \<open>page_diff\<close> the page arithmetic in units of pages, \<open>page_range\<close> and \<open>page_range_inclusive\<close> the
  pages that iterating over the ranges yields, \<open>page_align_up\<close> is \<^verbatim>\<open>align_up\<close> to the page
  size, and \<open>frame_containing\<close> is
  \<^verbatim>\<open>PhysFrame::containing_address(PhysAddr::new(..))\<close>.\<close>

record addr_ops =
  va_new :: "u64 \<Rightarrow> u64 option"
  va_add :: "u64 \<Rightarrow> u64 \<Rightarrow> u64 option"
  va_sub :: "u64 \<Rightarrow> u64 \<Rightarrow> u64 option"
  page_containing :: "u64 \<Rightarrow> page"
  page_add :: "page \<Rightarrow> u64 \<Rightarrow> page option"
  page_sub :: "page \<Rightarrow> u64 \<Rightarrow> page option"
  page_diff :: "page \<Rightarrow> page \<Rightarrow> u64 option"
  page_range :: "page \<Rightarrow> page \<Rightarrow> page list"
  page_range_inclusive :: "page \<Rightarrow> page \<Rightarrow> page list"
  page_align_up :: "u64 \<Rightarrow> u64 option"
  frame_containing :: "u64 \<Rightarrow> frame"

definition align_down :: "u64 \<Rightarrow> u64" where
  "align_down a = a div 4096 * 4096"

definition is_page :: "u64 \<Rightarrow> bool" where
  "is_page p \<longleftrightarrow> p mod 4096 = 0"

definition canonical :: "u64 \<Rightarrow> bool" where
  "canonical a \<longleftrightarrow> unat a < 2 ^ 47 \<or> 2 ^ 64 - 2 ^ 47 \<le> unat a"

text \<open>The \<open>n\<close> pages from \<open>p\<close> on.\<close>

definition pages_from :: "page \<Rightarrow> nat \<Rightarrow> page list" where
  "pages_from p n = map (\<lambda>i. p + of_nat i * 4096) [0..<n]"

lemma pages_from_simps [simp]:
  "pages_from p 0 = []"
  "pages_from p (Suc n) = p # pages_from (p + 4096) n"
proof -
  have "[0..<Suc n] = 0 # map Suc [0..<n]"
    by (metis map_Suc_upt upt_conv_Cons zero_less_Suc)
  then show "pages_from p (Suc n) = p # pages_from (p + 4096) n"
    by (simp add: pages_from_def algebra_simps del: upt_Suc)
qed (simp add: pages_from_def)

lemma length_pages_from [simp]: "length (pages_from p n) = n"
  by (simp add: pages_from_def)

lemma pages_from_append: "pages_from p (m + n) = pages_from p m @ pages_from (p + of_nat m * 4096) n"
  by (induction m arbitrary: p) (simp_all add: algebra_simps)

lemma set_pages_from: "set (pages_from p n) = {p + of_nat i * 4096 | i. i < n}"
  by (auto simp: pages_from_def)

lemma unat_page_offset:
  assumes "unat (p :: u64) + i * 4096 < 2 ^ 64"
  shows "unat (p + of_nat i * 4096) = unat p + i * 4096"
proof -
  have i: "unat (of_nat i :: u64) = i" using assms by (simp add: unat_of_nat)
  then have "unat (of_nat i * 4096 :: u64) = i * 4096"
    using assms by (simp add: unat_word_ariths)
  then show ?thesis using assms by (simp add: unat_word_ariths)
qed

lemma distinct_pages_from:
  assumes "unat p + n * 4096 \<le> 2 ^ 64"
  shows "distinct (pages_from p n)"
proof -
  have "inj_on (\<lambda>i. p + of_nat i * 4096) {0..<n}"
  proof (rule inj_onI)
    fix i j
    assume ij: "i \<in> {0..<n}" "j \<in> {0..<n}" and eq: "p + of_nat i * 4096 = p + of_nat j * 4096"
    have "unat p + i * 4096 < 2 ^ 64" "unat p + j * 4096 < 2 ^ 64"
      using ij assms by auto
    then have "unat p + i * 4096 = unat p + j * 4096"
      using unat_page_offset [of p i] unat_page_offset [of p j] by (metis eq)
    then show "i = j" by simp
  qed
  then show ?thesis
    by (simp add: pages_from_def distinct_map)
qed

locale x86_addresses =
  fixes X :: "'z addr_ops_scheme"
  assumes va_new_ok: "canonical a \<Longrightarrow> va_new X a = Some a"
    and va_new_panics: "\<not> canonical a \<Longrightarrow> va_new X a = None"
    and va_add_ok: "unat a + unat n < 2 ^ 64 \<Longrightarrow> canonical (a + n) \<Longrightarrow> va_add X a n = Some (a + n)"
    and va_sub_ok: "n \<le> a \<Longrightarrow> canonical (a - n) \<Longrightarrow> va_sub X a n = Some (a - n)"
    and va_sub_panics: "a < n \<or> \<not> canonical (a - n) \<Longrightarrow> va_sub X a n = None"
    and page_containing_eq: "page_containing X a = align_down a"
    and page_add_ok: "is_page p \<Longrightarrow> unat p + unat n * 4096 < 2 ^ 64 \<Longrightarrow> canonical (p + n * 4096) \<Longrightarrow>
      page_add X p n = Some (p + n * 4096)"
    and page_sub_ok: "is_page p \<Longrightarrow> unat n * 4096 \<le> unat p \<Longrightarrow> canonical (p - n * 4096) \<Longrightarrow>
      page_sub X p n = Some (p - n * 4096)"
    and page_diff_ok: "is_page p \<Longrightarrow> is_page q \<Longrightarrow> q \<le> p \<Longrightarrow> page_diff X p q = Some ((p - q) div 4096)"
    and page_diff_panics: "is_page p \<Longrightarrow> is_page q \<Longrightarrow> p < q \<Longrightarrow> page_diff X p q = None"
    and page_range_eq: "is_page p \<Longrightarrow> unat p + k * 4096 < 2 ^ 64 \<Longrightarrow>
      page_range X p (p + of_nat k * 4096) = pages_from p k"
    and page_range_inclusive_eq: "is_page p \<Longrightarrow> unat p + k * 4096 < 2 ^ 64 \<Longrightarrow>
      page_range_inclusive X p (p + of_nat k * 4096) = pages_from p (Suc k)"
    and page_range_inclusive_empty: "is_page p \<Longrightarrow> is_page q \<Longrightarrow> q < p \<Longrightarrow> page_range_inclusive X p q = []"
    and page_align_up_page: "is_page a \<Longrightarrow> page_align_up X a = Some a"
    and page_align_up_next: "\<not> is_page a \<Longrightarrow> unat a + 4096 < 2 ^ 64 \<Longrightarrow>
      page_align_up X a = Some (align_down a + 4096)"
    and frame_containing_eq: "unat a < 2 ^ 52 \<Longrightarrow> frame_containing X a = align_down a"

section \<open>Page tables\<close>

text \<open>A frame allocator as the pair of its trait functions, and the mapper of the page table whose
  level-4 table is the frame given first. \<open>'m\<close> is the memory that holds the page tables and
  \<open>'a\<close> the state of the frame allocator: \<^verbatim>\<open>map_to\<close> may take frames for new tables from it.\<close>

record 'a frame_allocator =
  allocate_frame :: "'a \<Rightarrow> frame option \<times> 'a"
  deallocate_frame :: "frame \<Rightarrow> 'a \<Rightarrow> 'a"

record ('m, 'a) x86_64 = addr_ops +
  map_to :: "'a frame_allocator \<Rightarrow> frame \<Rightarrow> page \<Rightarrow> frame \<Rightarrow> pt_flag set \<Rightarrow> 'm \<Rightarrow> 'a \<Rightarrow>
    (map_error + unit) \<times> 'm \<times> 'a"
  unmap :: "frame \<Rightarrow> page \<Rightarrow> 'm \<Rightarrow> (unmap_error + frame) \<times> 'm"
  translate_page :: "'m \<Rightarrow> frame \<Rightarrow> page \<Rightarrow> frame option"
  clean_up_tables :: "'a frame_allocator \<Rightarrow> frame \<Rightarrow> 'm \<Rightarrow> 'a \<Rightarrow> 'm \<times> 'a"
  copy_table :: "frame \<Rightarrow> frame \<Rightarrow> 'm \<Rightarrow> 'm"

definition take_frames :: "'a frame_allocator \<Rightarrow> nat \<Rightarrow> 'a \<Rightarrow> 'a" where
  "take_frames F n a = ((\<lambda>a. snd (allocate_frame F a)) ^^ n) a"

text \<open>The documented behaviour of \<^verbatim>\<open>map_to\<close>, \<^verbatim>\<open>unmap\<close> and \<^verbatim>\<open>translate_page\<close> for one
  page table: a successful \<^verbatim>\<open>map_to\<close> adds one translation and nothing else and uses at most three
  frames for new tables; it fails without effect on the translations, and it does fail when the page
  is mapped; \<^verbatim>\<open>unmap\<close> removes exactly one translation and returns its frame, and reports a page
  that is not mapped; \<^verbatim>\<open>clean_up\<close> removes empty tables only. Two corners of the crate are idealised: a page
  inside a mapped huge page, which the crate reports as such when it is unmapped, counts as not
  mapped, and iterating over a page range does not jump over the gap between the canonical halves.\<close>

locale x86_mapper = x86_addresses X
  for X :: "('m, 'a) x86_64" +
  assumes map_to_ok: "map_to X F r p f fl m a = (Inr u, m', a') \<Longrightarrow>
      translate_page X m r p = None \<and> translate_page X m' r = (translate_page X m r)(p \<mapsto> f)"
    and map_to_err: "map_to X F r p f fl m a = (Inl e, m', a') \<Longrightarrow>
      translate_page X m' r = translate_page X m r"
    and map_to_mapped: "translate_page X m r p = Some f' \<Longrightarrow>
      \<exists>e m' a'. map_to X F r p f fl m a = (Inl e, m', a')"
    and map_to_frames: "map_to X F r p f fl m a = (x, m', a') \<Longrightarrow> \<exists>j\<le>3. a' = take_frames F j a"
    and unmap_mapped: "translate_page X m r p = Some f \<Longrightarrow>
      \<exists>m'. unmap X r p m = (Inr f, m') \<and> translate_page X m' r = (translate_page X m r)(p := None)"
    and unmap_not_mapped: "translate_page X m r p = None \<Longrightarrow>
      \<exists>m'. unmap X r p m = (Inl PageNotMapped, m') \<and> translate_page X m' r = translate_page X m r"
    and clean_up_translate: "clean_up_tables X F r m a = (m', a') \<Longrightarrow> translate_page X m' = translate_page X m"

text \<open>When \<^verbatim>\<open>map_to\<close> fails, in the words of the documentation of its error: \<^verbatim>\<open>FrameAllocationFailed\<close>
  when a frame was needed for one of the three lower tables and the allocator had none,
  \<^verbatim>\<open>PageAlreadyMapped\<close> for a mapped page and \<^verbatim>\<open>ParentEntryHugePage\<close> for a page that is part of a mapped
  huge page. \<open>huge\<close> says which pages those are; mapping a page of 4 KiB does not change it.\<close>

locale x86_map_errors = x86_mapper X
  for X :: "('m, 'a) x86_64" +
  fixes huge :: "'m \<Rightarrow> frame \<Rightarrow> page \<Rightarrow> bool"
  assumes map_to_no_frame: "map_to X F r p f fl m a = (Inl FrameAllocationFailed, m', a') \<Longrightarrow>
      \<exists>j<3. fst (allocate_frame F (take_frames F j a)) = None"
    and map_to_already: "map_to X F r p f fl m a = (Inl PageAlreadyMapped, m', a') \<Longrightarrow>
      translate_page X m r p \<noteq> None"
    and map_to_huge: "map_to X F r p f fl m a = (Inl ParentEntryHugePage, m', a') \<Longrightarrow> huge m r p"
    and huge_kept: "map_to X F r p f fl m a = (x, m', a') \<Longrightarrow> huge m' r q = huge m r q"

section \<open>Facts about alignment\<close>

lemma is_page_iff_mod: "is_page p \<longleftrightarrow> unat p mod 4096 = 0"
proof -
  have "unat (p mod 4096) = unat p mod 4096" by (simp add: unat_mod)
  then show ?thesis unfolding is_page_def by (metis unat_eq_zero)
qed

lemma unat_align_down: "unat (align_down a) = unat a div 4096 * 4096"
proof -
  have "unat (a div 4096) = unat a div 4096" by (simp add: unat_div)
  moreover have "unat a div 4096 * 4096 \<le> unat a" by simp
  then have "unat a div 4096 * 4096 < 2 ^ 64"
    using unat_word_less_pow [of a] by (simp only: len64 order.strict_trans1)
  ultimately show ?thesis by (simp add: align_down_def unat_word_ariths)
qed

lemma align_down_page [simp]: "is_page p \<Longrightarrow> align_down p = p"
  by (rule word_unat_eq_iff [THEN iffD2]) (auto simp: unat_align_down is_page_iff_mod)

lemma is_page_align_down [simp]: "is_page (align_down a)"
  by (simp add: is_page_iff_mod unat_align_down)

lemma is_page_add: "is_page p \<Longrightarrow> is_page (p + n * 4096)"
proof -
  assume p: "is_page p"
  have "unat (n * 4096) mod 4096 = 0"
    by (simp add: unat_word_ariths mod_mod_cancel)
  moreover have "unat (p + n * 4096) mod 4096 = (unat p + unat (n * 4096)) mod 4096"
    unfolding unat_word_ariths(1) [of p "n * 4096"] by (rule mod_mod_cancel) simp
  ultimately show ?thesis using p by (simp add: is_page_iff_mod mod_add_eq [symmetric])
qed

lemma is_page_of_nat: "is_page p \<Longrightarrow> is_page (p + of_nat i * 4096)"
  by (rule is_page_add)

lemma is_page_succ: "is_page p \<Longrightarrow> is_page (p + 4096)"
  using is_page_add [of p 1] by simp

section \<open>A reference instance\<close>

text \<open>Page tables as finite maps from pages to frames, one per level-4 table. It shows that the laws
  are consistent and gives witnesses something to compute with; no property rests on it.\<close>

type_synonym ref_tables = "frame \<Rightarrow> page \<rightharpoonup> frame"

definition x86_ref :: "(ref_tables, 'a) x86_64" where
  "x86_ref = \<lparr>
     va_new = (\<lambda>a. if canonical a then Some a else None),
     va_add = (\<lambda>a n. if unat a + unat n < 2 ^ 64 \<and> canonical (a + n) then Some (a + n) else None),
     va_sub = (\<lambda>a n. if n \<le> a \<and> canonical (a - n) then Some (a - n) else None),
     page_containing = align_down,
     page_add = (\<lambda>p n. if unat p + unat n * 4096 < 2 ^ 64 \<and> canonical (p + n * 4096)
                       then Some (p + n * 4096) else None),
     page_sub = (\<lambda>p n. if unat n * 4096 \<le> unat p \<and> canonical (p - n * 4096)
                       then Some (p - n * 4096) else None),
     page_diff = (\<lambda>p q. if q \<le> p then Some ((p - q) div 4096) else None),
     page_range = (\<lambda>p q. if p \<le> q then pages_from p (unat ((q - p) div 4096)) else []),
     page_range_inclusive = (\<lambda>p q. if p \<le> q then pages_from p (Suc (unat ((q - p) div 4096))) else []),
     page_align_up = (\<lambda>a. if is_page a then Some a
                        else if unat a + 4096 < 2 ^ 64 then Some (align_down a + 4096) else None),
     frame_containing = align_down,
     map_to = (\<lambda>F r p f fl m a. case m r p of
                 Some _ \<Rightarrow> (Inl PageAlreadyMapped, m, a)
               | None \<Rightarrow> (Inr (), m(r := (m r)(p \<mapsto> f)), a)),
     unmap = (\<lambda>r p m. case m r p of
                 Some f \<Rightarrow> (Inr f, m(r := (m r)(p := None)))
               | None \<Rightarrow> (Inl PageNotMapped, m)),
     translate_page = (\<lambda>m r p. m r p),
     clean_up_tables = (\<lambda>F r m a. (m, a)),
     copy_table = (\<lambda>src dst m. m(dst := m src))\<rparr>"

lemma page_count_of_range:
  assumes "unat (p :: u64) + k * 4096 < 2 ^ 64"
  shows "p \<le> p + of_nat k * 4096" and "unat ((p + of_nat k * 4096 - p) div 4096) = k"
proof -
  have u: "unat (p + of_nat k * 4096) = unat p + k * 4096"
    using assms by (rule unat_page_offset)
  then show "p \<le> p + of_nat k * 4096"
    by (simp add: word_le_nat_alt)
  have "unat (of_nat k * 4096 :: u64) = k * 4096"
    using unat_page_offset [of 0 k] assms by simp
  then show "unat ((p + of_nat k * 4096 - p) div 4096) = k"
    by (simp add: unat_div)
qed

interpretation ref: x86_mapper "x86_ref :: (ref_tables, 'a) x86_64"
proof (unfold_locales, goal_cases)
  case (11 p k)
  then show ?case using page_count_of_range [of p k] by (simp add: x86_ref_def)
next
  case (12 p k)
  then show ?case using page_count_of_range [of p k] by (simp add: x86_ref_def)
next
  case (20 F r p f fl m a x m' a')
  then have "a' = take_frames F 0 a"
    by (auto simp: x86_ref_def take_frames_def split: option.splits)
  then show ?case by blast
qed (auto simp: x86_ref_def split: option.splits)

text \<open>It has no huge pages.\<close>

abbreviation no_huge :: "ref_tables \<Rightarrow> frame \<Rightarrow> page \<Rightarrow> bool" where
  "no_huge \<equiv> \<lambda>_ _ _. False"

interpretation ref_errors: x86_map_errors "x86_ref :: (ref_tables, 'a) x86_64" no_huge
  by unfold_locales (auto simp: x86_ref_def split: option.splits)

end
