(* ===== verification/Frames.thy ===== *)
theory Frames
  imports X86 "HOL-Library.Multiset"
begin

text \<open>
  The physical frame allocator (\<^verbatim>\<open>kernel/src/memory/frames.rs\<close>), built from the boot loader's
  memory map, and the physical-address offset (\<^verbatim>\<open>kernel/src/memory/address.rs\<close>). The lazy frame
  iterator is the list of the frames it still has to yield. What a client of a frame allocator may
  rely on is the locale \<open>frame_pool\<close>.
\<close>

section \<open>Addresses\<close>

definition PAGE_SIZE :: u64 where
  "PAGE_SIZE = 4096"

definition FRAME_SIZE :: u64 where
  "FRAME_SIZE = PAGE_SIZE"

definition physical_to_virtual :: "u64 option \<Rightarrow> u64 \<Rightarrow> u64 res" where
  "physical_to_virtual offset addr =
     rbind (expect (Expect_failed ''PHYSICAL_OFFSET not initialized'') offset) (\<lambda>off. Inr (addr + off))"

section \<open>The memory map\<close>

text \<open>\<^verbatim>\<open>MemoryDescriptor\<close> belongs to the \<^verbatim>\<open>uefi\<close> crate; these are the fields that are read.\<close>

datatype MemoryType = CONVENTIONAL | OTHER_MEMORY u32

record MemoryDescriptor =
  mem_ty :: MemoryType
  phys_start :: u64
  page_count :: u64

definition region_addresses :: "MemoryDescriptor \<Rightarrow> u64 list" where
  "region_addresses r = map (\<lambda>v. of_nat v * 4096 + phys_start r) [0..<unat (page_count r)]"

definition create_frame_iter :: "'z addr_ops_scheme \<Rightarrow> MemoryDescriptor list \<Rightarrow> frame list" where
  "create_frame_iter X memory_map =
     map (frame_containing X)
       (concat (map region_addresses (filter (\<lambda>r. mem_ty r = CONVENTIONAL) memory_map)))"

section \<open>The allocator\<close>

record BootInfoFrameAllocator =
  fa_size :: usize
  fa_used :: usize
  fa_frames :: "frame list"
  fa_recycled :: "frame list"

definition BootInfoFrameAllocator_init ::
    "'z addr_ops_scheme \<Rightarrow> MemoryDescriptor list \<Rightarrow> usize \<Rightarrow> BootInfoFrameAllocator" where
  "BootInfoFrameAllocator_init X memory_map sz =
     \<lparr>fa_size = sz, fa_used = 0, fa_frames = create_frame_iter X memory_map, fa_recycled = []\<rparr>"

definition frames_used :: "BootInfoFrameAllocator \<Rightarrow> usize" where
  "frames_used a = fa_used a"

definition frames_total :: "BootInfoFrameAllocator \<Rightarrow> usize" where
  "frames_total a = fa_size a"

definition frames_recycled :: "BootInfoFrameAllocator \<Rightarrow> usize" where
  "frames_recycled a = of_nat (length (fa_recycled a))"

text \<open>\<^verbatim>\<open>Vec::push\<close> and \<^verbatim>\<open>Vec::pop\<close> work at the end of the vector, which is the head of the
  list here.\<close>

definition bi_allocate_frame ::
    "BootInfoFrameAllocator \<Rightarrow> frame option \<times> BootInfoFrameAllocator" where
  "bi_allocate_frame a =
     (case fa_recycled a of
        f # rest \<Rightarrow> (Some f, a\<lparr>fa_recycled := rest\<rparr>)
      | [] \<Rightarrow> (let a' = a\<lparr>fa_used := fa_used a + 1\<rparr>
               in case fa_frames a' of
                    [] \<Rightarrow> (None, a')
                  | f # rest \<Rightarrow> (Some f, a'\<lparr>fa_frames := rest\<rparr>)))"

definition bi_deallocate_frame ::
    "frame \<Rightarrow> BootInfoFrameAllocator \<Rightarrow> BootInfoFrameAllocator" where
  "bi_deallocate_frame f a = a\<lparr>fa_recycled := f # fa_recycled a\<rparr>"

definition boot_info_alloc :: "BootInfoFrameAllocator frame_allocator" where
  "boot_info_alloc =
     \<lparr>allocate_frame = bi_allocate_frame, deallocate_frame = bi_deallocate_frame\<rparr>"

text \<open>The totals of \<^verbatim>\<open>memory::init\<close>: pages of the whole map and of its conventional regions; the
  allocator is created with the latter as its size.\<close>

fun sum_pages :: "MemoryDescriptor list \<Rightarrow> u64 \<Rightarrow> u64 \<Rightarrow> u64 \<times> u64" where
  "sum_pages [] mem_size usable_mem_size = (mem_size, usable_mem_size)"
| "sum_pages (item # items) mem_size usable_mem_size =
     sum_pages items (mem_size + page_count item)
       (if mem_ty item = CONVENTIONAL then usable_mem_size + page_count item else usable_mem_size)"

definition memory_frames :: "'z addr_ops_scheme \<Rightarrow> MemoryDescriptor list \<Rightarrow> BootInfoFrameAllocator" where
  "memory_frames X memory_map =
     (let (mem_size, usable_mem_size) = sum_pages memory_map 0 0
      in BootInfoFrameAllocator_init X memory_map usable_mem_size)"

section \<open>The contract of a frame allocator\<close>

locale frame_pool =
  fixes F :: "'a frame_allocator"
    and free :: "'a \<Rightarrow> frame set"
    and pool_inv :: "'a \<Rightarrow> bool"
  assumes alloc_some: "pool_inv a \<Longrightarrow> allocate_frame F a = (Some f, a') \<Longrightarrow>
      f \<in> free a \<and> free a' = free a - {f} \<and> pool_inv a'"
    and alloc_none: "pool_inv a \<Longrightarrow> allocate_frame F a = (None, a') \<Longrightarrow>
      free a = {} \<and> free a' = {} \<and> pool_inv a'"
    and dealloc: "pool_inv a \<Longrightarrow> f \<notin> free a \<Longrightarrow>
      free (deallocate_frame F f a) = insert f (free a) \<and> pool_inv (deallocate_frame F f a)"
begin

lemma alloc_inv:
  assumes "pool_inv a"
  shows "pool_inv (snd (allocate_frame F a)) \<and> free (snd (allocate_frame F a)) \<subseteq> free a"
proof -
  obtain r a' where r: "allocate_frame F a = (r, a')" by fastforce
  show ?thesis
    using alloc_some [OF assms] alloc_none [OF assms] r by (cases r) auto
qed

text \<open>Taking frames for page tables only shrinks the pool.\<close>

lemma take_frames_pool: "pool_inv a \<Longrightarrow> pool_inv (take_frames F n a) \<and> free (take_frames F n a) \<subseteq> free a"
proof (induction n)
  case 0
  then show ?case by (simp add: take_frames_def)
next
  case (Suc n)
  have "take_frames F (Suc n) a = snd (allocate_frame F (take_frames F n a))"
    by (simp add: take_frames_def)
  with Suc alloc_inv [of "take_frames F n a"] show ?case by auto
qed

end

section \<open>The boot-info allocator is a frame pool\<close>

definition bi_free :: "BootInfoFrameAllocator \<Rightarrow> frame set" where
  "bi_free a = set (fa_recycled a) \<union> set (fa_frames a)"

definition bi_inv :: "BootInfoFrameAllocator \<Rightarrow> bool" where
  "bi_inv a \<longleftrightarrow> distinct (fa_recycled a @ fa_frames a)"

interpretation bi: frame_pool boot_info_alloc bi_free bi_inv
  by unfold_locales
    (auto simp: boot_info_alloc_def bi_allocate_frame_def bi_deallocate_frame_def bi_free_def bi_inv_def
      Let_def split: list.splits)

lemma distinct_iff_count_le: "distinct xs \<longleftrightarrow> (\<forall>x. count (mset xs) x \<le> 1)"
proof
  assume "\<forall>x. count (mset xs) x \<le> 1"
  then show "distinct xs"
    by (metis count_eq_zero_iff distinct_count_atmost_1 le_neq_implies_less less_one set_mset_mset)
qed (simp add: distinct_count_atmost_1)

text \<open>Sequences of requests, with the frames that are currently handed out.\<close>

datatype frame_op = Alloc | Dealloc frame

fun frame_step :: "BootInfoFrameAllocator \<times> frame multiset \<Rightarrow> frame_op \<Rightarrow>
    BootInfoFrameAllocator \<times> frame multiset" where
  "frame_step (a, out) Alloc =
     (case allocate_frame boot_info_alloc a of
        (Some f, a') \<Rightarrow> (a', add_mset f out)
      | (None, a') \<Rightarrow> (a', out))"
| "frame_step (a, out) (Dealloc f) =
     (if f \<in># out then (deallocate_frame boot_info_alloc f a, out - {#f#}) else (a, out))"

lemma frame_step_conserves:
  assumes "frame_step (a, out) x = (a', out')"
  shows "mset (fa_recycled a') + mset (fa_frames a') + out' = mset (fa_recycled a) + mset (fa_frames a) + out"
  using assms
  by (cases x)
    (auto simp: boot_info_alloc_def bi_allocate_frame_def bi_deallocate_frame_def Let_def
      split: list.splits if_splits)

lemma frame_run_conserves:
  "foldl frame_step (a, out) ops = (a', out') \<Longrightarrow>
   mset (fa_recycled a') + mset (fa_frames a') + out' = mset (fa_recycled a) + mset (fa_frames a) + out"
proof (induction ops arbitrary: a out)
  case (Cons x ops)
  obtain b o' where "frame_step (a, out) x = (b, o')" by fastforce
  with Cons frame_step_conserves [OF this] show ?case by simp
qed simp

section \<open>Properties\<close>

text \<open>C18. No frame is lost or duplicated. Over any sequence of allocations and of deallocations of
  frames that are handed out, the frames on the recycle list, those still in the iterator and those
  handed out are together exactly the frames of the start; so if those were distinct, a frame that
  is handed out is never handed out again before it is returned.\<close>

theorem frames_conserved:
  assumes "bi_inv a" and "foldl frame_step (a, {#}) ops = (a', out)"
  shows "mset (fa_recycled a') + mset (fa_frames a') + out = mset (fa_recycled a) + mset (fa_frames a) \<and>
         bi_inv a' \<and> set_mset out \<inter> bi_free a' = {} \<and> (\<forall>f. count out f \<le> 1)"
proof -
  have eq: "mset (fa_recycled a') + mset (fa_frames a') + out = mset (fa_recycled a) + mset (fa_frames a)"
    using frame_run_conserves [OF assms(2)] by simp
  have le: "count (mset (fa_recycled a')) f + count (mset (fa_frames a')) f + count out f \<le> 1" for f
  proof -
    have "count (mset (fa_recycled a) + mset (fa_frames a)) f \<le> 1"
      using assms(1) unfolding bi_inv_def distinct_iff_count_le mset_append by blast
    then show ?thesis unfolding eq [symmetric] by simp
  qed
  have "bi_inv a'"
    unfolding bi_inv_def distinct_iff_count_le mset_append
  proof
    show "count (mset (fa_recycled a') + mset (fa_frames a')) f \<le> 1" for f
      using le [of f] by simp
  qed
  moreover have "f \<notin> bi_free a'" if "f \<in># out" for f
  proof -
    have "0 < count out f" using that by simp
    then have "count (mset (fa_recycled a')) f = 0" "count (mset (fa_frames a')) f = 0"
      using le [of f] by linarith+
    then show ?thesis unfolding bi_free_def count_eq_zero_iff by simp
  qed
  moreover have "count out f \<le> 1" for f
    using le [of f] by simp
  ultimately show ?thesis using eq by blast
qed

theorem frames_conserved_witness:
  "bi_inv \<lparr>fa_size = 2, fa_used = 0, fa_frames = [0, 4096], fa_recycled = []\<rparr> \<and>
   set_mset {#4096 :: frame#} \<inter> bi_free \<lparr>fa_size = 2, fa_used = 2, fa_frames = [], fa_recycled = [0]\<rparr> = {}"
proof -
  have inv: "bi_inv \<lparr>fa_size = 2, fa_used = 0, fa_frames = [0, 4096], fa_recycled = []\<rparr>"
    by (simp add: bi_inv_def)
  have run: "foldl frame_step (\<lparr>fa_size = 2, fa_used = 0, fa_frames = [0, 4096], fa_recycled = []\<rparr>, {#})
      [Alloc, Alloc, Dealloc 0] =
      (\<lparr>fa_size = 2, fa_used = 2, fa_frames = [], fa_recycled = [0]\<rparr>, {#4096#})"
    by (simp add: boot_info_alloc_def bi_allocate_frame_def bi_deallocate_frame_def)
  from inv frames_conserved [OF inv run] show ?thesis by simp
qed

text \<open>Regions of the memory map that are page aligned, within the 52-bit physical address space and
  pairwise disjoint, as UEFI guarantees them.\<close>

fun regions_ok :: "MemoryDescriptor list \<Rightarrow> bool" where
  "regions_ok [] \<longleftrightarrow> True"
| "regions_ok (r # rs) \<longleftrightarrow>
     is_page (phys_start r) \<and> unat (phys_start r) + unat (page_count r) * 4096 \<le> 2 ^ 52 \<and>
     (\<forall>r' \<in> set rs. set (region_addresses r) \<inter> set (region_addresses r') = {}) \<and> regions_ok rs"

lemma region_addresses_eq: "region_addresses r = pages_from (phys_start r) (unat (page_count r))"
  by (simp add: region_addresses_def pages_from_def add.commute)

lemma region_address_bound:
  assumes "unat (phys_start r) + unat (page_count r) * 4096 \<le> 2 ^ 52" and "is_page (phys_start r)"
    and "x \<in> set (region_addresses r)"
  shows "unat x < 2 ^ 52 \<and> is_page x"
proof -
  obtain i where i: "i < unat (page_count r)" and x: "x = phys_start r + of_nat i * 4096"
    using assms(3) by (auto simp: region_addresses_eq set_pages_from)
  have lt: "unat (phys_start r) + i * 4096 < 2 ^ 52" using i assms(1) by linarith
  then have "unat x = unat (phys_start r) + i * 4096"
    unfolding x by (intro unat_page_offset) simp
  with lt show ?thesis using is_page_of_nat [OF assms(2), of i] x by simp
qed

context x86_addresses
begin

lemma create_frame_iter_eq:
  assumes "regions_ok (filter (\<lambda>r. mem_ty r = CONVENTIONAL) mm)"
  shows "create_frame_iter X mm =
    concat (map region_addresses (filter (\<lambda>r. mem_ty r = CONVENTIONAL) mm))"
proof -
  have "\<forall>x \<in> set (concat (map region_addresses rs)). unat x < 2 ^ 52 \<and> is_page x" if "regions_ok rs" for rs
    using that by (induction rs) (use region_address_bound in \<open>force+\<close>)
  from this [OF assms] show ?thesis
    unfolding create_frame_iter_def by (intro map_idI) (auto simp: frame_containing_eq)
qed

lemma distinct_region_frames: "regions_ok rs \<Longrightarrow> distinct (concat (map region_addresses rs))"
proof (induction rs)
  case (Cons r rs)
  have "distinct (region_addresses r)"
    unfolding region_addresses_eq using Cons.prems by (intro distinct_pages_from) simp
  with Cons show ?case by fastforce
qed simp

end

text \<open>The allocator built by \<^verbatim>\<open>memory::init\<close> starts well-formed: over a memory map whose
  conventional regions are aligned and disjoint, the frames it can hand out are pairwise distinct and
  are exactly the page addresses of those regions, with nothing recycled and nothing used.\<close>

theorem boot_frames_conventional:
  assumes "x86_addresses X" and "regions_ok (filter (\<lambda>r. mem_ty r = CONVENTIONAL) mm)"
  shows "bi_inv (memory_frames X mm) \<and>
         bi_free (memory_frames X mm) =
           (\<Union>r \<in> {r \<in> set mm. mem_ty r = CONVENTIONAL}. set (region_addresses r)) \<and>
         frames_used (memory_frames X mm) = 0 \<and> frames_recycled (memory_frames X mm) = 0"
  using x86_addresses.create_frame_iter_eq [OF assms] x86_addresses.distinct_region_frames [OF assms]
  by (simp add: memory_frames_def BootInfoFrameAllocator_init_def bi_inv_def bi_free_def frames_used_def
      frames_recycled_def split: prod.splits)

theorem boot_frames_conventional_witness:
  "bi_free (memory_frames (x86_ref :: (ref_tables, unit) x86_64)
     [\<lparr>mem_ty = CONVENTIONAL, phys_start = 0x1000, page_count = 2\<rparr>,
      \<lparr>mem_ty = OTHER_MEMORY 0, phys_start = 0x3000, page_count = 1\<rparr>]) = {0x1000, 0x2000}"
proof -
  have "regions_ok (filter (\<lambda>r. mem_ty r = CONVENTIONAL)
     [\<lparr>mem_ty = CONVENTIONAL, phys_start = 0x1000, page_count = 2\<rparr>,
      \<lparr>mem_ty = OTHER_MEMORY 0, phys_start = 0x3000, page_count = 1\<rparr>])"
    by (simp add: is_page_def)
  from boot_frames_conventional [where X = "x86_ref :: (ref_tables, unit) x86_64", OF ref.x86_addresses_axioms this] show ?thesis
    by (simp add: Collect_conv_if conj_disj_distribR Collect_disj_eq region_addresses_eq)
      (simp add: pages_from_def upt_rec insert_commute)
qed

end
