(* ===== verification/Elf.thy ===== *)
theory Elf
  imports Frames
begin

text \<open>
  The \<^verbatim>\<open>elf\<close> crate (\<^verbatim>\<open>pkg/elf/src/lib.rs\<close>): mapping and unmapping of page ranges and loading of
  ELF segments. The page tables live in \<open>'m\<close>, the frame allocator in \<open>'a\<close>; both are threaded
  through every operation, also when it fails half-way. A page table is named by the frame of its
  level-4 table. The locale \<open>paging\<close> joins the mapper and allocator contracts.
\<close>

section \<open>Mapping and unmapping\<close>

text \<open>The loop of \<^verbatim>\<open>map_range\<close>: one frame per page, then \<^verbatim>\<open>map_to\<close>; the first error
  stops it.\<close>

fun map_pages :: "('m, 'a) x86_64 \<Rightarrow> 'a frame_allocator \<Rightarrow> frame \<Rightarrow> pt_flag set \<Rightarrow> page list \<Rightarrow>
    'm \<Rightarrow> 'a \<Rightarrow> (map_error + unit) \<times> 'm \<times> 'a" where
  "map_pages X F r flags [] m a = (Inr (), m, a)"
| "map_pages X F r flags (page # pages) m a =
     (case allocate_frame F a of
        (None, a1) \<Rightarrow> (Inl FrameAllocationFailed, m, a1)
      | (Some frame, a1) \<Rightarrow>
          (case map_to X F r page frame flags m a1 of
             (Inl e, m2, a2) \<Rightarrow> (Inl e, m2, a2)
           | (Inr _, m2, a2) \<Rightarrow> map_pages X F r flags pages m2 a2))"

definition map_range_flags :: "bool \<Rightarrow> pt_flag set" where
  "map_range_flags user_access =
     (if user_access then insert USER_ACCESSIBLE {PRESENT, WRITABLE} else {PRESENT, WRITABLE})"

definition user_map_range_flags :: "pt_flag set" where
  "user_map_range_flags = {PRESENT, WRITABLE, USER_ACCESSIBLE, NO_EXECUTE}"

definition map_range_with :: "('m, 'a) x86_64 \<Rightarrow> 'a frame_allocator \<Rightarrow> frame \<Rightarrow> pt_flag set \<Rightarrow>
    u64 \<Rightarrow> u64 \<Rightarrow> 'm \<Rightarrow> 'a \<Rightarrow> ((map_error + page \<times> page) \<times> 'm \<times> 'a) res" where
  "map_range_with X F r flags addr cnt m a =
     rbind (expect Address_panic (va_new X addr)) (\<lambda>va.
       let range_start = page_containing X va
       in rbind (expect Address_panic (page_add X range_start cnt)) (\<lambda>range_end.
            case map_pages X F r flags (page_range X range_start range_end) m a of
              (Inl e, m', a') \<Rightarrow> Inr (Inl e, m', a')
            | (Inr _, m', a') \<Rightarrow> Inr (Inr (range_start, range_end), m', a')))"

definition map_range :: "('m, 'a) x86_64 \<Rightarrow> 'a frame_allocator \<Rightarrow> frame \<Rightarrow>
    u64 \<Rightarrow> u64 \<Rightarrow> bool \<Rightarrow> 'm \<Rightarrow> 'a \<Rightarrow> ((map_error + page \<times> page) \<times> 'm \<times> 'a) res" where
  "map_range X F r addr cnt user_access m a =
     map_range_with X F r (map_range_flags user_access) addr cnt m a"

definition user_map_range :: "('m, 'a) x86_64 \<Rightarrow> 'a frame_allocator \<Rightarrow> frame \<Rightarrow>
    u64 \<Rightarrow> u64 \<Rightarrow> 'm \<Rightarrow> 'a \<Rightarrow> ((map_error + page \<times> page) \<times> 'm \<times> 'a) res" where
  "user_map_range X F r addr cnt m a = map_range_with X F r user_map_range_flags addr cnt m a"

fun unmap_loop :: "('m, 'a) x86_64 \<Rightarrow> 'a frame_allocator \<Rightarrow> frame \<Rightarrow> bool \<Rightarrow> page list \<Rightarrow>
    'm \<Rightarrow> 'a \<Rightarrow> (unmap_error + unit) \<times> 'm \<times> 'a" where
  "unmap_loop X F r dealloc [] m a = (Inr (), m, a)"
| "unmap_loop X F r dealloc (page # pages) m a =
     (case unmap X r page m of
        (Inl e, m1) \<Rightarrow> (Inl e, m1, a)
      | (Inr frame, m1) \<Rightarrow>
          unmap_loop X F r dealloc pages m1 (if dealloc then deallocate_frame F frame a else a))"

definition unmap_range :: "('m, 'a) x86_64 \<Rightarrow> 'a frame_allocator \<Rightarrow> frame \<Rightarrow> page \<times> page \<Rightarrow> bool \<Rightarrow>
    'm \<Rightarrow> 'a \<Rightarrow> (unmap_error + unit) \<times> 'm \<times> 'a" where
  "unmap_range X F r rng dealloc m a =
     unmap_loop X F r dealloc (page_range_inclusive X (fst rng) (snd rng)) m a"

definition unmap_pages :: "('m, 'a) x86_64 \<Rightarrow> 'a frame_allocator \<Rightarrow> frame \<Rightarrow> u64 \<Rightarrow> u64 \<Rightarrow> bool \<Rightarrow>
    'm \<Rightarrow> 'a \<Rightarrow> ((unmap_error + unit) \<times> 'm \<times> 'a) res" where
  "unmap_pages X F r addr pages do_dealloc m a =
     rbind (expect Address_panic (va_new X addr)) (\<lambda>va.
       let start = page_containing X va
       in rbind (expect Address_panic (page_add X start pages)) (\<lambda>next.
          rbind (expect Address_panic (page_sub X next 1)) (\<lambda>stop.
            Inr (unmap_range X F r (start, stop) do_dealloc m a))))"

section \<open>Loading segments\<close>

text \<open>What the kernel reads of a program header and of an ELF file (\<^verbatim>\<open>xmas_elf\<close>). \<open>elf_byte\<close>
  gives the bytes from the start of the file's buffer on: the loader reads through a raw pointer,
  without a bounds check. \<^verbatim>\<open>get_type().unwrap()\<close> panics on an unknown type: \<^term>\<open>None\<close>.\<close>

record ProgramHeader =
  ph_is_load :: "bool option"
  ph_offset :: u64
  ph_virtual_addr :: u64
  ph_file_size :: u64
  ph_mem_size :: u64
  ph_write :: bool
  ph_execute :: bool

record ElfFile =
  elf_byte :: "nat \<Rightarrow> u8"
  elf_len :: nat
  elf_headers :: "ProgramHeader list"
  elf_entry :: u64

text \<open>The bytes of physical memory as seen through the offset mapping.\<close>

type_synonym bytes = "u64 \<Rightarrow> u8"

definition write_mem :: "bytes \<Rightarrow> u64 \<Rightarrow> u8 list \<Rightarrow> bytes" where
  "write_mem pm addr bs = (\<lambda>x. if unat (x - addr) < length bs then bs ! unat (x - addr) else pm x)"

definition segment_flags :: "ProgramHeader \<Rightarrow> bool \<Rightarrow> pt_flag set" where
  "segment_flags seg user_access =
     {PRESENT} \<union> (if ph_write seg then {WRITABLE} else {}) \<union>
     (if \<not> ph_execute seg then {NO_EXECUTE} else {}) \<union>
     (if user_access then {USER_ACCESSIBLE} else {})"

text \<open>Bytes of the file that go into page \<open>idx\<close>: in 64-bit arithmetic, as in the source.\<close>

definition chunk_count :: "u64 \<Rightarrow> nat \<Rightarrow> u64" where
  "chunk_count file_size idx =
     (let offset = of_nat idx * 4096
      in if file_size - offset < 4096 then file_size - offset else 4096)"

definition chunk :: "ElfFile \<Rightarrow> u64 \<Rightarrow> u64 \<Rightarrow> nat \<Rightarrow> u8 list" where
  "chunk elf file_offset file_size idx =
     map (\<lambda>k. elf_byte elf (unat file_offset + idx * 4096 + k)) [0..<unat (chunk_count file_size idx)]"

fun load_pages :: "('m, 'a) x86_64 \<Rightarrow> 'a frame_allocator \<Rightarrow> frame \<Rightarrow> ElfFile \<Rightarrow> u64 \<Rightarrow> u64 \<Rightarrow> u64 \<Rightarrow>
    pt_flag set \<Rightarrow> nat \<Rightarrow> page list \<Rightarrow> 'm \<Rightarrow> 'a \<Rightarrow> bytes \<Rightarrow> (map_error + unit) \<times> 'm \<times> 'a \<times> bytes" where
  "load_pages X F r elf physical_offset file_offset file_size flags idx [] m a pm = (Inr (), m, a, pm)"
| "load_pages X F r elf physical_offset file_offset file_size flags idx (page # pages) m a pm =
     (case allocate_frame F a of
        (None, a1) \<Rightarrow> (Inl FrameAllocationFailed, m, a1, pm)
      | (Some frame, a1) \<Rightarrow>
          (let cnt = chunk_count file_size idx;
               pm1 = write_mem pm (frame + physical_offset) (chunk elf file_offset file_size idx)
           in case map_to X F r page frame flags m a1 of
                (Inl e, m2, a2) \<Rightarrow> (Inl e, m2, a2, pm1)
              | (Inr _, m2, a2) \<Rightarrow>
                  (let pm2 = (if cnt < 4096
                              then write_mem pm1 (frame + physical_offset + cnt)
                                     (replicate (unat (4096 - cnt)) 0)
                              else pm1)
                   in load_pages X F r elf physical_offset file_offset file_size flags (Suc idx) pages
                        m2 a2 pm2)))"

fun load_bss :: "('m, 'a) x86_64 \<Rightarrow> 'a frame_allocator \<Rightarrow> frame \<Rightarrow> u64 \<Rightarrow> pt_flag set \<Rightarrow> page list \<Rightarrow>
    'm \<Rightarrow> 'a \<Rightarrow> bytes \<Rightarrow> (map_error + unit) \<times> 'm \<times> 'a \<times> bytes" where
  "load_bss X F r physical_offset flags [] m a pm = (Inr (), m, a, pm)"
| "load_bss X F r physical_offset flags (page # pages) m a pm =
     (case allocate_frame F a of
        (None, a1) \<Rightarrow> (Inl FrameAllocationFailed, m, a1, pm)
      | (Some frame, a1) \<Rightarrow>
          (case map_to X F r page frame flags m a1 of
             (Inl e, m2, a2) \<Rightarrow> (Inl e, m2, a2, pm)
           | (Inr _, m2, a2) \<Rightarrow>
               load_bss X F r physical_offset flags pages m2 a2
                 (write_mem pm (frame + physical_offset) (replicate 4096 0))))"

definition load_segment :: "('m, 'a) x86_64 \<Rightarrow> 'a frame_allocator \<Rightarrow> frame \<Rightarrow> ElfFile \<Rightarrow> u64 \<Rightarrow>
    ProgramHeader \<Rightarrow> bool \<Rightarrow> 'm \<Rightarrow> 'a \<Rightarrow> bytes \<Rightarrow>
    ((map_error + page \<times> page) \<times> 'm \<times> 'a \<times> bytes) res" where
  "load_segment X F r elf physical_offset seg user_access m a pm =
     (let mem_size = ph_mem_size seg;
          file_size = ph_file_size seg;
          file_offset = ph_offset seg AND NOT 0xFFF;
          flags = segment_flags seg user_access
      in rbind (expect Address_panic (va_new X (ph_virtual_addr seg))) (\<lambda>virt_start.
         rbind (expect Address_panic (va_add X virt_start file_size)) (\<lambda>file_end.
         rbind (expect Address_panic (va_sub X file_end 1)) (\<lambda>file_last.
           let start_page = page_containing X virt_start;
               end_page = page_containing X file_last
           in case load_pages X F r elf physical_offset file_offset file_size flags 0
                     (page_range_inclusive X start_page end_page) m a pm of
                (Inl e, m1, a1, pm1) \<Rightarrow> Inr (Inl e, m1, a1, pm1)
              | (Inr _, m1, a1, pm1) \<Rightarrow>
                  if mem_size > file_size
                  then rbind (expect Address_panic (va_add X virt_start file_size)) (\<lambda>zero_start.
                       rbind (expect Address_panic (va_add X virt_start mem_size)) (\<lambda>zero_end.
                       rbind (expect Address_panic (page_align_up X zero_start)) (\<lambda>aligned.
                       rbind (expect Address_panic (va_new X aligned)) (\<lambda>bss_addr.
                         case load_bss X F r physical_offset flags
                                (page_range_inclusive X (page_containing X bss_addr)
                                   (page_containing X zero_end)) m1 a1 pm1 of
                           (Inl e, m2, a2, pm2) \<Rightarrow> Inr (Inl e, m2, a2, pm2)
                         | (Inr _, m2, a2, pm2) \<Rightarrow> Inr (Inr (start_page, end_page), m2, a2, pm2)))))
                  else Inr (Inr (start_page, end_page), m1, a1, pm1)))))"

text \<open>\<^verbatim>\<open>load_elf\<close>: the loadable segments in order; \<^verbatim>\<open>collect\<close> stops at the first error.\<close>

fun load_segments :: "('m, 'a) x86_64 \<Rightarrow> 'a frame_allocator \<Rightarrow> frame \<Rightarrow> ElfFile \<Rightarrow> u64 \<Rightarrow>
    ProgramHeader list \<Rightarrow> bool \<Rightarrow> 'm \<Rightarrow> 'a \<Rightarrow> bytes \<Rightarrow>
    ((map_error + (page \<times> page) list) \<times> 'm \<times> 'a \<times> bytes) res" where
  "load_segments X F r elf physical_offset [] user_access m a pm = Inr (Inr [], m, a, pm)"
| "load_segments X F r elf physical_offset (seg # segs) user_access m a pm =
     rbind (expect Unwrap_failed (ph_is_load seg)) (\<lambda>is_load.
       if \<not> is_load then load_segments X F r elf physical_offset segs user_access m a pm
       else rbind (load_segment X F r elf physical_offset seg user_access m a pm) (\<lambda>(res, m1, a1, pm1).
         case res of
           Inl e \<Rightarrow> Inr (Inl e, m1, a1, pm1)
         | Inr rng \<Rightarrow>
             rbind (load_segments X F r elf physical_offset segs user_access m1 a1 pm1)
               (\<lambda>(res', m2, a2, pm2).
                  case res' of
                    Inl e \<Rightarrow> Inr (Inl e, m2, a2, pm2)
                  | Inr rngs \<Rightarrow> Inr (Inr (rng # rngs), m2, a2, pm2))))"

definition load_elf :: "('m, 'a) x86_64 \<Rightarrow> 'a frame_allocator \<Rightarrow> frame \<Rightarrow> ElfFile \<Rightarrow> u64 \<Rightarrow> bool \<Rightarrow>
    'm \<Rightarrow> 'a \<Rightarrow> bytes \<Rightarrow> ((map_error + (page \<times> page) list) \<times> 'm \<times> 'a \<times> bytes) res" where
  "load_elf X F r elf physical_offset user_access m a pm =
     load_segments X F r elf physical_offset (elf_headers elf) user_access m a pm"

section \<open>The paging contract\<close>

definition range_fits :: "u64 \<Rightarrow> u64 \<Rightarrow> bool" where
  "range_fits addr cnt \<longleftrightarrow> canonical addr \<and> unat (align_down addr) + unat cnt * 4096 < 2 ^ 64 \<and>
     canonical (align_down addr + cnt * 4096)"

definition range_low :: "u64 \<Rightarrow> u64 \<Rightarrow> bool" where
  "range_low addr cnt \<longleftrightarrow> unat addr < 2 ^ 47 \<and> unat (align_down addr) + unat cnt * 4096 < 2 ^ 47"

lemma range_low_fits: "range_low addr cnt \<Longrightarrow> range_fits addr cnt"
proof -
  assume low: "range_low addr cnt"
  then have "unat (align_down addr + of_nat (unat cnt) * 4096) = unat (align_down addr) + unat cnt * 4096"
    by (intro unat_page_offset) (simp add: range_low_def)
  then show ?thesis using low by (simp add: range_fits_def range_low_def canonical_def)
qed

definition range_pages :: "u64 \<Rightarrow> u64 \<Rightarrow> page list" where
  "range_pages addr cnt = pages_from (align_down addr) (unat cnt)"

locale paging = x86_mapper X + frame_pool F free pool_inv
  for X :: "('m, 'a) x86_64"
    and F :: "'a frame_allocator"
    and free :: "'a \<Rightarrow> frame set"
    and pool_inv :: "'a \<Rightarrow> bool"
begin

lemma map_to_pool:
  assumes "pool_inv a" and "map_to X F r p f fl m a = (x, m', a')"
  shows "pool_inv a' \<and> free a' \<subseteq> free a"
  using map_to_frames [OF assms(2)] take_frames_pool [OF assms(1)] by blast

text \<open>A successful run of the mapping loop: every page was unmapped before and is mapped to a frame
  of its own, taken from the pool; no other translation changes.\<close>

lemma map_pages_ok:
  assumes "pool_inv a" and "map_pages X F r fl ps m a = (Inr u, m', a')"
  shows "\<exists>fs. length fs = length ps \<and> distinct fs \<and> set fs \<subseteq> free a \<and> set fs \<inter> free a' = {} \<and>
      pool_inv a' \<and> free a' \<subseteq> free a \<and> distinct ps \<and>
      (\<forall>p \<in> set ps. translate_page X m r p = None) \<and>
      translate_page X m' r = (translate_page X m r)(ps [\<mapsto>] fs)"
  using assms
proof (induction ps arbitrary: m a)
  case Nil
  then show ?case by (intro exI [of _ "[]"]) auto
next
  case (Cons p ps)
  obtain f a1 where al: "allocate_frame F a = (Some f, a1)"
    using Cons.prems(2) by (cases "allocate_frame F a"; cases "fst (allocate_frame F a)") auto
  obtain v m2 a2 where mt: "map_to X F r p f fl m a1 = (Inr v, m2, a2)"
    and rest: "map_pages X F r fl ps m2 a2 = (Inr u, m', a')"
    using Cons.prems(2) al by (auto split: prod.splits sum.splits)
  have a1: "f \<in> free a" "free a1 = free a - {f}" "pool_inv a1"
    using alloc_some [OF Cons.prems(1) al] by auto
  have a2: "pool_inv a2" "free a2 \<subseteq> free a1" using map_to_pool [OF a1(3) mt] by auto
  have tr: "translate_page X m r p = None" "translate_page X m2 r = (translate_page X m r)(p \<mapsto> f)"
    using map_to_ok [OF mt] by auto
  obtain fs where fs: "length fs = length ps" "distinct fs" "set fs \<subseteq> free a2" "set fs \<inter> free a' = {}"
    "pool_inv a'" "free a' \<subseteq> free a2" "distinct ps" "\<forall>q \<in> set ps. translate_page X m2 r q = None"
    "translate_page X m' r = (translate_page X m2 r)(ps [\<mapsto>] fs)"
    using Cons.IH [OF a2(1) rest] by blast
  have "p \<notin> set ps" using fs(8) tr(2) by (metis fun_upd_same option.distinct(1))
  then have un: "\<forall>q \<in> set ps. translate_page X m r q = None"
    using fs(8) tr(2) by (metis fun_upd_other)
  have fr: "f \<notin> set fs" "f \<notin> free a'" using fs(3,6) a2(2) a1(2) by auto
  show ?case
    by (rule exI [of _ "f # fs"]) (use fs fr a1 a2 tr un \<open>p \<notin> set ps\<close> in auto)
qed

text \<open>A failed run maps a proper prefix of the pages at most.\<close>

lemma map_pages_frame:
  assumes "map_pages X F r fl ps m a = (x, m', a')" and "p \<notin> set ps"
  shows "translate_page X m' r p = translate_page X m r p"
  using assms
proof (induction ps arbitrary: m a)
  case (Cons q ps)
  show ?case
  proof (cases "\<exists>f a1 v m2 a2. allocate_frame F a = (Some f, a1) \<and> map_to X F r q f fl m a1 = (Inr v, m2, a2)")
    case True
    then obtain f a1 v m2 a2 where st: "allocate_frame F a = (Some f, a1)"
      "map_to X F r q f fl m a1 = (Inr v, m2, a2)" by blast
    then have "map_pages X F r fl ps m2 a2 = (x, m', a')" using Cons.prems(1) by simp
    then show ?thesis using Cons.IH Cons.prems(2) map_to_ok [OF st(2)] by simp
  next
    case False
    then show ?thesis
      using Cons.prems(1) map_to_err by (auto split: prod.splits option.splits sum.splits)
  qed
qed simp

lemma map_pages_mapped_fails:
  assumes "pool_inv a" and "p \<in> set ps" and "translate_page X m r p = Some f"
  shows "\<exists>e m' a'. map_pages X F r fl ps m a = (Inl e, m', a')"
proof (cases "map_pages X F r fl ps m a")
  case (fields y m' a')
  then show ?thesis
    using map_pages_ok [OF assms(1)] assms(2,3) by (cases y) fastforce+
qed

text \<open>Unmapping pages that are all mapped, to distinct frames that are in use.\<close>

lemma unmap_loop_ok:
  assumes "distinct ps" and "length fs = length ps" and "distinct fs" and "pool_inv a"
    and "set fs \<inter> free a = {}" and "\<forall>i < length ps. translate_page X m r (ps ! i) = Some (fs ! i)"
  shows "\<exists>m' a'. unmap_loop X F r True ps m a = (Inr (), m', a') \<and> pool_inv a' \<and>
      free a' = free a \<union> set fs \<and>
      (\<forall>p. translate_page X m' r p = (if p \<in> set ps then None else translate_page X m r p))"
  using assms
proof (induction ps arbitrary: fs m a)
  case (Cons p ps)
  then obtain f fs' where fs: "fs = f # fs'" by (cases fs) auto
  have "translate_page X m r p = Some f" using Cons.prems(6) fs by force
  then obtain m1 where m1: "unmap X r p m = (Inr f, m1)"
    "translate_page X m1 r = (translate_page X m r)(p := None)"
    using unmap_mapped by blast
  have a1: "free (deallocate_frame F f a) = insert f (free a)" "pool_inv (deallocate_frame F f a)"
    using dealloc Cons.prems(4,5) fs by auto
  have "translate_page X m1 r (ps ! i) = Some (fs' ! i)" if "i < length ps" for i
    using that Cons.prems(1,2,6) fs m1(2) by (auto dest: spec [of _ "Suc i"])
  then obtain m' a' where "unmap_loop X F r True ps m1 (deallocate_frame F f a) = (Inr (), m', a')"
    "pool_inv a'" "free a' = insert f (free a) \<union> set fs'"
    "\<forall>q. translate_page X m' r q = (if q \<in> set ps then None else translate_page X m1 r q)"
    using Cons.IH [of fs' "deallocate_frame F f a" m1] Cons.prems a1 fs by auto
  then show ?case using m1 fs by auto
qed auto

text \<open>A page that is not mapped stops the loop with an error.\<close>

lemma unmap_loop_fails:
  assumes "p \<in> set ps" and "translate_page X m r p = None"
  shows "\<exists>e m' a'. unmap_loop X F r d ps m a = (Inl e, m', a')"
  using assms
proof (induction ps arbitrary: m a)
  case (Cons q ps)
  show ?case
  proof (cases "translate_page X m r q")
    case None
    then obtain m1 where "unmap X r q m = (Inl PageNotMapped, m1)"
      using unmap_not_mapped by blast
    then show ?thesis by simp
  next
    case (Some f)
    then obtain m1 where "unmap X r q m = (Inr f, m1)"
      "translate_page X m1 r = (translate_page X m r)(q := None)"
      using unmap_mapped by blast
    then show ?thesis using Cons Some by (cases "p = q") auto
  qed
qed simp

text \<open>The pages a call of \<^verbatim>\<open>map_range\<close> is about, when the range stays canonical.\<close>

lemma map_range_pages:
  assumes "range_fits addr cnt"
  shows "map_range_with X F r fl addr cnt m a =
    (case map_pages X F r fl (range_pages addr cnt) m a of
       (Inl e, m', a') \<Rightarrow> Inr (Inl e, m', a')
     | (Inr _, m', a') \<Rightarrow> Inr (Inr (align_down addr, align_down addr + cnt * 4096), m', a'))"
proof -
  have "page_range X (align_down addr) (align_down addr + of_nat (unat cnt) * 4096) = range_pages addr cnt"
    unfolding range_pages_def using assms by (intro page_range_eq) (simp_all add: range_fits_def)
  then show ?thesis
    using assms by (simp add: map_range_with_def range_fits_def va_new_ok page_containing_eq page_add_ok Let_def)
qed

lemma unmap_pages_pages:
  assumes "range_low addr cnt" and "0 < unat cnt"
  shows "unmap_pages X F r addr cnt d m a = Inr (unmap_loop X F r d (range_pages addr cnt) m a)"
proof -
  let ?s = "align_down addr"
  obtain k where k: "unat cnt = Suc k" using assms(2) by (metis gr0_implies_Suc)
  then have cnt: "cnt = of_nat (Suc k)" by (metis of_nat_unat ucast_id)
  have low: "unat ?s + Suc k * 4096 < 2 ^ 47" using assms(1) k by (simp add: range_low_def)
  have u: "unat (?s + of_nat j * 4096) = unat ?s + j * 4096" if "j \<le> Suc k" for j
    using that low by (intro unat_page_offset) simp
  have add: "page_add X ?s cnt = Some (?s + of_nat (Suc k) * 4096)"
    using range_low_fits [OF assms(1)] page_add_ok [of ?s cnt] cnt by (simp add: range_fits_def)
  have eq: "?s + of_nat (Suc k) * 4096 - 1 * 4096 = ?s + of_nat k * 4096" by (simp add: algebra_simps)
  have "canonical (?s + of_nat k * 4096)"
    using u [of k] low by (simp add: canonical_def)
  moreover have "unat (1 :: u64) * 4096 \<le> unat (?s + of_nat (Suc k) * 4096)"
    using u [of "Suc k"] by simp
  ultimately have sub: "page_sub X (?s + of_nat (Suc k) * 4096) 1 = Some (?s + of_nat k * 4096)"
    using page_sub_ok [of "?s + of_nat (Suc k) * 4096" 1] is_page_of_nat [of ?s "Suc k"] eq by simp
  have "page_range_inclusive X ?s (?s + of_nat k * 4096) = range_pages addr cnt"
    unfolding range_pages_def k using low by (intro page_range_inclusive_eq) simp_all
  then show ?thesis
    using range_low_fits [OF assms(1)] add sub
    by (simp add: unmap_pages_def unmap_range_def va_new_ok page_containing_eq range_fits_def Let_def)
qed

lemma map_range_ok:
  assumes "range_fits addr cnt" and "pool_inv a"
    and "map_range_with X F r fl addr cnt m a = Inr (Inr rng, m', a')"
  shows "rng = (align_down addr, align_down addr + cnt * 4096) \<and>
    (\<exists>fs. length fs = unat cnt \<and> distinct fs \<and> set fs \<subseteq> free a - free a' \<and>
       pool_inv a' \<and> free a' \<subseteq> free a \<and>
       (\<forall>p \<in> set (range_pages addr cnt). translate_page X m r p = None) \<and>
       translate_page X m' r = (translate_page X m r)(range_pages addr cnt [\<mapsto>] fs))"
proof -
  obtain u where mp: "map_pages X F r fl (range_pages addr cnt) m a = (Inr u, m', a')"
    and rng: "rng = (align_down addr, align_down addr + cnt * 4096)"
    using assms(3) map_range_pages [OF assms(1), of r fl m a] by (auto split: prod.splits sum.splits)
  from map_pages_ok [OF assms(2) mp] rng show ?thesis
    by (auto simp: range_pages_def)
qed

lemma map_then_unmap:
  assumes "range_low addr cnt" and "0 < unat cnt" and "pool_inv a"
    and "map_range_with X F r fl addr cnt m a = Inr (Inr rng, m', a')"
  shows "\<exists>m'' a''. unmap_pages X F r addr cnt True m' a' = Inr (Inr (), m'', a'') \<and>
    translate_page X m'' r = translate_page X m r \<and> pool_inv a'' \<and> free a' \<subseteq> free a'' \<and>
    card (free a'' - free a') = unat cnt"
proof -
  let ?ps = "range_pages addr cnt"
  obtain fs where fs: "length fs = unat cnt" "distinct fs" "set fs \<subseteq> free a - free a'" "pool_inv a'"
    "\<forall>p \<in> set ?ps. translate_page X m r p = None"
    "translate_page X m' r = (translate_page X m r)(?ps [\<mapsto>] fs)"
    using map_range_ok [OF range_low_fits [OF assms(1)] assms(3,4)] by blast
  have d: "distinct ?ps" and len: "length ?ps = unat cnt"
    unfolding range_pages_def using assms(1) by (auto intro!: distinct_pages_from simp: range_low_def)
  have tr: "translate_page X m' r (?ps ! i) = Some (fs ! i)" if "i < length ?ps" for i
    using that fs(1,6) d len by (simp add: map_upds_nth)
  have out: "translate_page X m' r p = translate_page X m r p" if "p \<notin> set ?ps" for p
    using that fs(6) by (simp add: map_upds_apply_nontin)
  obtain m'' a'' where un: "unmap_loop X F r True ?ps m' a' = (Inr (), m'', a'')" "pool_inv a''"
    "free a'' = free a' \<union> set fs"
    "\<forall>p. translate_page X m'' r p = (if p \<in> set ?ps then None else translate_page X m' r p)"
    using unmap_loop_ok [OF d _ fs(2,4) _ allI [OF impI [OF tr]]] fs(1,3) len by force
  have "translate_page X m'' r = translate_page X m r"
    using un(4) fs(5) out by (intro ext) auto
  moreover have "free a'' - free a' = set fs" using un(3) fs(3) by blast
  ultimately show ?thesis
    using unmap_pages_pages [OF assms(1,2)] un fs(1,2) by (auto simp: distinct_card)
qed

end

text \<open>When mapping must succeed: no page of the list is mapped or part of a huge page, and there are
  four free frames for every page, one for the page and three for new tables. (A pool without an end would
  count as empty here; the pools of the kernel are finite.)\<close>

definition map_blocked :: "('m, 'a) x86_64 \<Rightarrow> ('a \<Rightarrow> frame set) \<Rightarrow> ('m \<Rightarrow> frame \<Rightarrow> page \<Rightarrow> bool) \<Rightarrow>
    frame \<Rightarrow> page list \<Rightarrow> 'm \<Rightarrow> 'a \<Rightarrow> bool" where
  "map_blocked X free huge r ps m a \<longleftrightarrow> card (free a) < 4 * length ps \<or>
     (\<exists>p \<in> set ps. translate_page X m r p \<noteq> None \<or> huge m r p)"

locale paging_total = paging X F free pool_inv + x86_map_errors X huge
  for X :: "('m, 'a) x86_64"
    and F :: "'a frame_allocator"
    and free :: "'a \<Rightarrow> frame set"
    and pool_inv :: "'a \<Rightarrow> bool"
    and huge :: "'m \<Rightarrow> frame \<Rightarrow> page \<Rightarrow> bool"
begin

lemma alloc_available:
  assumes "pool_inv a" and "0 < card (free a)"
  obtains f a' where "allocate_frame F a = (Some f, a')" and "pool_inv a'" and "card (free a') + 1 = card (free a)"
proof -
  obtain o1 a' where al: "allocate_frame F a = (o1, a')" by fastforce
  show ?thesis
  proof (cases o1)
    case None
    then show ?thesis using alloc_none [OF assms(1)] al assms(2) by simp
  next
    case (Some f)
    then show ?thesis
      using that al alloc_some [OF assms(1)] assms(2) card_Suc_Diff1 [OF card_ge_0_finite [OF assms(2)]] by simp
  qed
qed

lemma take_frames_card:
  assumes "pool_inv a" and "n \<le> card (free a)"
  shows "card (free (take_frames F n a)) + n = card (free a)"
  using assms(2)
proof (induction n)
  case (Suc n)
  then have "0 < card (free (take_frames F n a))" by simp
  with take_frames_pool [OF assms(1)] obtain f a' where "allocate_frame F (take_frames F n a) = (Some f, a')"
    "card (free a') + 1 = card (free (take_frames F n a))"
    by (metis alloc_available)
  then show ?case using Suc by (simp add: take_frames_def)
qed (simp add: take_frames_def)

lemma map_to_succeeds:
  assumes "pool_inv a" and "translate_page X m r p = None" and "\<not> huge m r p" and "3 \<le> card (free a)"
  shows "\<exists>m' a'. map_to X F r p f fl m a = (Inr (), m', a') \<and> pool_inv a' \<and> card (free a) \<le> card (free a') + 3"
proof -
  obtain x m' a' where mt: "map_to X F r p f fl m a = (x, m', a')" by (metis surj_pair)
  have has: "fst (allocate_frame F (take_frames F j a)) \<noteq> None" if "j < 3" for j
  proof -
    have "0 < card (free (take_frames F j a))"
      using take_frames_card [OF assms(1), of j] that assms(4) by linarith
    with take_frames_pool [OF assms(1)] show ?thesis by (metis alloc_available fst_conv option.distinct(1))
  qed
  have "x \<noteq> Inl e" for e
  proof (cases e)
    case FrameAllocationFailed
    then show ?thesis using mt has map_to_no_frame by blast
  next
    case ParentEntryHugePage
    then show ?thesis using mt assms(3) map_to_huge by blast
  next
    case PageAlreadyMapped
    then show ?thesis using mt assms(2) map_to_already by blast
  qed
  then have "x = Inr ()" by (cases x) auto
  moreover obtain j where j: "j \<le> 3" "a' = take_frames F j a" using map_to_frames [OF mt] by blast
  then have "card (free a') + j = card (free a)" using take_frames_card [OF assms(1)] assms(4) by simp
  ultimately show ?thesis using mt j take_frames_pool [OF assms(1)] by auto
qed

lemma map_pages_succeeds:
  assumes "pool_inv a" and "distinct ps" and "\<not> map_blocked X free huge r ps m a"
  shows "\<exists>m' a'. map_pages X F r fl ps m a = (Inr (), m', a')"
  using assms
proof (induction ps arbitrary: m a)
  case (Cons p ps)
  have un: "translate_page X m r p = None" "\<not> huge m r p" "\<forall>q \<in> set ps. translate_page X m r q = None \<and> \<not> huge m r q"
    and c: "4 * length ps + 4 \<le> card (free a)"
    using Cons.prems(3) by (auto simp: map_blocked_def)
  have "0 < card (free a)" using c by simp
  then obtain f a1 where al: "allocate_frame F a = (Some f, a1)" "pool_inv a1" "card (free a1) + 1 = card (free a)"
    using alloc_available [OF Cons.prems(1)] by blast
  have "3 \<le> card (free a1)" using al(3) c by simp
  then obtain m2 a2 where mt: "map_to X F r p f fl m a1 = (Inr (), m2, a2)" "pool_inv a2" "card (free a1) \<le> card (free a2) + 3"
    using map_to_succeeds [OF al(2) un(1,2)] by blast
  have "\<not> map_blocked X free huge r ps m2 a2"
    using un(3) c al(3) mt(3) map_to_ok [OF mt(1)] huge_kept [OF mt(1)] Cons.prems(2) by (auto simp: map_blocked_def)
  then obtain m' a' where "map_pages X F r fl ps m2 a2 = (Inr (), m', a')"
    using Cons.IH [OF mt(2)] Cons.prems(2) by force
  then show ?case using al(1) mt(1) by simp
qed simp

lemma map_range_succeeds:
  assumes "range_fits addr cnt" and "pool_inv a" and "\<not> map_blocked X free huge r (range_pages addr cnt) m a"
  shows "\<exists>rng m' a'. map_range X F r addr cnt user m a = Inr (Inr rng, m', a')"
proof -
  have "distinct (range_pages addr cnt)"
    using assms(1) unfolding range_pages_def range_fits_def by (intro distinct_pages_from) simp
  from map_pages_succeeds [OF assms(2) this assms(3)] obtain m' a' where
    "map_pages X F r (map_range_flags user) (range_pages addr cnt) m a = (Inr (), m', a')" by blast
  then show ?thesis unfolding map_range_def map_range_pages [OF assms(1)] by simp
qed

end

text \<open>The contract is met by the kernel's allocator over the reference page tables.\<close>

abbreviation kx86 :: "(ref_tables, BootInfoFrameAllocator) x86_64" where
  "kx86 \<equiv> x86_ref"

interpretation kpaging: paging kx86
  boot_info_alloc bi_free bi_inv
  by unfold_locales

interpretation kpaging_total: paging_total kx86
  boot_info_alloc bi_free bi_inv no_huge
  by unfold_locales

section \<open>Properties of mapping\<close>

text \<open>C19. \<^verbatim>\<open>map_range\<close> maps exactly the requested pages: when it succeeds, it returns the
  page range that starts at the page of the address and has the requested length, every page of it was
  unmapped before and is now mapped to a frame of its own that was free and no longer is, and the
  translation of every other page of that table is unchanged.\<close>

theorem map_range_maps_fresh_frames:
  assumes "paging X F free pool_inv" and "range_fits addr cnt" and "pool_inv a"
    and "map_range X F r addr cnt user m a = Inr (Inr rng, m', a')"
  shows "rng = (align_down addr, align_down addr + cnt * 4096) \<and>
    (\<exists>fs. length fs = unat cnt \<and> distinct fs \<and> set fs \<subseteq> free a - free a' \<and>
       pool_inv a' \<and> free a' \<subseteq> free a \<and>
       (\<forall>p \<in> set (range_pages addr cnt). translate_page X m r p = None) \<and>
       translate_page X m' r = (translate_page X m r)(range_pages addr cnt [\<mapsto>] fs))"
  using paging.map_range_ok [OF assms(1-3)] assms(4) by (simp add: map_range_def)

theorem map_range_maps_fresh_frames_witness:
  "\<exists>m' a'. map_range kx86 boot_info_alloc 0 0x5008 2 True (\<lambda>_ _. None)
        \<lparr>fa_size = 2, fa_used = 0, fa_frames = [0x1000, 0x2000], fa_recycled = []\<rparr> =
      Inr (Inr (0x5000, 0x7000), m', a') \<and>
     (\<forall>p \<in> set (range_pages 0x5008 2). translate_page kx86 (\<lambda>_ _. None) 0 p = None) \<and> bi_inv a'"
proof -
  have fits: "range_fits 0x5008 2"
    by (simp add: range_fits_def canonical_def align_down_def)
  have inv: "bi_inv \<lparr>fa_size = 2, fa_used = 0, fa_frames = [0x1000, 0x2000], fa_recycled = []\<rparr>"
    by (simp add: bi_inv_def)
  have run: "map_range kx86 boot_info_alloc 0 0x5008 2 True (\<lambda>_ _. None)
        \<lparr>fa_size = 2, fa_used = 0, fa_frames = [0x1000, 0x2000], fa_recycled = []\<rparr> =
      Inr (Inr (0x5000, 0x7000), (\<lambda>_ _. None)(0 := [0x5000 \<mapsto> 0x1000, 0x6000 \<mapsto> 0x2000]),
        \<lparr>fa_size = 2, fa_used = 2, fa_frames = [], fa_recycled = []\<rparr>)"
    by (simp add: map_range_def map_range_with_def x86_ref_def canonical_def align_down_def
        pages_from_def upt_rec boot_info_alloc_def bi_allocate_frame_def)
  from map_range_maps_fresh_frames [OF kpaging.paging_axioms fits inv run] run show ?thesis by blast
qed

text \<open>\<^verbatim>\<open>map_range\<close> never remaps: if some page of the range is already mapped, the call
  returns an error (and does not panic), and pages outside the range keep their translation. A failed
  call can leave a prefix of the range mapped.\<close>

theorem map_range_rejects_mapped_page:
  assumes "paging X F free pool_inv" and "range_fits addr cnt" and "pool_inv a"
    and "p \<in> set (range_pages addr cnt)" and "translate_page X m r p = Some f"
  shows "\<exists>e m' a'. map_range X F r addr cnt user m a = Inr (Inl e, m', a') \<and>
     (\<forall>q. q \<notin> set (range_pages addr cnt) \<longrightarrow> translate_page X m' r q = translate_page X m r q)"
proof -
  obtain e m' a' where run: "map_pages X F r (map_range_flags user) (range_pages addr cnt) m a = (Inl e, m', a')"
    using paging.map_pages_mapped_fails [OF assms(1,3,4,5)] by blast
  then have "map_range X F r addr cnt user m a = Inr (Inl e, m', a')"
    using paging.map_range_pages [OF assms(1,2)] by (simp add: map_range_def)
  with paging.map_pages_frame [OF assms(1) run] show ?thesis by blast
qed

theorem map_range_rejects_mapped_page_witness:
  "\<exists>e m' a'. map_range kx86 boot_info_alloc 0 0x5000 2 True ((\<lambda>_ _. None)(0 := [0x6000 \<mapsto> 0x9000]))
        \<lparr>fa_size = 2, fa_used = 0, fa_frames = [0x1000, 0x2000], fa_recycled = []\<rparr> = Inr (Inl e, m', a')"
proof -
  have fits: "range_fits 0x5000 2"
    by (simp add: range_fits_def canonical_def align_down_def)
  have inv: "bi_inv \<lparr>fa_size = 2, fa_used = 0, fa_frames = [0x1000, 0x2000], fa_recycled = []\<rparr>"
    by (simp add: bi_inv_def)
  have mem: "0x6000 \<in> set (range_pages 0x5000 2)"
    by (simp add: range_pages_def align_down_def pages_from_def upt_rec)
  have tr: "translate_page kx86 ((\<lambda>_ _. None)(0 := [0x6000 \<mapsto> 0x9000])) 0 0x6000 = Some 0x9000"
    by (simp add: x86_ref_def)
  from map_range_rejects_mapped_page [OF kpaging.paging_axioms fits inv mem tr, of True] show ?thesis by blast
qed

text \<open>C20. Unmapping undoes mapping: after a successful \<^verbatim>\<open>map_range\<close> of a nonempty range in the lower
  half of the address space, \<^verbatim>\<open>unmap_pages\<close> on the same range succeeds, every translation of the table is as before the
  mapping, and exactly one frame per page goes back to the allocator.\<close>

theorem unmap_pages_undoes_map_range:
  assumes "paging X F free pool_inv" and "range_low addr cnt" and "0 < unat cnt" and "pool_inv a"
    and "map_range X F r addr cnt user m a = Inr (Inr rng, m', a')"
  shows "\<exists>m'' a''. unmap_pages X F r addr cnt True m' a' = Inr (Inr (), m'', a'') \<and>
    translate_page X m'' r = translate_page X m r \<and> pool_inv a'' \<and> free a' \<subseteq> free a'' \<and>
    card (free a'' - free a') = unat cnt"
  using paging.map_then_unmap [OF assms(1-4)] assms(5) by (simp add: map_range_def)

theorem unmap_pages_undoes_map_range_witness:
  "\<exists>m' a' m'' a''. map_range kx86 boot_info_alloc 0 0x5000 1 True (\<lambda>_ _. None)
        \<lparr>fa_size = 1, fa_used = 0, fa_frames = [0x1000], fa_recycled = []\<rparr> =
      Inr (Inr (0x5000, 0x6000), m', a') \<and>
     unmap_pages kx86 boot_info_alloc 0 0x5000 1 True m' a' = Inr (Inr (), m'', a'') \<and>
     translate_page kx86 m'' 0 = translate_page kx86 (\<lambda>_ _. None) 0"
proof -
  have low: "range_low 0x5000 1" by (simp add: range_low_def align_down_def)
  have inv: "bi_inv \<lparr>fa_size = 1, fa_used = 0, fa_frames = [0x1000], fa_recycled = []\<rparr>"
    by (simp add: bi_inv_def)
  have run: "map_range kx86 boot_info_alloc 0 0x5000 1 True (\<lambda>_ _. None)
        \<lparr>fa_size = 1, fa_used = 0, fa_frames = [0x1000], fa_recycled = []\<rparr> =
      Inr (Inr (0x5000, 0x6000), (\<lambda>_ _. None)(0 := [0x5000 \<mapsto> 0x1000]),
        \<lparr>fa_size = 1, fa_used = 1, fa_frames = [], fa_recycled = []\<rparr>)"
    by (simp add: map_range_def map_range_with_def x86_ref_def canonical_def align_down_def
        pages_from_def upt_rec boot_info_alloc_def bi_allocate_frame_def)
  have pos: "0 < unat (1 :: u64)" by simp
  from unmap_pages_undoes_map_range [OF kpaging.paging_axioms low pos inv run] run show ?thesis by blast
qed

end
