(* ===== verification/ElfLoad.thy ===== *)
theory ElfLoad
  imports Elf
begin

text \<open>
  Correctness of the segment loader of \<^verbatim>\<open>pkg/elf/src/lib.rs\<close>: after a successful load, reading
  through the new page table gives the bytes of the file, then zeros up to the memory size. The two
  page loops of \<^verbatim>\<open>load_segment\<close> are related to one loop, \<open>fill_pages\<close>, that fills fresh frames
  with given page images; \<open>virt_byte\<close> reads a byte through the page table.
\<close>

section \<open>Writing pages\<close>

lemma write_mem_append_zeros:
  assumes "length bs = unat cnt" and "cnt < 4096"
  shows "write_mem (write_mem pm A bs) (A + cnt) (replicate (unat (4096 - cnt)) 0) =
         write_mem pm A (bs @ replicate (4096 - unat cnt) 0)"
proof
  fix x :: u64
  have c: "unat cnt < 4096" using assms(2) by (simp add: word_less_nat_alt)
  have n: "unat (4096 - cnt) = 4096 - unat cnt" using assms(2) by (simp add: unat_sub)
  have d: "x - (A + cnt) = (x - A) - cnt" by (simp add: algebra_simps)
  have u: "unat ((x - A) - cnt) = (if unat cnt \<le> unat (x - A) then unat (x - A) - unat cnt
      else unat (x - A) + 2 ^ 64 - unat cnt)"
    by (simp add: unat_sub_if')
  show "write_mem (write_mem pm A bs) (A + cnt) (replicate (unat (4096 - cnt)) 0) x =
      write_mem pm A (bs @ replicate (4096 - unat cnt) 0) x"
    unfolding write_mem_def d u n using c assms(1) by (auto simp: nth_append)
qed

lemma page_gap:
  assumes "is_page f" and "is_page g" and "f \<noteq> g" and "k < 4096"
  shows "4096 \<le> unat ((g + po + of_nat k) - (f + po))"
proof -
  have e: "(g + po + of_nat k) - (f + po) = (g - f) + of_nat k" by (simp add: algebra_simps)
  have m: "unat (g - f) mod 4096 = 0"
  proof -
    have "unat (g - f) = (if unat f \<le> unat g then unat g - unat f else unat g + 2 ^ 64 - unat f)"
      by (simp add: unat_sub_if')
    moreover have "unat f \<le> 2 ^ 64" using unat_word_less_pow [of f] by simp
    ultimately show ?thesis
      using assms(1,2) unfolding is_page_iff_mod by (auto simp: mod_eq_0_iff_dvd split: if_splits)
  qed
  have nz: "unat (g - f) \<noteq> 0" using assms(3) by (simp add: unat_eq_zero)
  have lt: "unat (g - f) < 2 ^ 64" using unat_word_less_pow [of "g - f"] by simp
  from m obtain q where q: "unat (g - f) = 4096 * q" by (auto simp: mod_eq_0_iff_dvd elim: dvdE)
  have q1: "0 < q" using nz unfolding q by simp
  have "4096 * q < 4096 * (2 ^ 52 :: nat)" using lt unfolding q by simp
  then have q2: "q + 1 \<le> 2 ^ 52" by simp
  have ge: "4096 \<le> unat (g - f)" using q1 unfolding q by simp
  have "4096 * (q + 1) \<le> 4096 * (2 ^ 52 :: nat)" using q2 by (rule mult_left_mono) simp
  then have "unat (g - f) + 4096 \<le> 2 ^ 64" unfolding q by simp
  then have "unat ((g - f) + of_nat k) = unat (g - f) + k"
    using assms(4) by (simp add: unat_word_ariths unat_of_nat)
  then show ?thesis unfolding e using ge by simp
qed

lemma write_mem_other_page:
  assumes "is_page f" and "is_page g" and "f \<noteq> g" and "k < 4096" and "length bs \<le> 4096"
  shows "write_mem pm (f + po) bs (g + po + of_nat k) = pm (g + po + of_nat k)"
  using page_gap [OF assms(1-4), of po] assms(5) by (simp add: write_mem_def)

lemma write_mem_same_page:
  assumes "k < 4096" and "length bs = 4096"
  shows "write_mem pm (f + po) bs (f + po + of_nat k) = bs ! k"
  using assms by (simp add: write_mem_def unat_of_nat)

text \<open>The content of page \<open>idx\<close> of a segment: file bytes, then zeros.\<close>

definition page_image :: "ElfFile \<Rightarrow> u64 \<Rightarrow> u64 \<Rightarrow> nat \<Rightarrow> u8 list" where
  "page_image elf off sz idx =
     map (\<lambda>k. if idx * 4096 + k < unat sz then elf_byte elf (unat off + idx * 4096 + k) else 0) [0..<4096]"

lemma chunk_count_eq:
  assumes "idx * 4096 < unat (sz :: u64)"
  shows "unat (chunk_count sz idx) = min 4096 (unat sz - idx * 4096)"
proof -
  have s: "unat sz < 2 ^ 64" using unat_word_less_pow [of sz] by simp
  have o: "unat (of_nat idx * 4096 :: u64) = idx * 4096"
    using unat_page_offset [of 0 idx] assms s by simp
  then have "unat (sz - of_nat idx * 4096) = unat sz - idx * 4096"
    using assms by (simp add: unat_sub_if')
  then show ?thesis by (simp add: chunk_count_def Let_def word_less_nat_alt)
qed

lemma chunk_padded:
  assumes "idx * 4096 < unat sz"
  shows "chunk elf off sz idx @ replicate (4096 - unat (chunk_count sz idx)) 0 = page_image elf off sz idx"
  by (rule nth_equalityI) (auto simp: chunk_def page_image_def nth_append chunk_count_eq [OF assms])

lemma write_page:
  assumes "idx * 4096 < unat sz"
  shows "(if chunk_count sz idx < 4096
     then write_mem (write_mem pm A (chunk elf off sz idx)) (A + chunk_count sz idx)
            (replicate (unat (4096 - chunk_count sz idx)) 0)
     else write_mem pm A (chunk elf off sz idx)) = write_mem pm A (page_image elf off sz idx)"
proof (cases "chunk_count sz idx < 4096")
  case True
  then show ?thesis
    using write_mem_append_zeros [of "chunk elf off sz idx" "chunk_count sz idx" pm A] chunk_padded [OF assms, of elf off]
    by (simp add: chunk_def)
next
  case False
  then have "unat (chunk_count sz idx) = 4096"
    using chunk_count_eq [OF assms] by (simp add: word_less_nat_alt)
  then show ?thesis using chunk_padded [OF assms, of elf off] False by simp
qed


text \<open>Frames filled with given page images: the common shape of the two loops of
  \<^verbatim>\<open>load_segment\<close> when they succeed.\<close>

fun fill_pages :: "('m, 'a) x86_64 \<Rightarrow> 'a frame_allocator \<Rightarrow> frame \<Rightarrow> u64 \<Rightarrow> pt_flag set \<Rightarrow> page list \<Rightarrow>
    u8 list list \<Rightarrow> 'm \<Rightarrow> 'a \<Rightarrow> bytes \<Rightarrow> ('m \<times> 'a \<times> bytes) option" where
  "fill_pages X F r po fl (p # ps) (img # imgs) m a pm =
     (case allocate_frame F a of
        (None, _) \<Rightarrow> None
      | (Some f, a1) \<Rightarrow>
          (case map_to X F r p f fl m a1 of
             (Inl _, _) \<Rightarrow> None
           | (Inr _, m2, a2) \<Rightarrow> fill_pages X F r po fl ps imgs m2 a2 (write_mem pm (f + po) img)))"
| "fill_pages X F r po fl _ _ m a pm = Some (m, a, pm)"

lemma fill_pages_Nil [simp]: "fill_pages X F r po fl [] imgs m a pm = Some (m, a, pm)"
  by (cases imgs) simp_all

lemma load_bss_fills:
  "load_bss X F r po fl ps m a pm = (Inr u, m', a', pm') \<Longrightarrow>
   fill_pages X F r po fl ps (replicate (length ps) (replicate 4096 0)) m a pm = Some (m', a', pm')"
  by (induction ps arbitrary: m a pm) (auto split: prod.splits option.splits sum.splits)

lemma load_pages_fills:
  assumes "load_pages X F r elf po off sz fl idx ps m a pm = (Inr u, m', a', pm')"
    and "\<forall>i < length ps. (idx + i) * 4096 < unat sz"
  shows "fill_pages X F r po fl ps (map (page_image elf off sz) [idx..<idx + length ps]) m a pm = Some (m', a', pm')"
  using assms
proof (induction ps arbitrary: idx m a pm)
  case (Cons p ps)
  have idx: "idx * 4096 < unat sz" using Cons.prems(2) by force
  have "\<forall>i < length ps. (Suc idx + i) * 4096 < unat sz" using Cons.prems(2) by force
  with Cons.prems(1) Cons.IH [of "Suc idx"] write_page [OF idx, of _ _ elf off] show ?case
    by (auto simp: Let_def upt_conv_Cons simp del: upt_Suc split: prod.splits option.splits sum.splits)
qed simp

context paging
begin

lemma fill_pages_ok:
  assumes "pool_inv a" and "\<forall>f \<in> free a. is_page f" and "length imgs = length ps"
    and "\<forall>img \<in> set imgs. length img = 4096"
    and "fill_pages X F r po fl ps imgs m a pm = Some (m', a', pm')"
  shows "\<exists>fs. length fs = length ps \<and> distinct fs \<and> set fs \<subseteq> free a - free a' \<and>
      pool_inv a' \<and> free a' \<subseteq> free a \<and> distinct ps \<and>
      (\<forall>p \<in> set ps. translate_page X m r p = None) \<and>
      translate_page X m' r = (translate_page X m r)(ps [\<mapsto>] fs) \<and>
      (\<forall>i < length ps. \<forall>k < 4096. pm' (fs ! i + po + of_nat k) = imgs ! i ! k) \<and>
      (\<forall>g k. is_page g \<longrightarrow> g \<notin> set fs \<longrightarrow> k < 4096 \<longrightarrow> pm' (g + po + of_nat k) = pm (g + po + of_nat k))"
  using assms
proof (induction ps arbitrary: imgs m a pm)
  case Nil
  then show ?case by (intro exI [of _ "[]"]) auto
next
  case (Cons p ps)
  then obtain img imgs' where imgs: "imgs = img # imgs'" by (cases imgs) auto
  obtain f a1 where al: "allocate_frame F a = (Some f, a1)"
    using Cons.prems(5) imgs by (cases "allocate_frame F a"; cases "fst (allocate_frame F a)") auto
  let ?pm = "write_mem pm (f + po) img"
  obtain v m2 a2 where mt: "map_to X F r p f fl m a1 = (Inr v, m2, a2)"
    and rest: "fill_pages X F r po fl ps imgs' m2 a2 ?pm = Some (m', a', pm')"
    using Cons.prems(5) al imgs by (auto split: prod.splits sum.splits)
  have a1: "f \<in> free a" "free a1 = free a - {f}" "pool_inv a1"
    using alloc_some [OF Cons.prems(1) al] by auto
  have a2: "pool_inv a2" "free a2 \<subseteq> free a1" using map_to_pool [OF a1(3) mt] by auto
  have tr: "translate_page X m r p = None" "translate_page X m2 r = (translate_page X m r)(p \<mapsto> f)"
    using map_to_ok [OF mt] by auto
  have pf: "is_page f" "\<forall>g \<in> free a2. is_page g" using Cons.prems(2) a1 a2 by auto
  have li: "length imgs' = length ps" "\<forall>i \<in> set imgs'. length i = 4096" and len: "length img = 4096"
    using Cons.prems(3,4) imgs by auto
  from Cons.IH [OF a2(1) pf(2) li rest]
  obtain fs where fs: "length fs = length ps" "distinct fs" "set fs \<subseteq> free a2 - free a'"
    "pool_inv a'" "free a' \<subseteq> free a2" "distinct ps" "\<forall>q \<in> set ps. translate_page X m2 r q = None"
    "translate_page X m' r = (translate_page X m2 r)(ps [\<mapsto>] fs)"
    and img: "\<forall>i < length ps. \<forall>k < 4096. pm' (fs ! i + po + of_nat k) = imgs' ! i ! k"
    and oth: "\<forall>g k. is_page g \<longrightarrow> g \<notin> set fs \<longrightarrow> k < 4096 \<longrightarrow> pm' (g + po + of_nat k) = ?pm (g + po + of_nat k)"
    by blast
  have "p \<notin> set ps" using fs(7) tr(2) by (metis fun_upd_same option.distinct(1))
  then have un: "\<forall>q \<in> set ps. translate_page X m r q = None"
    using fs(7) tr(2) by (metis fun_upd_other)
  have fr: "f \<notin> set fs" "f \<notin> free a'" using fs(3,5) a2(2) a1(2) by auto
  have img': "pm' ((f # fs) ! i + po + of_nat k) = imgs ! i ! k" if "i < Suc (length ps)" "k < 4096" for i k
    using that img oth pf(1) fr(1) write_mem_same_page [OF that(2) len] imgs by (cases i) auto
  have oth': "pm' (g + po + of_nat k) = pm (g + po + of_nat k)"
    if "is_page g" "g \<notin> set (f # fs)" "k < 4096" for g k
    using that oth pf(1) write_mem_other_page [of f g k img] len by auto
  have "translate_page X m' r = (translate_page X m r)(p # ps [\<mapsto>] f # fs)"
    using fs(8) tr(2) by simp
  then show ?case
    using fs(1-6) fr a1 a2 tr(1) un \<open>p \<notin> set ps\<close> img' oth'
    by (intro exI [of _ "f # fs"]) auto
qed

end

text \<open>The byte at a virtual address, through the page table and the offset mapping.\<close>

definition virt_byte :: "('m, 'a) x86_64 \<Rightarrow> frame \<Rightarrow> u64 \<Rightarrow> 'm \<Rightarrow> bytes \<Rightarrow> u64 \<Rightarrow> u8 option" where
  "virt_byte X r po m pm va =
     (case translate_page X m r (align_down va) of
        None \<Rightarrow> None
      | Some f \<Rightarrow> Some (pm (f + po + va mod 4096)))"

lemma page_split:
  assumes "is_page v" and "unat v + k < 2 ^ 64"
  shows "align_down (v + of_nat k) = v + of_nat (k div 4096) * 4096"
    and "(v + of_nat k) mod 4096 = of_nat (k mod 4096)"
proof -
  obtain q where q: "unat v = 4096 * q"
    using assms(1) by (auto simp: is_page_iff_mod mod_eq_0_iff_dvd elim: dvdE)
  have u: "unat (v + of_nat k) = unat v + k"
    using assms(2) by (simp add: unat_word_ariths unat_of_nat)
  have le: "k div 4096 * 4096 \<le> k" by simp
  have "unat v + k div 4096 * 4096 < 2 ^ 64" using le assms(2) by linarith
  then have "unat (v + of_nat (k div 4096) * 4096) = unat v + k div 4096 * 4096"
    by (rule unat_page_offset)
  moreover have "unat (align_down (v + of_nat k)) = unat v + k div 4096 * 4096"
    unfolding unat_align_down u q by simp
  ultimately show "align_down (v + of_nat k) = v + of_nat (k div 4096) * 4096"
    by (metis word_unat_eq_iff)
  have "unat ((v + of_nat k) mod 4096) = k mod 4096"
    unfolding unat_mod u q by simp
  then show "(v + of_nat k) mod 4096 = of_nat (k mod 4096)"
    by (metis of_nat_unat ucast_id)
qed

context paging
begin

text \<open>What a filled range reads back through the page table, also after further pages of the same
  table have been filled.\<close>

lemma fill_pages_bytes:
  assumes "pool_inv a" and "\<forall>f \<in> free a. is_page f" and "length imgs = n"
    and "\<forall>img \<in> set imgs. length img = 4096"
    and "fill_pages X F r po fl (pages_from v n) imgs m a pm = Some (m', a', pm')"
    and "is_page v" and "unat v + n * 4096 < 2 ^ 64"
  shows "pool_inv a' \<and> free a' \<subseteq> free a \<and>
    (\<forall>k < n * 4096. virt_byte X r po m' pm' (v + of_nat k) = Some (imgs ! (k div 4096) ! (k mod 4096))) \<and>
    (\<forall>k < n * 4096. \<exists>f. translate_page X m' r (align_down (v + of_nat k)) = Some f \<and> is_page f \<and>
       f \<in> free a - free a') \<and>
    (\<forall>w f. translate_page X m r (align_down w) = Some f \<longrightarrow> is_page f \<longrightarrow> f \<notin> free a \<longrightarrow>
       translate_page X m' r (align_down w) = Some f \<and> virt_byte X r po m' pm' w = virt_byte X r po m pm w)"
proof -
  have "length imgs = length (pages_from v n)" using assms(3) by simp
  from fill_pages_ok [OF assms(1,2) this assms(4,5)] obtain fs where
    fs: "length fs = n" "distinct fs" "set fs \<subseteq> free a - free a'" "pool_inv a'" "free a' \<subseteq> free a"
      "distinct (pages_from v n)" "\<forall>p \<in> set (pages_from v n). translate_page X m r p = None"
    and tr: "translate_page X m' r = (translate_page X m r)(pages_from v n [\<mapsto>] fs)"
    and img: "\<forall>i < n. \<forall>k < 4096. pm' (fs ! i + po + of_nat k) = imgs ! i ! k"
    and oth: "\<forall>g k. is_page g \<longrightarrow> g \<notin> set fs \<longrightarrow> k < 4096 \<longrightarrow> pm' (g + po + of_nat k) = pm (g + po + of_nat k)"
    unfolding length_pages_from by blast
  have new: "translate_page X m' r (align_down (v + of_nat k)) = Some (fs ! (k div 4096)) \<and>
      virt_byte X r po m' pm' (v + of_nat k) = Some (imgs ! (k div 4096) ! (k mod 4096)) \<and>
      fs ! (k div 4096) \<in> free a - free a'"
    if "k < n * 4096" for k
  proof -
    have i: "k div 4096 < n" using that by (simp add: div_less_iff_less_mult)
    then have mem: "fs ! (k div 4096) \<in> free a - free a'" using fs(1,3) nth_mem by blast
    have "pages_from v n ! (k div 4096) = v + of_nat (k div 4096) * 4096"
      using i by (simp add: pages_from_def)
    moreover have "unat v + k < 2 ^ 64" using that assms(7) by linarith
    ultimately show ?thesis
      using page_split [OF assms(6), of k] mem map_upds_nth [OF fs(6), of fs "k div 4096"] i fs(1) tr img
      by (simp add: virt_byte_def)
  qed
  have old: "translate_page X m' r (align_down w) = Some f \<and> virt_byte X r po m' pm' w = virt_byte X r po m pm w"
    if "translate_page X m r (align_down w) = Some f" "is_page f" "f \<notin> free a" for w f
  proof -
    have "align_down w \<notin> set (pages_from v n)" using fs(7) that(1) by force
    then have "translate_page X m' r (align_down w) = Some f"
      using tr that(1) by (simp add: map_upds_apply_nontin)
    moreover have "unat (w mod 4096) < 4096" by (simp add: unat_mod)
    then have "pm' (f + po + of_nat (unat (w mod 4096))) = pm (f + po + of_nat (unat (w mod 4096)))"
      using oth that(2,3) fs(3) by blast
    ultimately show ?thesis using that(1) by (simp add: virt_byte_def)
  qed
  show ?thesis using fs(4,5) new old assms(2) by blast
qed


end

lemma and_not_fff: "off AND NOT 0xFFF = align_down off"
proof -
  have "off AND NOT (mask 12) = push_bit 12 (drop_bit 12 off)"
    by (rule bit_eqI) (auto simp: bit_simps)
  also have "\<dots> = align_down off"
    by (simp add: align_down_def drop_bit_eq_div push_bit_eq_mult)
  finally show ?thesis by (simp add: mask_eq_exp_minus_1)
qed

text \<open>Segments as the linker scripts of the repository lay them out: page aligned in memory and in the
  file, no larger in the file than in memory, in one half of the address space. The file part may be
  empty. The last page of the address space is left out.\<close>

definition canonical_span :: "u64 \<Rightarrow> nat \<Rightarrow> bool" where
  "canonical_span v n \<longleftrightarrow> unat v + n < 2 ^ 47 \<or> 2 ^ 64 - 2 ^ 47 \<le> unat v \<and> unat v + n < 2 ^ 64"

lemma canonical_span_bound: "canonical_span v n \<Longrightarrow> unat v + n < 2 ^ 64"
  by (auto simp: canonical_span_def)

lemma canonical_span_le: "canonical_span v n \<Longrightarrow> k \<le> n \<Longrightarrow> canonical_span v k"
  by (auto simp: canonical_span_def)

lemma canonical_span_address:
  assumes "canonical_span v n" and "k \<le> n"
  shows "unat (v + of_nat k) = unat v + k" and "canonical (v + of_nat k)"
proof -
  have "unat v + k < 2 ^ 64" using canonical_span_bound [OF assms(1)] assms(2) by linarith
  then show u: "unat (v + of_nat k) = unat v + k" by (simp add: unat_word_ariths unat_of_nat)
  show "canonical (v + of_nat k)" unfolding canonical_def u
    using assms unfolding canonical_span_def by linarith
qed

definition segment_ok :: "ProgramHeader \<Rightarrow> bool" where
  "segment_ok seg \<longleftrightarrow> is_page (ph_virtual_addr seg) \<and> is_page (ph_offset seg) \<and>
     unat (ph_file_size seg) \<le> unat (ph_mem_size seg) \<and>
     canonical_span (ph_virtual_addr seg) (unat (ph_mem_size seg) + 4096)"

definition segment_byte :: "ElfFile \<Rightarrow> ProgramHeader \<Rightarrow> nat \<Rightarrow> u8" where
  "segment_byte elf seg k =
     (if k < unat (ph_file_size seg) then elf_byte elf (unat (ph_offset seg) + k) else 0)"

text \<open>Number of pages that hold the file part.\<close>

definition file_pages :: "ProgramHeader \<Rightarrow> nat" where
  "file_pages seg = (unat (ph_file_size seg) + 4095) div 4096"

lemma page_image_nth: "k < 4096 \<Longrightarrow> page_image elf off sz i ! k =
    (if i * 4096 + k < unat sz then elf_byte elf (unat off + (i * 4096 + k)) else 0)"
  by (simp add: page_image_def add.assoc)

lemma pages_ceiling:
  "n mod 4096 = 0 \<Longrightarrow> (n + 4095) div 4096 * 4096 = (n :: nat)"
  "n mod 4096 \<noteq> 0 \<Longrightarrow> (n + 4095) div 4096 = Suc (n div 4096)"
  "0 < n \<Longrightarrow> (n + 4095) div 4096 = Suc ((n - 1) div 4096)"
proof -
  have s: "(Suc k + 4095) div 4096 = Suc (k div 4096)" for k :: nat by simp
  then show "0 < n \<Longrightarrow> (n + 4095) div 4096 = Suc ((n - 1) div 4096)" by (metis Suc_pred')
  show "n mod 4096 = 0 \<Longrightarrow> (n + 4095) div 4096 * 4096 = n" by auto
  show "n mod 4096 \<noteq> 0 \<Longrightarrow> (n + 4095) div 4096 = Suc (n div 4096)"
    using s [of "n - 1"] div_Suc [of "n - 1" 4096] by (cases n) simp_all
qed

lemma file_pages_bound:
  "unat (ph_file_size seg) \<le> file_pages seg * 4096" "file_pages seg * 4096 < unat (ph_file_size seg) + 4096"
  unfolding file_pages_def by linarith+

lemma file_pages_index: "i < file_pages seg \<Longrightarrow> i * 4096 < unat (ph_file_size seg)"
  unfolding file_pages_def by linarith

text \<open>Pages past the file part have the zero image.\<close>

lemma page_images_beyond:
  assumes "unat sz \<le> n * 4096"
  shows "map (page_image elf off sz) [0..<n + j] = map (page_image elf off sz) [0..<n] @ replicate j (replicate 4096 0)"
proof -
  have "page_image elf off sz i = replicate 4096 0" if "n \<le> i" for i
  proof (rule nth_equalityI)
    fix k assume "k < length (page_image elf off sz i)"
    then have k: "k < 4096" by (simp add: page_image_def)
    have "n * 4096 \<le> i * 4096" using that by (rule mult_le_mono1)
    then have "\<not> i * 4096 + k < unat sz" using assms by linarith
    then show "page_image elf off sz i ! k = replicate 4096 0 ! k" using k by (simp add: page_image_nth)
  qed (simp add: page_image_def)
  then have "map (page_image elf off sz) [n..<n + j] = replicate j (replicate 4096 0)"
    by (intro nth_equalityI) simp_all
  then show ?thesis by (metis map_append upt_add_eq_append zero_le)
qed

lemma fill_pages_append:
  "length imgs1 = length ps1 \<Longrightarrow> fill_pages X F r po fl (ps1 @ ps2) (imgs1 @ imgs2) m a pm =
     (case fill_pages X F r po fl ps1 imgs1 m a pm of
        None \<Rightarrow> None
      | Some (m1, a1, pm1) \<Rightarrow> fill_pages X F r po fl ps2 imgs2 m1 a1 pm1)"
  by (induction imgs1 ps1 arbitrary: m a pm rule: list_induct2) (auto split: prod.splits option.splits sum.splits)

lemma segment_page_count:
  assumes "fsz \<le> n * 4096" and "n * 4096 < fsz + 4096" and "fsz \<le> (msz :: nat)"
  defines "j \<equiv> if fsz < msz then Suc (msz div 4096) - n else 0"
  shows "msz \<le> (n + j) * 4096 \<and> (n + j) * 4096 \<le> msz + 4096"
proof (cases "fsz < msz \<and> n \<le> Suc (msz div 4096)")
  case True
  then have "n + j = Suc (msz div 4096)" by (simp add: j_def)
  then show ?thesis using div_times_less_eq_dividend [of msz 4096] dividend_less_times_div [of 4096 msz] by simp
next
  case False
  then have j: "j = 0" by (auto simp: j_def)
  have "msz \<le> n * 4096"
  proof (cases "fsz < msz")
    case True
    then have "msz div 4096 < n" using False by linarith
    then show ?thesis by (simp add: div_less_iff_less_mult)
  qed (use assms in linarith)
  then show ?thesis using j assms(2,3) by simp
qed

context paging
begin

lemma segment_align_up:
  assumes "segment_ok seg"
  defines "v \<equiv> ph_virtual_addr seg" and "fsz \<equiv> ph_file_size seg"
  shows "page_align_up X (v + fsz) = Some (v + of_nat (file_pages seg) * 4096)"
proof -
  have pg: "is_page v" and fm: "unat fsz \<le> unat (ph_mem_size seg)"
    and span: "canonical_span v (unat (ph_mem_size seg) + 4096)"
    using assms by (simp_all add: segment_ok_def)
  have lim64: "unat v + unat fsz + 4096 < 2 ^ 64" using canonical_span_bound [OF span] fm by linarith
  have fw: "v + fsz = v + of_nat (unat fsz)" by simp
  have fu: "unat (v + fsz) = unat v + unat fsz"
    using canonical_span_address(1) [OF span, of "unat fsz"] fm by (simp only: fw)
  have pm: "(unat v + n) mod 4096 = n mod 4096" for n
    using pg unfolding is_page_iff_mod by (metis add_0 mod_add_left_eq)
  show ?thesis
  proof (cases "unat fsz mod 4096 = 0")
    case True
    have n: "file_pages seg * 4096 = unat fsz"
      unfolding file_pages_def fsz_def [symmetric] by (rule pages_ceiling(1) [OF True])
    have "is_page (v + fsz)" using True unfolding is_page_iff_mod fu pm .
    moreover have "v + of_nat (file_pages seg) * 4096 = v + fsz"
      using n fw by (metis of_nat_mult of_nat_numeral)
    ultimately show ?thesis by (simp add: page_align_up_page)
  next
    case False
    have n: "file_pages seg = Suc (unat fsz div 4096)"
      unfolding file_pages_def fsz_def [symmetric] pages_ceiling(2) [OF False] ..
    have "\<not> is_page (v + fsz)" using False unfolding is_page_iff_mod fu pm .
    moreover have "unat (v + fsz) + 4096 < 2 ^ 64" using fu lim64 by simp
    moreover have "unat v + unat fsz < 2 ^ 64" using lim64 by linarith
    then have "align_down (v + fsz) = v + of_nat (unat fsz div 4096) * 4096"
      using page_split(1) [OF pg, of "unat fsz"] by (simp only: fw [symmetric])
    then have "align_down (v + fsz) + 4096 = v + of_nat (file_pages seg) * 4096"
      unfolding n of_nat_Suc by (simp only: distrib_left mult_1_left mult_1_right ac_simps)
    ultimately show ?thesis by (simp add: page_align_up_next)
  qed
qed

lemma segment_addresses:
  assumes "segment_ok seg"
  defines "v \<equiv> ph_virtual_addr seg" and "fsz \<equiv> ph_file_size seg" and "msz \<equiv> ph_mem_size seg"
  shows "va_new X v = Some v" and "va_add X v fsz = Some (v + fsz)" and "va_add X v msz = Some (v + msz)"
    and "align_down (v + msz) = v + of_nat (unat msz div 4096) * 4096"
    and "va_new X (v + of_nat (file_pages seg) * 4096) = Some (v + of_nat (file_pages seg) * 4096)"
proof -
  have pg: "is_page v" and fm: "unat fsz \<le> unat msz" and span: "canonical_span v (unat msz + 4096)"
    using assms by (simp_all add: segment_ok_def)
  note ad = canonical_span_address [OF span]
  have lim64: "unat v + unat msz + 4096 < 2 ^ 64" using canonical_span_bound [OF span] by linarith
  show "va_new X v = Some v" using ad(2) [of 0] by (intro va_new_ok) simp
  show "va_add X v fsz = Some (v + fsz)" using ad(2) [of "unat fsz"] lim64 fm by (intro va_add_ok) simp_all
  show "va_add X v msz = Some (v + msz)" using ad(2) [of "unat msz"] lim64 by (intro va_add_ok) simp_all
  have "unat v + unat msz < 2 ^ 64" using lim64 by linarith
  then show "align_down (v + msz) = v + of_nat (unat msz div 4096) * 4096"
    using page_split(1) [OF pg, of "unat msz"] by simp
  have "file_pages seg * 4096 \<le> unat msz + 4096"
    using file_pages_bound(2) [of seg] fm by (simp add: fsz_def)
  from ad(2) [OF this] show "va_new X (v + of_nat (file_pages seg) * 4096) = Some (v + of_nat (file_pages seg) * 4096)"
    by (intro va_new_ok) simp
qed

text \<open>The pages of the file part; none when it is empty.\<close>

lemma segment_file_range:
  assumes "segment_ok seg" and "va_sub X (ph_virtual_addr seg + ph_file_size seg) 1 = Some l"
  shows "page_range_inclusive X (ph_virtual_addr seg) (align_down l) = pages_from (ph_virtual_addr seg) (file_pages seg)"
proof -
  let ?v = "ph_virtual_addr seg" and ?f = "ph_file_size seg"
  have pg: "is_page ?v" and fm: "unat ?f \<le> unat (ph_mem_size seg)"
    and span: "canonical_span ?v (unat (ph_mem_size seg) + 4096)"
    using assms(1) by (simp_all add: segment_ok_def)
  have "\<not> (?v + ?f < 1 \<or> \<not> canonical (?v + ?f - 1))" using assms(2) va_sub_panics by fastforce
  then have ge: "1 \<le> ?v + ?f" and "canonical (?v + ?f - 1)" by (metis not_less)+
  then have l: "l = ?v + ?f - 1" using assms(2) va_sub_ok [of 1 "?v + ?f"] by simp
  show ?thesis
  proof (cases "unat ?f")
    case 0
    then have f: "?f = 0" by (simp add: unat_eq_zero)
    have "1 \<le> unat ?v" using ge f by (simp add: word_le_nat_alt)
    moreover have "unat (?v - 1) = unat ?v - 1" using ge f unat_sub [of 1 ?v] by simp
    moreover have "unat (?v - 1) div 4096 * 4096 \<le> unat (?v - 1)" by simp
    ultimately have "align_down l < ?v" unfolding l f word_less_nat_alt unat_align_down add_0_right by linarith
    then show ?thesis using page_range_inclusive_empty [OF pg] 0 by (simp add: file_pages_def)
  next
    case (Suc k)
    then have n: "file_pages seg = Suc (k div 4096)" using pages_ceiling(3) [of "unat ?f"] by (simp add: file_pages_def)
    have "?f = of_nat (Suc k)" using Suc by (metis of_nat_unat ucast_id)
    then have lk: "l = ?v + of_nat k" using l by simp
    have "unat ?v + k < 2 ^ 64" using canonical_span_bound [OF span] fm Suc by linarith
    then have "align_down l = ?v + of_nat (k div 4096) * 4096" "unat ?v + k div 4096 * 4096 < 2 ^ 64"
      unfolding lk using page_split(1) [OF pg] div_times_less_eq_dividend [of k 4096] by (blast, linarith)
    then show ?thesis using page_range_inclusive_eq [OF pg] n by simp
  qed
qed

lemma page_range_pages:
  assumes "is_page v" and "unat v + e * 4096 < 2 ^ 64" and "unat v + n * 4096 < 2 ^ 64"
  shows "page_range_inclusive X (v + of_nat n * 4096) (v + of_nat e * 4096) = pages_from (v + of_nat n * 4096) (Suc e - n)"
proof (cases "n \<le> e")
  case True
  then obtain d where d: "e = n + d" using le_Suc_ex by blast
  have u: "unat (v + of_nat n * 4096) = unat v + n * 4096" by (rule unat_page_offset [OF assms(3)])
  have "v + of_nat e * 4096 = (v + of_nat n * 4096) + of_nat d * 4096" by (simp add: d algebra_simps)
  moreover have "unat (v + of_nat n * 4096) + d * 4096 < 2 ^ 64" using assms(2) unfolding u d by simp
  ultimately show ?thesis
    using page_range_inclusive_eq [OF is_page_of_nat [OF assms(1)], of n d]
    unfolding d by (simp only: diff_Suc_1 add_Suc_right [symmetric] add_diff_cancel_left')
next
  case False
  then have "v + of_nat e * 4096 < v + of_nat n * 4096"
    using unat_page_offset [OF assms(2)] unat_page_offset [OF assms(3)] by (simp add: word_less_nat_alt)
  then show ?thesis
    using page_range_inclusive_empty [OF is_page_of_nat [OF assms(1)] is_page_of_nat [OF assms(1)]] False by simp
qed

text \<open>The two page loops of a successful \<^verbatim>\<open>load_segment\<close> fill one run of pages.\<close>

lemma load_segment_fills:
  assumes "segment_ok seg"
    and run: "load_segment X F r elf po seg user m a pm = Inr (Inr rng, m', a', pm')"
  shows "page_range_inclusive X (fst rng) (snd rng) = pages_from (ph_virtual_addr seg) (file_pages seg) \<and>
    (\<exists>N. unat (ph_mem_size seg) \<le> N * 4096 \<and> N * 4096 \<le> unat (ph_mem_size seg) + 4096 \<and>
     fill_pages X F r po (segment_flags seg user) (pages_from (ph_virtual_addr seg) N)
       (map (page_image elf (ph_offset seg) (ph_file_size seg)) [0..<N]) m a pm = Some (m', a', pm'))"
proof -
  let ?v = "ph_virtual_addr seg" and ?fsz = "ph_file_size seg" and ?msz = "ph_mem_size seg"
  let ?n = "file_pages seg" and ?off = "ph_offset seg" and ?fl = "segment_flags seg user"
  let ?e = "unat ?msz div 4096"
  note ad = segment_addresses [OF assms(1)] segment_align_up [OF assms(1)]
  note ok = assms(1) [unfolded segment_ok_def]
  have pg: "is_page ?v" and po: "is_page ?off" using ok by blast+
  note fp = file_pages_bound [of seg]
  have lim: "unat ?v + unat ?msz + 4096 < 2 ^ 64" "unat ?fsz \<le> unat ?msz"
    using ok canonical_span_bound [of ?v "unat ?msz + 4096"] by simp_all
  then have nlim: "unat ?v + ?n * 4096 < 2 ^ 64" using fp(2) by linarith
  obtain l where l: "va_sub X (?v + ?fsz) 1 = Some l"
    using run ad by (auto simp: load_segment_def Let_def expect_def rbind_def split: option.splits)
  note rng1 = segment_file_range [OF assms(1) l]
  have rng2: "page_range_inclusive X (?v + of_nat ?n * 4096) (?v + of_nat ?e * 4096) =
      pages_from (?v + of_nat ?n * 4096) (Suc ?e - ?n)"
    using lim(1) div_times_less_eq_dividend [of "unat ?msz" 4096] by (intro page_range_pages pg nlim) linarith
  obtain u m1 a1 pm1 where lp: "load_pages X F r elf po ?off ?fsz ?fl 0 (pages_from ?v ?n) m a pm = (Inr u, m1, a1, pm1)"
    and cont: "if ?msz > ?fsz then
        (\<exists>u'. load_bss X F r po ?fl (pages_from (?v + of_nat ?n * 4096) (Suc ?e - ?n)) m1 a1 pm1 = (Inr u', m', a', pm'))
        else (m', a', pm') = (m1, a1, pm1)"
    and rng: "rng = (?v, align_down l)"
    using run ad rng1 rng2 pg l po and_not_fff [of ?off]
    by (auto simp: load_segment_def Let_def page_containing_eq is_page_of_nat split: prod.splits sum.splits if_splits)
  let ?j = "if ?msz > ?fsz then Suc ?e - ?n else 0"
  have "fill_pages X F r po ?fl (pages_from ?v ?n) (map (page_image elf ?off ?fsz) [0..<?n]) m a pm = Some (m1, a1, pm1)"
    using load_pages_fills [OF lp] file_pages_index [of _ seg] by simp
  moreover have "fill_pages X F r po ?fl (pages_from (?v + of_nat ?n * 4096) ?j) (replicate ?j (replicate 4096 0)) m1 a1 pm1 =
      Some (m', a', pm')"
    using cont load_bss_fills [of X F r po ?fl "pages_from (?v + of_nat ?n * 4096) (Suc ?e - ?n)" m1 a1 pm1]
    unfolding length_pages_from by (auto split: if_splits)
  ultimately have "fill_pages X F r po ?fl (pages_from ?v (?n + ?j)) (map (page_image elf ?off ?fsz) [0..<?n + ?j]) m a pm =
      Some (m', a', pm')"
    unfolding page_images_beyond [OF fp(1)] pages_from_append by (subst fill_pages_append) simp_all
  moreover have "unat ?msz \<le> (?n + ?j) * 4096 \<and> (?n + ?j) * 4096 \<le> unat ?msz + 4096"
    using segment_page_count [OF fp(1,2) lim(2)] by (simp add: word_less_nat_alt)
  ultimately show ?thesis using rng rng1 by (simp only: fst_conv snd_conv) blast
qed

text \<open>What a successfully loaded segment reads back as; pages mapped before keep their bytes.\<close>

lemma load_segment_bytes:
  assumes "segment_ok seg" and "pool_inv a" and "\<forall>f \<in> free a. is_page f"
    and "load_segment X F r elf po seg user m a pm = Inr (Inr rng, m', a', pm')"
  shows "page_range_inclusive X (fst rng) (snd rng) = pages_from (ph_virtual_addr seg) (file_pages seg) \<and>
    pool_inv a' \<and> free a' \<subseteq> free a \<and>
    (\<forall>k < unat (ph_mem_size seg).
       virt_byte X r po m' pm' (ph_virtual_addr seg + of_nat k) = Some (segment_byte elf seg k) \<and>
       (\<exists>f. translate_page X m' r (align_down (ph_virtual_addr seg + of_nat k)) = Some f \<and> is_page f \<and> f \<in> free a - free a')) \<and>
    (\<forall>w f. translate_page X m r (align_down w) = Some f \<longrightarrow> is_page f \<longrightarrow> f \<notin> free a \<longrightarrow>
       translate_page X m' r (align_down w) = Some f \<and> virt_byte X r po m' pm' w = virt_byte X r po m pm w)"
proof -
  let ?imgs = "\<lambda>N. map (page_image elf (ph_offset seg) (ph_file_size seg)) [0..<N]"
  obtain N where N: "unat (ph_mem_size seg) \<le> N * 4096" "N * 4096 \<le> unat (ph_mem_size seg) + 4096"
    and fill: "fill_pages X F r po (segment_flags seg user) (pages_from (ph_virtual_addr seg) N) (?imgs N) m a pm =
      Some (m', a', pm')"
    and rng: "page_range_inclusive X (fst rng) (snd rng) = pages_from (ph_virtual_addr seg) (file_pages seg)"
    using load_segment_fills [OF assms(1,4)] by blast
  have pg: "is_page (ph_virtual_addr seg)" and lim: "unat (ph_virtual_addr seg) + unat (ph_mem_size seg) + 4096 < 2 ^ 64"
    using assms(1) canonical_span_bound by (fastforce simp: segment_ok_def)+
  have len: "length (?imgs N) = N" "\<forall>img \<in> set (?imgs N). length img = 4096"
    by (auto simp: page_image_def)
  have "unat (ph_virtual_addr seg) + N * 4096 < 2 ^ 64" using N(2) lim by linarith
  note b = fill_pages_bytes [OF assms(2,3) len fill pg this]
  have "?imgs N ! (k div 4096) ! (k mod 4096) = segment_byte elf seg k" if "k < unat (ph_mem_size seg)" for k
    using that N(1) by (simp add: page_image_nth segment_byte_def div_less_iff_less_mult)
  moreover have "k < N * 4096" if "k < unat (ph_mem_size seg)" for k using that N(1) by linarith
  ultimately have "virt_byte X r po m' pm' (ph_virtual_addr seg + of_nat k) = Some (segment_byte elf seg k)"
    "\<exists>f. translate_page X m' r (align_down (ph_virtual_addr seg + of_nat k)) = Some f \<and> is_page f \<and> f \<in> free a - free a'"
    if "k < unat (ph_mem_size seg)" for k
    using b that by (metis, blast)
  then show ?thesis using b rng by blast
qed

text \<open>A whole file: the segments do not disturb one another, since each page gets a frame of its own
  and a page that is already mapped makes the load fail.\<close>

lemma load_segments_bytes:
  assumes "pool_inv a" and "\<forall>f \<in> free a. is_page f"
    and "\<forall>seg \<in> set segs. ph_is_load seg = Some True \<longrightarrow> segment_ok seg"
    and "load_segments X F r elf po segs user m a pm = Inr (Inr rngs, m', a', pm')"
  shows "length rngs = length (filter (\<lambda>seg. ph_is_load seg = Some True) segs) \<and> pool_inv a' \<and> free a' \<subseteq> free a \<and>
    (\<forall>seg \<in> set segs. ph_is_load seg = Some True \<longrightarrow> (\<forall>k < unat (ph_mem_size seg).
       virt_byte X r po m' pm' (ph_virtual_addr seg + of_nat k) = Some (segment_byte elf seg k))) \<and>
    (\<forall>w f. translate_page X m r (align_down w) = Some f \<longrightarrow> is_page f \<longrightarrow> f \<notin> free a \<longrightarrow>
       translate_page X m' r (align_down w) = Some f \<and> virt_byte X r po m' pm' w = virt_byte X r po m pm w)"
  using assms
proof (induction segs arbitrary: m a pm rngs)
  case (Cons seg segs)
  show ?case
  proof (cases "ph_is_load seg = Some True")
    case False
    then have skip: "load_segments X F r elf po segs user m a pm = Inr (Inr rngs, m', a', pm')"
      using Cons.prems(4) by auto
    show ?thesis using Cons.IH [OF Cons.prems(1,2) _ skip] Cons.prems(3) False by simp
  next
    case True
    then have ok: "segment_ok seg" using Cons.prems(3) by simp
    obtain rng m1 a1 pm1 rngs' where
      one: "load_segment X F r elf po seg user m a pm = Inr (Inr rng, m1, a1, pm1)"
      and rest: "load_segments X F r elf po segs user m1 a1 pm1 = Inr (Inr rngs', m', a', pm')"
      and rngs: "rngs = rng # rngs'"
      using Cons.prems(4) True by (auto split: sum.splits prod.splits)
    note b = load_segment_bytes [OF ok Cons.prems(1,2) one]
    then have a1: "pool_inv a1" "free a1 \<subseteq> free a" by blast+
    then have "\<forall>f \<in> free a1. is_page f" using Cons.prems(2) by blast
    from Cons.IH [OF a1(1) this _ rest] Cons.prems(3) have IH:
      "length rngs' = length (filter (\<lambda>seg. ph_is_load seg = Some True) segs)" "pool_inv a'" "free a' \<subseteq> free a1"
      "\<forall>seg \<in> set segs. ph_is_load seg = Some True \<longrightarrow> (\<forall>k < unat (ph_mem_size seg).
         virt_byte X r po m' pm' (ph_virtual_addr seg + of_nat k) = Some (segment_byte elf seg k))"
      and old: "\<And>w f. translate_page X m1 r (align_down w) = Some f \<Longrightarrow> is_page f \<Longrightarrow> f \<notin> free a1 \<Longrightarrow>
         translate_page X m' r (align_down w) = Some f \<and> virt_byte X r po m' pm' w = virt_byte X r po m1 pm1 w"
      by auto
    have "virt_byte X r po m' pm' (ph_virtual_addr seg + of_nat k) = Some (segment_byte elf seg k)"
      if "k < unat (ph_mem_size seg)" for k
      using b that old by (metis DiffD2)
    moreover have "translate_page X m' r (align_down w) = Some f \<and> virt_byte X r po m' pm' w = virt_byte X r po m pm w"
      if "translate_page X m r (align_down w) = Some f" "is_page f" "f \<notin> free a" for w f
    proof -
      have "translate_page X m1 r (align_down w) = Some f" "virt_byte X r po m1 pm1 w = virt_byte X r po m pm w" "f \<notin> free a1"
        using b that a1(2) by blast+
      then show ?thesis using old that(2) by metis
    qed
    ultimately show ?thesis using IH a1(2) True rngs by auto
  qed
qed simp

text \<open>A file part that does not start at a page boundary and lies in one page.\<close>

lemma fill_pages_keeps_bytes:
  assumes "pool_inv a" and "\<forall>f \<in> free a. is_page f" and "length imgs = length ps"
    and "\<forall>img \<in> set imgs. length img = 4096"
    and "fill_pages X F r po fl ps imgs m a pm = Some (m', a', pm')"
    and "translate_page X m r (align_down w) = Some f" and "is_page f" and "f \<notin> free a"
  shows "virt_byte X r po m' pm' w = virt_byte X r po m pm w"
proof -
  obtain fs where fs: "set fs \<subseteq> free a - free a'" "\<forall>p \<in> set ps. translate_page X m r p = None"
    and tr: "translate_page X m' r = (translate_page X m r)(ps [\<mapsto>] fs)"
    and oth: "\<forall>g k. is_page g \<longrightarrow> g \<notin> set fs \<longrightarrow> k < 4096 \<longrightarrow> pm' (g + po + of_nat k) = pm (g + po + of_nat k)"
    using fill_pages_ok [OF assms(1-5)] by blast
  have "align_down w \<notin> set ps" using fs(2) assms(6) by force
  then have "translate_page X m' r (align_down w) = Some f" using tr assms(6) by (simp add: map_upds_apply_nontin)
  moreover have "unat (w mod 4096) < 4096" by (simp add: unat_mod)
  then have "pm' (f + po + of_nat (unat (w mod 4096))) = pm (f + po + of_nat (unat (w mod 4096)))"
    using oth assms(7,8) fs(1) by blast
  ultimately show ?thesis using assms(6) by (simp add: virt_byte_def)
qed

lemma one_page_span:
  assumes "unat (v mod 4096) + unat n \<le> 4096" and "0 < unat n" and "canonical_span v (unat n)"
  shows "align_down (v + n - 1) = align_down v" and "va_sub X (v + n) 1 = Some (v + n - 1)"
    and "k < unat n \<Longrightarrow> v + of_nat k = align_down v + of_nat (unat (v mod 4096) + k)"
proof -
  define d where "d = unat (v mod 4096)"
  have ud: "unat v = unat (align_down v) + d" by (simp add: d_def unat_align_down unat_mod)
  have v: "v = align_down v + of_nat d" using div_mult_mod_eq [of v 4096] by (simp add: d_def align_down_def)
  then show at: "v + of_nat k = align_down v + of_nat (unat (v mod 4096) + k)" for k
    unfolding d_def [symmetric] of_nat_add by (metis add.assoc)
  obtain k where k: "unat n = Suc k" using assms(2) by (cases "unat n") auto
  have "n = of_nat (Suc k)" using k by (metis of_nat_unat ucast_id)
  then have l: "v + n - 1 = v + of_nat k" by simp
  have u: "unat (v + of_nat k) = unat v + k" "canonical (v + of_nat k)"
    using canonical_span_address [OF assms(3), of k] k by simp_all
  have u3: "unat (v + n) = unat v + unat n" using canonical_span_address(1) [OF assms(3), of "unat n"] by simp
  have "unat (align_down v) + (d + k) < 2 ^ 64" using ud k canonical_span_bound [OF assms(3)] by linarith
  moreover have "(d + k) div 4096 = 0" using assms(1) k by (simp add: d_def)
  ultimately show "align_down (v + n - 1) = align_down v"
    unfolding l at d_def [symmetric] using page_split(1) [of "align_down v" "d + k"] by simp
  have "1 \<le> v + n" using u3 assms(2) by (simp add: word_le_nat_alt)
  then show "va_sub X (v + n) 1 = Some (v + n - 1)" using u(2) unfolding l [symmetric] by (rule va_sub_ok)
qed

lemma load_segment_one_page:
  assumes "pool_inv a" and "\<forall>f \<in> free a. is_page f" and "0 < unat (ph_file_size seg)"
    and "unat (ph_virtual_addr seg mod 4096) + unat (ph_file_size seg) \<le> 4096"
    and "canonical_span (ph_virtual_addr seg) 4096"
    and run: "load_segment X F r elf po seg user m a pm = Inr (Inr rng, m', a', pm')"
    and "j < 4096"
  shows "virt_byte X r po m' pm' (align_down (ph_virtual_addr seg) + of_nat j) =
    Some (if j < unat (ph_file_size seg) then elf_byte elf (unat (align_down (ph_offset seg)) + j) else 0)"
proof -
  let ?v = "ph_virtual_addr seg" and ?fsz = "ph_file_size seg" and ?fl = "segment_flags seg user"
  let ?p = "align_down ?v" and ?off = "align_down (ph_offset seg)"
  have sp: "canonical_span ?v (unat ?fsz)" using canonical_span_le [OF assms(5)] assms(4) by simp
  note one = one_page_span [OF assms(4,3) sp]
  have ad: "va_new X ?v = Some ?v" "va_add X ?v ?fsz = Some (?v + ?fsz)"
    using canonical_span_address(2) [OF sp, of 0] canonical_span_address(2) [OF sp, of "unat ?fsz"] canonical_span_bound [OF sp]
    by (simp_all add: va_new_ok va_add_ok)
  have "unat ?p \<le> unat ?v" by (simp add: unat_align_down)
  then have lim: "unat ?p + 1 * 4096 < 2 ^ 64" using canonical_span_bound [OF assms(5)] by linarith
  have rng: "page_range_inclusive X ?p ?p = pages_from ?p 1"
    using page_range_inclusive_eq [of ?p 0] lim by simp
  obtain u m1 a1 pm1 where lp: "load_pages X F r elf po ?off ?fsz ?fl 0 (pages_from ?p 1) m a pm = (Inr u, m1, a1, pm1)"
    and cont: "(m', a', pm') = (m1, a1, pm1) \<or> (\<exists>u' ps. load_bss X F r po ?fl ps m1 a1 pm1 = (Inr u', m', a', pm'))"
    using run ad one(1,2) rng and_not_fff [of "ph_offset seg"]
    by (auto simp: load_segment_def Let_def page_containing_eq expect_def rbind_def
        simp del: load_pages.simps pages_from_simps split: prod.splits sum.splits if_splits option.splits)
  let ?img = "page_image elf ?off ?fsz 0"
  have "fill_pages X F r po ?fl (pages_from ?p 1) [?img] m a pm = Some (m1, a1, pm1)"
    using load_pages_fills [OF lp] assms(3) by simp
  note b = fill_pages_bytes [OF assms(1,2) _ _ this is_page_align_down lim]
  have len: "length ?img = 4096" by (simp add: page_image_def)
  then have b': "pool_inv a1" "free a1 \<subseteq> free a" "virt_byte X r po m1 pm1 (?p + of_nat j) = Some (?img ! j)"
    "\<exists>f. translate_page X m1 r (align_down (?p + of_nat j)) = Some f \<and> is_page f \<and> f \<in> free a - free a1"
    using b assms(7) by auto
  then obtain f where f: "translate_page X m1 r (align_down (?p + of_nat j)) = Some f" "is_page f" "f \<notin> free a1" by blast
  have pg: "\<forall>f \<in> free a1. is_page f" using assms(2) b'(2) by blast
  have "virt_byte X r po m' pm' (?p + of_nat j) = virt_byte X r po m1 pm1 (?p + of_nat j)"
    using cont
  proof (elim disjE exE)
    fix u' ps assume "load_bss X F r po ?fl ps m1 a1 pm1 = (Inr u', m', a', pm')"
    from fill_pages_keeps_bytes [OF b'(1) pg _ _ load_bss_fills [OF this] f] show ?thesis by simp
  qed simp
  then show ?thesis using b'(3) assms(7) page_image_nth [of j elf ?off ?fsz 0] by simp
qed

lemma load_segment_omits_bss:
  assumes "segment_ok seg" and "pool_inv a" and "\<forall>f \<in> free a. is_page f"
    and "file_pages seg * 4096 < unat (ph_mem_size seg)"
    and "load_segment X F r elf po seg user m a pm = Inr (Inr rng, m', a', pm')"
  shows "\<exists>p f. translate_page X m' r p = Some f \<and> f \<in> free a - free a' \<and>
    p \<notin> set (page_range_inclusive X (fst rng) (snd rng))"
proof -
  let ?v = "ph_virtual_addr seg" and ?n = "file_pages seg"
  have pg: "is_page ?v" and "unat ?v + unat (ph_mem_size seg) + 4096 < 2 ^ 64"
    using assms(1) canonical_span_bound by (fastforce simp: segment_ok_def)+
  then have lim: "unat ?v + ?n * 4096 < 2 ^ 64" "unat ?v + Suc ?n * 4096 \<le> 2 ^ 64"
    using assms(4) by simp_all
  have p: "align_down (?v + of_nat (?n * 4096)) = ?v + of_nat ?n * 4096"
    using page_split(1) [OF pg lim(1)] by simp
  note b = load_segment_bytes [OF assms(1,2,3,5)]
  obtain f where f: "translate_page X m' r (?v + of_nat ?n * 4096) = Some f" "f \<in> free a - free a'"
    using b assms(4) p by metis
  have "page_range_inclusive X (fst rng) (snd rng) = pages_from ?v ?n" using b by blast
  moreover have "?v + of_nat ?n * 4096 \<notin> set (pages_from ?v ?n)"
    using distinct_pages_from [OF lim(2)] pages_from_append [of ?v ?n 1]
    unfolding Suc_eq_plus1 by (simp del: pages_from_simps(2) add: pages_from_def)
  ultimately show ?thesis using f by metis
qed

end

section \<open>Properties\<close>

text \<open>A small file for the witnesses: two file bytes, zeros up to the middle of the second page.\<close>

abbreviation wit_seg :: ProgramHeader where
  "wit_seg \<equiv> \<lparr>ph_is_load = Some True, ph_offset = 0x1000, ph_virtual_addr = 0x5000, ph_file_size = 2,
     ph_mem_size = 0x1800, ph_write = True, ph_execute = False\<rparr>"

abbreviation wit_elf :: ElfFile where
  "wit_elf \<equiv> \<lparr>elf_byte = (\<lambda>i. if i = 0x1001 then 7 else 1), elf_len = 0x1002, elf_headers = [wit_seg], elf_entry = 0x5000\<rparr>"

abbreviation wit_alloc :: BootInfoFrameAllocator where
  "wit_alloc \<equiv> \<lparr>fa_size = 2, fa_used = 0, fa_frames = [0x1000, 0x2000], fa_recycled = []\<rparr>"

lemma wit_segment_run:
  "\<exists>pm'. load_segment kx86 boot_info_alloc 0 wit_elf 0 wit_seg True (\<lambda>_ _. None) wit_alloc (\<lambda>_. 9) =
      Inr (Inr (0x5000, 0x5000), (\<lambda>_ _. None)(0 := [0x5000 \<mapsto> 0x1000, 0x6000 \<mapsto> 0x2000]),
        \<lparr>fa_size = 2, fa_used = 2, fa_frames = [], fa_recycled = []\<rparr>, pm')"
  by (simp add: load_segment_def Let_def x86_ref_def canonical_def align_down_def is_page_def pages_from_def upt_rec
      boot_info_alloc_def bi_allocate_frame_def)

lemma wit_seg_ok: "segment_ok wit_seg"
  by (simp add: segment_ok_def canonical_span_def is_page_def)

text \<open>C10. \<^verbatim>\<open>load_elf\<close> builds the program's image. It is assumed of every loadable segment that its address
  and its file offset are multiples of the page size, that its file size is at most its memory size and
  that it lies, with a page to spare, in one half of the address space (\<^const>\<open>segment_ok\<close>); kernel
  addresses and segments without a file part are included. When the load succeeds, it returns one page
  range per loadable segment and afterwards, through the page table, every byte of every loadable segment
  reads as the file's byte, and as zero between the file size and the memory size. Later segments do not
  disturb earlier ones.\<close>

theorem load_elf_image:
  assumes "paging X F free pool_inv" and "pool_inv a" and "\<forall>f \<in> free a. is_page f"
    and "\<forall>seg \<in> set (elf_headers elf). ph_is_load seg = Some True \<longrightarrow> segment_ok seg"
    and "load_elf X F r elf po user m a pm = Inr (Inr rngs, m', a', pm')"
  shows "length rngs = length (filter (\<lambda>seg. ph_is_load seg = Some True) (elf_headers elf)) \<and>
    pool_inv a' \<and> free a' \<subseteq> free a \<and>
    (\<forall>seg \<in> set (elf_headers elf). ph_is_load seg = Some True \<longrightarrow> (\<forall>k < unat (ph_mem_size seg).
       virt_byte X r po m' pm' (ph_virtual_addr seg + of_nat k) = Some (segment_byte elf seg k)))"
  using paging.load_segments_bytes [OF assms(1-4) assms(5) [unfolded load_elf_def]] by blast


text \<open>Two segments: the one above, and one without a file part at a kernel address.\<close>

abbreviation wit_bss :: ProgramHeader where
  "wit_bss \<equiv> \<lparr>ph_is_load = Some True, ph_offset = 0x2000, ph_virtual_addr = 0xFFFFFF0000001000, ph_file_size = 0,
     ph_mem_size = 0x10, ph_write = True, ph_execute = False\<rparr>"

abbreviation wit_elf2 :: ElfFile where
  "wit_elf2 \<equiv> wit_elf\<lparr>elf_headers := [wit_seg, wit_bss]\<rparr>"

abbreviation wit_alloc3 :: BootInfoFrameAllocator where
  "wit_alloc3 \<equiv> \<lparr>fa_size = 3, fa_used = 0, fa_frames = [0x1000, 0x2000, 0x3000], fa_recycled = []\<rparr>"

theorem load_elf_image_witness:
  "\<exists>rngs m' a' pm'. load_elf kx86 boot_info_alloc 0 wit_elf2 0 True (\<lambda>_ _. None) wit_alloc3 (\<lambda>_. 9) =
      Inr (Inr rngs, m', a', pm') \<and> length rngs = 2 \<and>
     virt_byte kx86 0 0 m' pm' 0x5001 = Some 7 \<and> virt_byte kx86 0 0 m' pm' 0x6002 = Some 0 \<and>
     virt_byte kx86 0 0 m' pm' 0xFFFFFF0000001003 = Some 0"
proof -
  obtain rngs m' a' pm' where run: "load_elf kx86 boot_info_alloc 0 wit_elf2 0 True (\<lambda>_ _. None) wit_alloc3 (\<lambda>_. 9) =
      Inr (Inr rngs, m', a', pm')"
    by (simp add: load_elf_def load_segment_def Let_def x86_ref_def canonical_def align_down_def is_page_def pages_from_def upt_rec
      boot_info_alloc_def bi_allocate_frame_def word_le_nat_alt word_less_nat_alt)
  have inv: "bi_inv wit_alloc3" "\<forall>f \<in> bi_free wit_alloc3. is_page f"
    by (simp_all add: bi_inv_def bi_free_def is_page_def)
  have ok: "\<forall>seg \<in> set (elf_headers wit_elf2). ph_is_load seg = Some True \<longrightarrow> segment_ok seg"
    by (simp add: segment_ok_def canonical_span_def is_page_def)
  note img = load_elf_image [OF kpaging.paging_axioms inv ok run]
  have len: "length rngs = 2" using img by simp
  have img1: "\<forall>k < 0x1800. virt_byte kx86 0 0 m' pm' (0x5000 + of_nat k) = Some (segment_byte wit_elf2 wit_seg k)"
    and img2: "\<forall>k < 0x10. virt_byte kx86 0 0 m' pm' (0xFFFFFF0000001000 + of_nat k) = Some (segment_byte wit_elf2 wit_bss k)"
    using img by simp_all
  have "virt_byte kx86 0 0 m' pm' 0x5001 = Some 7" using img1 [rule_format, of 1] by (simp add: segment_byte_def)
  moreover have "virt_byte kx86 0 0 m' pm' 0x6002 = Some 0"
    using img1 [rule_format, of "0x1002"] by (simp add: segment_byte_def)
  moreover have "virt_byte kx86 0 0 m' pm' 0xFFFFFF0000001003 = Some 0"
    using img2 [rule_format, of 3] by (simp add: segment_byte_def)
  ultimately show ?thesis using run len by blast
qed

text \<open>C39. Without the alignment the loader loses bytes. For a segment whose address and file offset have the same
  offset \<open>d > 0\<close> in their pages, as ELF files may have it, and whose file part lies in one page: after a successful
  \<^verbatim>\<open>load_segment\<close> only the bytes before the last \<open>d\<close> of the file part read as the file's bytes. The last
  \<open>d\<close> bytes read as zero, because the page is filled from its start with as many bytes as the file part
  has, and the rest is zeroed.\<close>

theorem load_segment_loses_unaligned_tail:
  assumes "paging X F free pool_inv" and "pool_inv a" and "\<forall>f \<in> free a. is_page f"
    and "0 < unat (ph_file_size seg)" and "ph_offset seg mod 4096 = ph_virtual_addr seg mod 4096"
    and "unat (ph_virtual_addr seg mod 4096) + unat (ph_file_size seg) \<le> 4096"
    and "canonical_span (ph_virtual_addr seg) 4096"
    and "load_segment X F r elf po seg user m a pm = Inr (Inr rng, m', a', pm')"
    and "k < unat (ph_file_size seg)"
  shows "virt_byte X r po m' pm' (ph_virtual_addr seg + of_nat k) =
    Some (if unat (ph_virtual_addr seg mod 4096) + k < unat (ph_file_size seg)
          then elf_byte elf (unat (ph_offset seg) + k) else 0)"
proof -
  let ?d = "unat (ph_virtual_addr seg mod 4096)"
  have sp: "canonical_span (ph_virtual_addr seg) (unat (ph_file_size seg))"
    using canonical_span_le [OF assms(7)] assms(6) by simp
  have "unat (align_down (ph_offset seg)) + ?d = unat (ph_offset seg)"
    unfolding assms(5) [symmetric] by (simp add: unat_align_down unat_mod)
  then have off: "unat (align_down (ph_offset seg)) + (?d + k) = unat (ph_offset seg) + k" by simp
  have "?d + k < 4096" using assms(6,9) by simp
  from paging.load_segment_one_page [OF assms(1-4,6-8) this] show ?thesis
    unfolding paging.one_page_span(3) [OF assms(1,6,4) sp assms(9)] off .
qed

abbreviation wit_unaligned :: ProgramHeader where
  "wit_unaligned \<equiv> \<lparr>ph_is_load = Some True, ph_offset = 0x1001, ph_virtual_addr = 0x5001, ph_file_size = 2,
     ph_mem_size = 2, ph_write = True, ph_execute = False\<rparr>"

theorem load_segment_loses_unaligned_tail_witness:
  "\<exists>rng m' a' pm'. load_segment kx86 boot_info_alloc 0 wit_elf 0 wit_unaligned True (\<lambda>_ _. None) wit_alloc (\<lambda>_. 9) =
      Inr (Inr rng, m', a', pm') \<and> virt_byte kx86 0 0 m' pm' 0x5001 = Some 7 \<and>
     virt_byte kx86 0 0 m' pm' 0x5002 = Some 0 \<and> elf_byte wit_elf 0x1002 = 1"
proof -
  obtain rng m' a' pm' where run: "load_segment kx86 boot_info_alloc 0 wit_elf 0 wit_unaligned True (\<lambda>_ _. None) wit_alloc (\<lambda>_. 9) =
      Inr (Inr rng, m', a', pm')"
    by (simp add: load_segment_def Let_def x86_ref_def canonical_def align_down_def is_page_def pages_from_def upt_rec
      boot_info_alloc_def bi_allocate_frame_def)
  have inv: "bi_inv wit_alloc" "\<forall>f \<in> bi_free wit_alloc. is_page f"
    by (simp_all add: bi_inv_def bi_free_def is_page_def)
  have u: "0 < unat (ph_file_size wit_unaligned)" "ph_offset wit_unaligned mod 4096 = ph_virtual_addr wit_unaligned mod 4096"
    "unat (ph_virtual_addr wit_unaligned mod 4096) + unat (ph_file_size wit_unaligned) \<le> 4096"
    "canonical_span (ph_virtual_addr wit_unaligned) 4096"
    by (simp_all add: canonical_span_def)
  note b = load_segment_loses_unaligned_tail [OF kpaging.paging_axioms inv u run]
  have "virt_byte kx86 0 0 m' pm' 0x5001 = Some 7" using b [of 0] by simp
  moreover have "virt_byte kx86 0 0 m' pm' 0x5002 = Some 0" using b [of 1] by simp
  ultimately show ?thesis using run by simp
qed

text \<open>The page range that \<^verbatim>\<open>load_segment\<close> returns covers the file part only: when the memory
  size reaches past the last page of the file part, some page is now mapped to a frame taken from the
  allocator but is not in the returned range. \<^verbatim>\<open>start_page\<close> and \<^verbatim>\<open>end_page\<close> of the zero-fill
  block shadow the outer ones, and the process cleanup unmaps the returned ranges only.\<close>

theorem load_segment_range_omits_bss:
  assumes "paging X F free pool_inv" and "segment_ok seg" and "pool_inv a" and "\<forall>f \<in> free a. is_page f"
    and "file_pages seg * 4096 < unat (ph_mem_size seg)"
    and "load_segment X F r elf po seg user m a pm = Inr (Inr rng, m', a', pm')"
  shows "\<exists>p f. translate_page X m' r p = Some f \<and> f \<in> free a - free a' \<and>
    p \<notin> set (page_range_inclusive X (fst rng) (snd rng))"
  using paging.load_segment_omits_bss [OF assms] .

theorem load_segment_range_omits_bss_witness:
  "\<exists>rng m' a' pm' p f. load_segment kx86 boot_info_alloc 0 wit_elf 0 wit_seg True (\<lambda>_ _. None) wit_alloc (\<lambda>_. 9) =
      Inr (Inr rng, m', a', pm') \<and> translate_page kx86 m' 0 p = Some f \<and>
      p \<notin> set (page_range_inclusive kx86 (fst rng) (snd rng))"
proof -
  obtain m' a' pm' where run: "load_segment kx86 boot_info_alloc 0 wit_elf 0 wit_seg True (\<lambda>_ _. None) wit_alloc (\<lambda>_. 9) =
      Inr (Inr (0x5000, 0x5000), m', a', pm')"
    using wit_segment_run by blast
  have inv: "bi_inv wit_alloc" "\<forall>f \<in> bi_free wit_alloc. is_page f"
    by (simp_all add: bi_inv_def bi_free_def is_page_def)
  have big: "file_pages wit_seg * 4096 < unat (ph_mem_size wit_seg)" by (simp add: file_pages_def)
  from load_segment_range_omits_bss [OF kpaging.paging_axioms wit_seg_ok inv big run] run show ?thesis by blast
qed

end
