(* ===== verification/Pid.thy ===== *)
theory Pid
  imports Prelude
begin

text \<open>
  Process identifiers (\<^verbatim>\<open>kernel/src/proc/pid.rs\<close>) and the per-CPU current-process cell
  (\<^verbatim>\<open>kernel/src/proc/processor.rs\<close>). A pid is a 16-bit number; the static \<^verbatim>\<open>COUNTER\<close> is passed
  explicitly. Identifiers are ordered as the derived \<^verbatim>\<open>Ord\<close> orders them, which fixes the
  iteration order of the \<^verbatim>\<open>BTreeSet\<close>s of waiting processes.
\<close>

section \<open>Process identifiers\<close>

datatype ProcessId = ProcessId (pid_raw: u16)

instantiation ProcessId :: linorder
begin

definition less_eq_ProcessId :: "ProcessId \<Rightarrow> ProcessId \<Rightarrow> bool" where
  "less_eq_ProcessId a b \<longleftrightarrow> pid_raw a \<le> pid_raw b"

definition less_ProcessId :: "ProcessId \<Rightarrow> ProcessId \<Rightarrow> bool" where
  "less_ProcessId a b \<longleftrightarrow> pid_raw a < pid_raw b"

instance
  by standard (auto simp: less_eq_ProcessId_def less_ProcessId_def ProcessId.expand)

end

text \<open>\<^verbatim>\<open>ProcessId::new\<close> is \<^verbatim>\<open>COUNTER.fetch_add(1)\<close>: it returns the old value and the
  counter wraps at \<open>2 ^ 16\<close>.\<close>

definition COUNTER_init :: u16 where
  "COUNTER_init = 1"

definition ProcessId_new :: "u16 \<Rightarrow> ProcessId \<times> u16" where
  "ProcessId_new c = (ProcessId c, c + 1)"

definition KERNEL_PID :: ProcessId where
  "KERNEL_PID = ProcessId 1"

text \<open>The identifiers handed out by \<open>n\<close> successive calls.\<close>

fun pids_from :: "nat \<Rightarrow> u16 \<Rightarrow> ProcessId list" where
  "pids_from 0 c = []"
| "pids_from (Suc n) c = (let (p, c') = ProcessId_new c in p # pids_from n c')"

lemma pids_from_eq: "pids_from n c = map (\<lambda>i. ProcessId (c + of_nat i)) [0..<n]"
proof (induction n arbitrary: c)
  case (Suc n)
  have "[0..<Suc n] = 0 # map Suc [0..<n]"
    by (metis map_Suc_upt upt_conv_Cons zero_less_Suc)
  with Suc show ?case
    by (simp add: ProcessId_new_def add.commute add.left_commute del: upt_Suc)
qed simp

lemma pids_from_add: "pids_from (m + n) c = pids_from m c @ pids_from n (c + of_nat m)"
  by (induction m arbitrary: c) (simp_all add: ProcessId_new_def add.assoc)

lemma unat_pid_offset:
  "Suc i < 2 ^ 16 \<Longrightarrow> unat ((1 :: u16) + of_nat i) = Suc i"
  by (simp add: unat_word_ariths unat_of_nat)

lemma distinct_pids_from:
  assumes "n < 2 ^ 16"
  shows "distinct (pids_from n COUNTER_init) \<and> ProcessId 0 \<notin> set (pids_from n COUNTER_init)"
proof -
  have eq: "pids_from n COUNTER_init = map (\<lambda>i. ProcessId (1 + of_nat i)) [0..<n]"
    by (simp only: pids_from_eq COUNTER_init_def)
  have raw: "unat (1 + of_nat i :: u16) = Suc i" if "i < n" for i
    using that assms by (intro unat_pid_offset) simp
  have "inj_on (\<lambda>i. ProcessId (1 + of_nat i)) {0..<n}"
  proof (rule inj_onI)
    fix i j
    assume ij: "i \<in> {0..<n}" "j \<in> {0..<n}" and eq: "ProcessId (1 + of_nat i) = ProcessId (1 + of_nat j)"
    have "Suc i = unat (1 + of_nat j :: u16)"
      using ij(1) raw [of i] eq by (metis ProcessId.inject atLeastLessThan_iff)
    then show "i = j" using ij(2) raw [of j] by (metis Suc_inject atLeastLessThan_iff)
  qed
  moreover have "ProcessId 0 \<noteq> ProcessId (1 + of_nat i)" if "i < n" for i
    using raw [OF that] by (metis ProcessId.inject nat.distinct(1) unat_0)
  ultimately show ?thesis
    unfolding eq distinct_map set_map set_upt by (simp only: distinct_upt) fastforce
qed

section \<open>The processor cell\<close>

text \<open>\<^verbatim>\<open>Processor(AtomicU16)\<close>: 0 means that no process runs on the CPU.\<close>

datatype Processor = Processor (processor_pid: u16)

definition Processor_new :: Processor where
  "Processor_new = Processor 0"

definition Processor_is_free :: "Processor \<Rightarrow> bool" where
  "Processor_is_free p \<longleftrightarrow> processor_pid p = 0"

definition Processor_set_pid :: "Processor \<Rightarrow> ProcessId \<Rightarrow> Processor" where
  "Processor_set_pid p pid = Processor (pid_raw pid)"

definition Processor_get_pid :: "Processor \<Rightarrow> ProcessId option" where
  "Processor_get_pid p = (if processor_pid p = 0 then None else Some (ProcessId (processor_pid p)))"

text \<open>\<^verbatim>\<open>processor::get_pid\<close>, with its \<^verbatim>\<open>expect("No current process")\<close>.\<close>

definition get_pid :: "Processor \<Rightarrow> ProcessId res" where
  "get_pid p = expect (Expect_failed ''No current process'') (Processor_get_pid p)"

lemma get_pid_set_pid [simp]:
  "get_pid (Processor_set_pid p pid) =
     (if pid_raw pid = 0 then Inl (Expect_failed ''No current process'') else Inr pid)"
  by (simp add: get_pid_def Processor_get_pid_def Processor_set_pid_def)

lemma get_pid_eq_Inr: "get_pid p = Inr pid \<longleftrightarrow> processor_pid p = pid_raw pid \<and> pid_raw pid \<noteq> 0"
  by (cases pid) (auto simp: get_pid_def Processor_get_pid_def)

lemma is_free_iff_no_pid: "Processor_is_free p \<longleftrightarrow> Processor_get_pid p = None"
  by (simp add: Processor_is_free_def Processor_get_pid_def)

section \<open>Properties\<close>

text \<open>C9. The 16-bit pid counter starts at the kernel's pid and the first 65535 processes
  get pairwise distinct, nonzero identifiers (0 is the "no process" mark of the processor cell);
  the next call would hand out 0 and the one after it the kernel's own identifier again.\<close>

theorem pids_unique_until_wrap:
  "distinct (pids_from 65535 COUNTER_init) \<and>
   hd (pids_from 65535 COUNTER_init) = KERNEL_PID \<and>
   ProcessId 0 \<notin> set (pids_from 65535 COUNTER_init) \<and>
   pids_from 65537 COUNTER_init = pids_from 65535 COUNTER_init @ [ProcessId 0, KERNEL_PID]"
proof -
  have "pids_from (65535 + Suc (Suc 0)) COUNTER_init =
      pids_from 65535 COUNTER_init @ [ProcessId 0, KERNEL_PID]"
    unfolding pids_from_add by (simp add: ProcessId_new_def COUNTER_init_def KERNEL_PID_def)
  moreover have "hd (pids_from (Suc n) COUNTER_init) = KERNEL_PID" for n
    by (simp add: ProcessId_new_def COUNTER_init_def KERNEL_PID_def)
  from this [of 65534] have "hd (pids_from 65535 COUNTER_init) = KERNEL_PID"
    by (simp only: numeral_eq_Suc pred_numeral_simps) 
  ultimately show ?thesis using distinct_pids_from [of 65535] by simp
qed

end
