(* ===== verification/Stack.thy ===== *)
theory Stack
  imports ElfLoad Pid
begin

text \<open>
  The user and kernel stacks of a process (\<^verbatim>\<open>kernel/src/proc/vm/stack.rs\<close>). Every stack lives in a
  slot of 4 GiB below \<^verbatim>\<open>STACK_MAX\<close>; it grows on page faults and is copied by \<^verbatim>\<open>fork\<close>. The
  invariant \<open>stack_inv\<close> says that the recorded range is exactly what is mapped for the stack.
\<close>

section \<open>Layout\<close>

definition STACK_MAX :: u64 where
  "STACK_MAX = 0x400000000000"

definition STACK_MAX_PAGES :: u64 where
  "STACK_MAX_PAGES = 0x100000"

definition STACK_MAX_SIZE :: u64 where
  "STACK_MAX_SIZE = STACK_MAX_PAGES * PAGE_SIZE"

definition STACK_START_MASK :: u64 where
  "STACK_START_MASK = NOT (STACK_MAX_SIZE - 1)"

definition STACK_DEF_BOT :: u64 where
  "STACK_DEF_BOT = STACK_MAX - STACK_MAX_SIZE"

definition STACK_DEF_PAGE :: u64 where
  "STACK_DEF_PAGE = 1"

definition STACK_DEF_SIZE :: u64 where
  "STACK_DEF_SIZE = STACK_DEF_PAGE * PAGE_SIZE"

definition STACK_INIT_BOT :: u64 where
  "STACK_INIT_BOT = STACK_MAX - STACK_DEF_SIZE"

definition STACK_INIT_TOP :: u64 where
  "STACK_INIT_TOP = STACK_MAX - 8"

definition KSTACK_MAX :: u64 where
  "KSTACK_MAX = 0xffffff0200000000"

definition KSTACK_DEF_BOT :: u64 where
  "KSTACK_DEF_BOT = KSTACK_MAX - STACK_MAX_SIZE"

definition KSTACK_DEF_PAGE :: u64 where
  "KSTACK_DEF_PAGE = 8"

definition KSTACK_DEF_SIZE :: u64 where
  "KSTACK_DEF_SIZE = KSTACK_DEF_PAGE * PAGE_SIZE"

definition KSTACK_INIT_BOT :: u64 where
  "KSTACK_INIT_BOT = KSTACK_MAX - KSTACK_DEF_SIZE"

definition KSTACK_INIT_TOP :: u64 where
  "KSTACK_INIT_TOP = KSTACK_MAX - 8"

lemmas stack_consts = STACK_MAX_def STACK_MAX_PAGES_def STACK_MAX_SIZE_def STACK_DEF_PAGE_def STACK_DEF_SIZE_def
  STACK_INIT_BOT_def STACK_INIT_TOP_def KSTACK_MAX_def KSTACK_DEF_PAGE_def KSTACK_DEF_SIZE_def KSTACK_INIT_BOT_def
  KSTACK_INIT_TOP_def PAGE_SIZE_def

section \<open>Stacks\<close>

text \<open>\<open>st_start\<close> and \<open>st_end\<close> are the ends of the page range.\<close>

record Stack =
  st_start :: page
  st_end :: page
  st_usage :: u64

definition Stack_new :: "'z addr_ops_scheme \<Rightarrow> page \<Rightarrow> u64 \<Rightarrow> Stack res" where
  "Stack_new X top_page sz =
     rbind (expect Address_panic (page_sub X top_page sz)) (\<lambda>below.
     rbind (expect Address_panic (page_add X below 1)) (\<lambda>start.
     rbind (expect Address_panic (page_add X top_page 1)) (\<lambda>stop.
       Inr \<lparr>st_start = start, st_end = stop, st_usage = sz\<rparr>)))"

definition Stack_empty :: "'z addr_ops_scheme \<Rightarrow> Stack" where
  "Stack_empty X =
     \<lparr>st_start = page_containing X STACK_INIT_TOP, st_end = page_containing X STACK_INIT_TOP, st_usage = 0\<rparr>"

definition Stack_kstack :: "'z addr_ops_scheme \<Rightarrow> Stack" where
  "Stack_kstack X =
     \<lparr>st_start = page_containing X KSTACK_INIT_BOT, st_end = page_containing X KSTACK_INIT_TOP,
      st_usage = KSTACK_DEF_PAGE\<rparr>"

definition Stack_init :: "('m, 'a) x86_64 \<Rightarrow> 'a frame_allocator \<Rightarrow> frame \<Rightarrow> Stack \<Rightarrow> 'm \<Rightarrow> 'a \<Rightarrow>
    (Stack \<times> 'm \<times> 'a) res" where
  "Stack_init X F r s m a =
     rbind (map_range X F r STACK_INIT_BOT STACK_DEF_PAGE True m a) (\<lambda>(res, m', a').
       case res of
         Inl e \<Rightarrow> Inl Unwrap_failed
       | Inr (start, stop) \<Rightarrow> Inr (\<lparr>st_start = start, st_end = stop, st_usage = STACK_DEF_PAGE\<rparr>, m', a'))"

definition is_on_stack :: "Stack \<Rightarrow> u64 \<Rightarrow> bool" where
  "is_on_stack s addr \<longleftrightarrow> addr AND STACK_START_MASK = st_start s AND STACK_START_MASK"

definition grow_stack :: "('m, 'a) x86_64 \<Rightarrow> 'a frame_allocator \<Rightarrow> frame \<Rightarrow> Stack \<Rightarrow> u64 \<Rightarrow> 'm \<Rightarrow> 'a \<Rightarrow>
    ((map_error + unit) \<times> Stack \<times> 'm \<times> 'a) res" where
  "grow_stack X F r s addr m a =
     (let aim_page = page_containing X addr
      in rbind (expect Address_panic (page_diff X (st_start s) aim_page)) (\<lambda>count_alloc.
         rbind (map_range X F r aim_page count_alloc True m a) (\<lambda>(res, m', a').
           case res of
             Inl e \<Rightarrow> Inr (Inl e, s, m', a')
           | Inr (new_start, new_end) \<Rightarrow>
               Inr (Inr (), s\<lparr>st_usage := st_usage s + count_alloc, st_start := new_start\<rparr>, m', a'))))"

definition Stack_handle_page_fault :: "('m, 'a) x86_64 \<Rightarrow> 'a frame_allocator \<Rightarrow> frame \<Rightarrow> Stack \<Rightarrow> u64 \<Rightarrow>
    'm \<Rightarrow> 'a \<Rightarrow> (bool \<times> Stack \<times> 'm \<times> 'a) res" where
  "Stack_handle_page_fault X F r s addr m a =
     (if \<not> is_on_stack s addr then Inr (False, s, m, a)
      else rbind (grow_stack X F r s addr m a) (\<lambda>(res, s', m', a').
        case res of
          Inl e \<Rightarrow> Inr (False, s', m', a')
        | Inr _ \<Rightarrow> Inr (True, s', m', a')))"

definition Stack_memory_usage :: "Stack \<Rightarrow> u64" where
  "Stack_memory_usage s = st_usage s * PAGE_SIZE"

text \<open>\<^verbatim>\<open>copy_nonoverlapping\<close> between virtual addresses of the table \<open>r\<close> that is loaded in
  \<^verbatim>\<open>Cr3\<close>, byte by byte; \<^term>\<open>None\<close> is an access to an unmapped page.\<close>

fun virt_copy :: "('m, 'a) x86_64 \<Rightarrow> frame \<Rightarrow> u64 \<Rightarrow> 'm \<Rightarrow> u64 \<Rightarrow> u64 \<Rightarrow> nat \<Rightarrow> bytes \<Rightarrow> bytes option" where
  "virt_copy X r po m src dst 0 pm = Some pm"
| "virt_copy X r po m src dst (Suc n) pm =
     (case virt_copy X r po m src dst n pm of
        None \<Rightarrow> None
      | Some pm1 \<Rightarrow>
          (case virt_byte X r po m pm1 (src + of_nat n) of
             None \<Rightarrow> None
           | Some b \<Rightarrow>
               (case translate_page X m r (align_down (dst + of_nat n)) of
                  None \<Rightarrow> None
                | Some f \<Rightarrow> Some (pm1(f + po + (dst + of_nat n) mod 4096 := b)))))"

definition clone_range :: "('m, 'a) x86_64 \<Rightarrow> frame \<Rightarrow> u64 \<Rightarrow> 'm \<Rightarrow> u64 \<Rightarrow> u64 \<Rightarrow> u64 \<Rightarrow> bytes \<Rightarrow> bytes res" where
  "clone_range X cr3 po m cur_addr dest_addr sz pm =
     expect Page_fault (virt_copy X cr3 po m cur_addr dest_addr (8 * unat (sz * 4096 div 8)) pm)"

text \<open>The search of \<^verbatim>\<open>fork\<close> for a free place: 4 GiB further down after every failure. Running
  forever is \<^term>\<open>None\<close>.\<close>

partial_function (option) fork_place :: "('m, 'a) x86_64 \<Rightarrow> 'a frame_allocator \<Rightarrow> frame \<Rightarrow> u64 \<Rightarrow> u64 \<Rightarrow>
    'm \<Rightarrow> 'a \<Rightarrow> (u64 \<times> 'm \<times> 'a) res option" where
  "fork_place X F r child_stack_top child_stack_usage m a =
     (case map_range X F r child_stack_top child_stack_usage True m a of
        Inl p \<Rightarrow> Some (Inl p)
      | Inr (res, m', a') \<Rightarrow>
          (case res of
             Inr _ \<Rightarrow> Some (Inr (child_stack_top, m', a'))
           | Inl _ \<Rightarrow>
               (case va_sub X child_stack_top STACK_MAX_SIZE of
                  None \<Rightarrow> Some (Inl Address_panic)
                | Some lower \<Rightarrow> fork_place X F r lower child_stack_usage m' a')))"

definition Stack_fork :: "('m, 'a) x86_64 \<Rightarrow> 'a frame_allocator \<Rightarrow> frame \<Rightarrow> u64 \<Rightarrow> Stack \<Rightarrow> frame \<Rightarrow> u64 \<Rightarrow>
    'm \<Rightarrow> 'a \<Rightarrow> bytes \<Rightarrow> (Stack \<times> 'm \<times> 'a \<times> bytes) res option" where
  "Stack_fork X F cr3 po s r stack_offset_count m a pm =
     (case page_sub X (st_start s) stack_offset_count of
        None \<Rightarrow> Some (Inl Address_panic)
      | Some first \<Rightarrow>
          (case fork_place X F r first (st_usage s) m a of
             None \<Rightarrow> None
           | Some (Inl p) \<Rightarrow> Some (Inl p)
           | Some (Inr (child_stack_top, m', a')) \<Rightarrow> Some (
               rbind (clone_range X cr3 po m' (st_start s) child_stack_top (st_usage s) pm) (\<lambda>pm'.
                 let child_range_start = page_containing X child_stack_top
                 in rbind (expect Address_panic (page_add X child_range_start (st_usage s))) (\<lambda>child_range_end.
                      Inr (\<lparr>st_start = child_range_start, st_end = child_range_end, st_usage = st_usage s\<rparr>,
                           m', a', pm'))))))"

text \<open>The result of \<^verbatim>\<open>unmap_pages\<close> is dropped by the source.\<close>

definition Stack_clean_up :: "('m, 'a) x86_64 \<Rightarrow> 'a frame_allocator \<Rightarrow> frame \<Rightarrow> Stack \<Rightarrow> 'm \<Rightarrow> 'a \<Rightarrow>
    (Stack \<times> 'm \<times> 'a) res" where
  "Stack_clean_up X F r s m a =
     (if st_usage s = 0 then Inr (s, m, a)
      else rbind (unmap_pages X F r (st_start s) (st_usage s) True m a) (\<lambda>(res, m', a').
        Inr (s\<lparr>st_usage := 0\<rparr>, m', a')))"

section \<open>Slots\<close>

definition slot :: "u64 \<Rightarrow> nat" where
  "slot a = unat a div 2 ^ 32"

lemma STACK_START_MASK_eq: "STACK_START_MASK = NOT (mask 32)"
  by (simp add: STACK_START_MASK_def stack_consts mask_eq_exp_minus_1)

lemma STACK_MAX_SIZE_eq: "STACK_MAX_SIZE = 0x100000000"
  by (simp add: stack_consts)

lemma unat_and_slot_mask: "unat (a AND STACK_START_MASK) = slot a * 2 ^ 32"
proof -
  have "a AND NOT (mask 32) = push_bit 32 (drop_bit 32 a)"
    by (rule bit_eqI) (auto simp: bit_simps)
  then have "a AND STACK_START_MASK = (a div 2 ^ 32) * 2 ^ 32"
    by (simp add: STACK_START_MASK_eq drop_bit_eq_div push_bit_eq_mult)
  moreover have "unat (a div 2 ^ 32 * 2 ^ 32) = unat a div 2 ^ 32 * 2 ^ 32"
  proof -
    have "unat (a div 2 ^ 32) = unat a div 2 ^ 32" by (simp add: unat_div)
    moreover have "unat a div 2 ^ 32 * 2 ^ 32 \<le> unat a" by (rule div_times_less_eq_dividend)
    then have "unat a div 2 ^ 32 * 2 ^ 32 < 2 ^ 64"
      using unat_word_less_pow [of a] by (simp only: len64 order.strict_trans1)
    ultimately show ?thesis by (simp add: unat_word_ariths)
  qed
  ultimately show ?thesis by (simp add: slot_def)
qed

lemma is_on_stack_iff: "is_on_stack s addr \<longleftrightarrow> slot addr = slot (st_start s)"
  unfolding is_on_stack_def word_unat_eq_iff unat_and_slot_mask by simp

lemma slot_align_down: "slot (align_down a) = slot a"
proof -
  have "unat a div 4096 * 4096 div 4096 = unat a div 4096" by simp
  then have "unat a div 4096 * 4096 div (4096 * 2 ^ 20) = unat a div (4096 * 2 ^ 20)"
    unfolding div_mult2_eq by simp
  then show ?thesis by (simp add: slot_def unat_align_down)
qed

lemma page_address_inj:
  assumes "is_page f" and "is_page g" and "j < 4096" and "k < 4096"
    and "f + po + of_nat j = g + po + of_nat k"
  shows "f = g \<and> j = k"
proof -
  have "f = g"
  proof (rule ccontr)
    assume "f \<noteq> g"
    then have "4096 \<le> unat ((g + po + of_nat k) - (f + po))" using assms by (intro page_gap)
    also have "(g + po + of_nat k) - (f + po) = of_nat j" using assms(5) by (simp add: algebra_simps)
    finally show False using assms(3) by (simp add: unat_of_nat)
  qed
  moreover from this have "of_nat j = (of_nat k :: u64)" using assms(5) by simp
  then have "j = k" using assms(3,4) by (simp add: word_unat_eq_iff unat_of_nat)
  ultimately show ?thesis by simp
qed

section \<open>The invariant\<close>

text \<open>The recorded range is nonempty, lies within one slot of the lower half, and is mapped page by
  page to frames of its own that are in use.\<close>

definition stack_shape :: "Stack \<Rightarrow> bool" where
  "stack_shape s \<longleftrightarrow> is_page (st_start s) \<and> 0 < unat (st_usage s) \<and>
     st_end s = st_start s + st_usage s * 4096 \<and> unat (st_start s) + unat (st_usage s) * 4096 < 2 ^ 47 \<and>
     (unat (st_start s) + unat (st_usage s) * 4096 - 1) div 2 ^ 32 = slot (st_start s)"

definition backed :: "('m, 'a) x86_64 \<Rightarrow> ('a \<Rightarrow> frame set) \<Rightarrow> frame \<Rightarrow> page list \<Rightarrow> 'm \<Rightarrow> 'a \<Rightarrow> bool" where
  "backed X free r ps m a \<longleftrightarrow>
     (\<exists>fs. distinct fs \<and> set fs \<inter> free a = {} \<and> (\<forall>f \<in> set fs. is_page f) \<and>
        list_all2 (\<lambda>p f. translate_page X m r p = Some f) ps fs)"

definition stack_inv :: "('m, 'a) x86_64 \<Rightarrow> ('a \<Rightarrow> frame set) \<Rightarrow> frame \<Rightarrow> Stack \<Rightarrow> 'm \<Rightarrow> 'a \<Rightarrow> bool" where
  "stack_inv X free r s m a \<longleftrightarrow> stack_shape s \<and>
     backed X free r (pages_from (st_start s) (unat (st_usage s))) m a"

context paging
begin

lemma map_pages_keeps:
  assumes "pool_inv a" and "map_pages X F r fl ps m a = (x, m', a')"
  shows "pool_inv a' \<and> free a' \<subseteq> free a \<and>
    (\<forall>p f. translate_page X m r p = Some f \<longrightarrow> translate_page X m' r p = Some f)"
  using assms
proof (induction ps arbitrary: m a)
  case (Cons p ps)
  obtain o1 a1 where al: "allocate_frame F a = (o1, a1)" by fastforce
  then have a1: "pool_inv a1" "free a1 \<subseteq> free a" using alloc_inv [OF Cons.prems(1)] by simp_all
  show ?case
  proof (cases o1)
    case None
    then show ?thesis using Cons.prems(2) al a1 by simp
  next
    case (Some f)
    obtain y m2 a2 where mt: "map_to X F r p f fl m a1 = (y, m2, a2)" by (metis surj_pair)
    then have a2: "pool_inv a2" "free a2 \<subseteq> free a1" using map_to_pool [OF a1(1)] by blast+
    show ?thesis
    proof (cases y)
      case (Inl e)
      then show ?thesis using Cons.prems(2) al Some mt a1 a2 map_to_err [of F r p f fl m a1 e m2 a2] by auto
    next
      case (Inr u)
      then have "map_pages X F r fl ps m2 a2 = (x, m', a')" using Cons.prems(2) al Some mt by simp
      from Cons.IH [OF a2(1) this] have IH: "pool_inv a'" "free a' \<subseteq> free a2"
        "\<forall>p f. translate_page X m2 r p = Some f \<longrightarrow> translate_page X m' r p = Some f" by blast+
      have "translate_page X m r p = None" "translate_page X m2 r = (translate_page X m r)(p \<mapsto> f)"
        using map_to_ok [of F r p f fl m a1 u m2 a2] mt Inr by auto
      then have "translate_page X m' r q = Some g" if "translate_page X m r q = Some g" for q g
        using IH(3) that by (metis fun_upd_other option.distinct(1))
      with IH a1 a2 show ?thesis by blast
    qed
  qed
qed simp

lemma map_range_keeps:
  assumes "pool_inv a" and "map_range X F r addr cnt user m a = Inr (x, m', a')"
  shows "pool_inv a' \<and> free a' \<subseteq> free a \<and>
    (\<forall>p f. translate_page X m r p = Some f \<longrightarrow> translate_page X m' r p = Some f)"
proof -
  obtain ps y where "map_pages X F r (map_range_flags user) ps m a = (y, m', a')"
    using assms(2) by (auto simp: map_range_def map_range_with_def Let_def split: prod.splits sum.splits)
  from map_pages_keeps [OF assms(1) this] show ?thesis .
qed

lemma backed_keeps:
  assumes "backed X free r ps m a" and "free a' \<subseteq> free a"
    and "\<forall>p f. translate_page X m r p = Some f \<longrightarrow> translate_page X m' r p = Some f"
  shows "backed X free r ps m' a'"
  using assms unfolding backed_def by (blast intro: list_all2_mono)

text \<open>A fresh range in front of a backed one.\<close>

lemma map_range_extends:
  assumes "pool_inv a" and "\<forall>f \<in> free a. is_page f" and "range_fits addr cnt"
    and "map_range X F r addr cnt user m a = Inr (Inr rng, m', a')" and "backed X free r ps m a"
  shows "backed X free r (range_pages addr cnt @ ps) m' a'"
proof -
  obtain gs where gs: "distinct gs" "set gs \<inter> free a = {}" "\<forall>f \<in> set gs. is_page f"
    "list_all2 (\<lambda>p f. translate_page X m r p = Some f) ps gs"
    using assms(5) by (auto simp: backed_def)
  have keep: "free a' \<subseteq> free a" "list_all2 (\<lambda>p f. translate_page X m' r p = Some f) ps gs"
    using map_range_keeps [OF assms(1,4)] gs(4) by (blast intro: list_all2_mono)+
  obtain fs where fs: "length fs = unat cnt" "distinct fs" "set fs \<subseteq> free a - free a'"
    "translate_page X m' r = (translate_page X m r)(range_pages addr cnt [\<mapsto>] fs)"
    using map_range_ok [OF assms(3,1)] assms(4) unfolding map_range_def by blast
  have len: "length (range_pages addr cnt) = unat cnt" by (simp add: range_pages_def)
  have "distinct (range_pages addr cnt)"
    using assms(3) unfolding range_pages_def range_fits_def by (intro distinct_pages_from) simp
  then have "list_all2 (\<lambda>p f. translate_page X m' r p = Some f) (range_pages addr cnt) fs"
    using fs(1,4) len map_upds_nth [of "range_pages addr cnt" fs] by (intro list_all2_all_nthI) auto
  then show ?thesis
    using keep fs gs assms(2) unfolding backed_def by (intro exI [of _ "fs @ gs"]) (auto intro: list_all2_appendI)
qed


text \<open>Growth by a page fault below the stack.\<close>

lemma stack_shape_grow:
  assumes "stack_shape s" and "slot addr = slot (st_start s)" and "addr < st_start s"
  defines "q \<equiv> align_down addr" and "d \<equiv> (st_start s - align_down addr) div 4096"
  shows "q < st_start s" and "unat q + unat d * 4096 = unat (st_start s)"
    and "page_diff X (st_start s) q = Some d" and "range_fits q d"
    and "q + d * 4096 = st_start s" and "unat (st_usage s + d) = unat d + unat (st_usage s)"
    and "stack_shape (s\<lparr>st_usage := st_usage s + d, st_start := q\<rparr>)"
proof -
  have pg: "is_page (st_start s)" "is_page q"
    and lim: "unat (st_start s) + unat (st_usage s) * 4096 < 2 ^ 47"
    and sl: "(unat (st_start s) + unat (st_usage s) * 4096 - 1) div 2 ^ 32 = slot (st_start s)"
    using assms(1) by (simp_all add: stack_shape_def q_def)
  have "unat addr div 4096 * 4096 \<le> unat addr" by simp
  then show lt: "q < st_start s"
    using assms(3) unfolding word_less_nat_alt q_def unat_align_down by linarith
  have un: "unat (st_start s - q) = unat (st_start s) - unat q"
    using lt by (intro unat_sub) simp
  have "4096 dvd unat (st_start s)" "4096 dvd unat q" using pg unfolding is_page_iff_mod by (simp_all add: mod_eq_0_iff_dvd)
  then have dv: "4096 dvd unat (st_start s) - unat q" by (rule dvd_diff_nat)
  have "unat d = (unat (st_start s) - unat q) div 4096" unfolding d_def q_def [symmetric] unat_div un by simp
  then have "unat d * 4096 = unat (st_start s) - unat q" using dv by simp
  then show eq: "unat q + unat d * 4096 = unat (st_start s)" using lt by (simp add: word_less_nat_alt)
  show "page_diff X (st_start s) q = Some d"
    unfolding d_def q_def [symmetric] using pg lt by (intro page_diff_ok) simp_all
  have "unat (q + of_nat (unat d) * 4096) = unat q + unat d * 4096"
    using eq lim by (intro unat_page_offset) simp
  then show e: "q + d * 4096 = st_start s" using eq by (simp add: word_unat_eq_iff)
  show "range_fits q d"
    using range_low_fits [of q d] eq lim pg(2) lt by (simp add: range_low_def word_less_nat_alt)
  have "unat (st_start s) + unat (st_usage s) * 4096 = unat q + (unat d + unat (st_usage s)) * 4096"
    using eq by (simp add: algebra_simps)
  moreover show u: "unat (st_usage s + d) = unat d + unat (st_usage s)"
    using lim eq by (simp add: unat_word_ariths)
  ultimately show "stack_shape (s\<lparr>st_usage := st_usage s + d, st_start := q\<rparr>)"
    using assms(1,2) e lim sl pg slot_align_down [of addr] unfolding stack_shape_def
    by (simp add: q_def algebra_simps)
qed

lemma grow_stack_ok:
  assumes "pool_inv a" and "\<forall>f \<in> free a. is_page f" and "stack_inv X free r s m a"
    and "slot addr = slot (st_start s)" and "addr < st_start s"
    and "grow_stack X F r s addr m a = Inr (Inr u, s', m', a')"
  shows "stack_inv X free r s' m' a' \<and> st_start s' = align_down addr \<and> st_end s' = st_end s \<and>
    unat (st_start s) = unat (align_down addr) + (unat (st_usage s') - unat (st_usage s)) * 4096"
proof -
  have sh: "stack_shape s" and bk: "backed X free r (pages_from (st_start s) (unat (st_usage s))) m a"
    using assms(3) by (simp_all add: stack_inv_def)
  note g = stack_shape_grow [OF sh assms(4,5)]
  let ?q = "align_down addr" and ?d = "(st_start s - align_down addr) div 4096"
  obtain rng where run: "map_range X F r ?q ?d True m a = Inr (Inr rng, m', a')"
    and s': "s' = s\<lparr>st_usage := st_usage s + ?d, st_start := fst rng\<rparr>"
    using assms(6) g(3) by (auto simp: grow_stack_def page_containing_eq Let_def split: sum.splits prod.splits)
  have rng: "fst rng = ?q"
    using map_range_ok [OF g(4) assms(1)] run unfolding map_range_def by fastforce
  have "range_pages ?q ?d @ pages_from (st_start s) (unat (st_usage s)) = pages_from ?q (unat (st_usage s + ?d))"
    using g(5,6) pages_from_append [of ?q "unat ?d" "unat (st_usage s)"] by (simp add: range_pages_def)
  then show ?thesis
    using map_range_extends [OF assms(1,2) g(4) run bk] g(2,6,7) rng s' by (simp add: stack_inv_def)
qed

lemma grow_stack_total:
  assumes "stack_shape s" and "slot addr = slot (st_start s)" and "addr < st_start s"
  shows "\<exists>x s' m' a'. grow_stack X F r s addr m a = Inr (x, s', m', a') \<and> (\<forall>e. x = Inl e \<longrightarrow> s' = s)"
proof -
  note g = stack_shape_grow [OF assms]
  show ?thesis
    using g(3) map_range_pages [OF g(4), where fl = "map_range_flags True"]
    by (auto simp: grow_stack_def page_containing_eq Let_def map_range_def split: sum.splits prod.splits)
qed


text \<open>The search for a place ends: every failure moves 4 GiB down, and the subtraction panics at the
  bottom of the address space.\<close>

lemma fork_place_terminates: "\<exists>y. fork_place X F r top_addr u m a = Some y"
proof (induction "unat top_addr" arbitrary: top_addr m a rule: less_induct)
  case less
  show ?case
  proof (cases "top_addr < STACK_MAX_SIZE \<or> \<not> canonical (top_addr - STACK_MAX_SIZE)")
    case True
    then have "va_sub X top_addr STACK_MAX_SIZE = None" by (rule va_sub_panics)
    then show ?thesis by (subst fork_place.simps) (auto split: sum.splits prod.splits)
  next
    case False
    then have "va_sub X top_addr STACK_MAX_SIZE = Some (top_addr - STACK_MAX_SIZE)" by (intro va_sub_ok) auto
    moreover have "unat (top_addr - STACK_MAX_SIZE) < unat top_addr"
      using False unat_sub [of STACK_MAX_SIZE top_addr] by (simp add: STACK_MAX_SIZE_eq not_less word_le_nat_alt)
    ultimately show ?thesis
      using less by (subst fork_place.simps) (auto split: sum.splits prod.splits)
  qed
qed

lemma fork_place_ok:
  assumes "pool_inv a" and "unat top_addr + unat u * 4096 < 2 ^ 47"
    and "fork_place X F r top_addr u m a = Some (Inr (t, m', a'))"
  shows "\<exists>j m1 a1 rng. unat t + j * 2 ^ 32 = unat top_addr \<and> pool_inv a1 \<and> free a1 \<subseteq> free a \<and>
    (\<forall>p f. translate_page X m r p = Some f \<longrightarrow> translate_page X m1 r p = Some f) \<and>
    map_range X F r t u True m1 a1 = Inr (Inr rng, m', a')"
  using assms
proof (induction "unat top_addr" arbitrary: top_addr m a rule: less_induct)
  case less
  obtain x m1 a1 where run: "map_range X F r top_addr u True m a = Inr (x, m1, a1)"
    using less.prems(3) by (subst (asm) fork_place.simps) (auto split: sum.splits prod.splits)
  show ?case
  proof (cases x)
    case (Inr rng)
    then have "t = top_addr" "m' = m1" "a' = a1"
      using less.prems(3) run by (auto simp: fork_place.simps [of X F r top_addr u m a])
    then show ?thesis
      using run Inr less.prems(1) by (intro exI [of _ 0] exI [of _ m] exI [of _ a] exI [of _ rng]) auto
  next
    case (Inl e)
    have "va_sub X top_addr STACK_MAX_SIZE \<noteq> None"
      using less.prems(3) run Inl by (auto simp: fork_place.simps [of X F r top_addr u m a] split: option.splits)
    then have "\<not> (top_addr < STACK_MAX_SIZE \<or> \<not> canonical (top_addr - STACK_MAX_SIZE))"
      using va_sub_panics [of top_addr STACK_MAX_SIZE] by metis
    then have sub: "\<not> top_addr < STACK_MAX_SIZE" "canonical (top_addr - STACK_MAX_SIZE)" by simp_all
    then have "va_sub X top_addr STACK_MAX_SIZE = Some (top_addr - STACK_MAX_SIZE)" by (intro va_sub_ok) auto
    then have rest: "fork_place X F r (top_addr - STACK_MAX_SIZE) u m1 a1 = Some (Inr (t, m', a'))"
      using less.prems(3) run Inl by (subst (asm) fork_place.simps) auto
    have un: "unat (top_addr - STACK_MAX_SIZE) + 2 ^ 32 = unat top_addr"
      using sub(1) unat_sub [of STACK_MAX_SIZE top_addr] by (simp add: STACK_MAX_SIZE_eq not_less word_le_nat_alt)
    note keep = map_range_keeps [OF less.prems(1) run]
    have "unat (top_addr - STACK_MAX_SIZE) < unat top_addr" using un by simp
    moreover have "unat (top_addr - STACK_MAX_SIZE) + unat u * 4096 < 2 ^ 47" using un less.prems(2) by linarith
    ultimately obtain j m2 a2 rng where j: "unat t + j * 2 ^ 32 = unat (top_addr - STACK_MAX_SIZE)"
      and rest': "pool_inv a2" "free a2 \<subseteq> free a1" "map_range X F r t u True m2 a2 = Inr (Inr rng, m', a')"
        "\<forall>p f. translate_page X m1 r p = Some f \<longrightarrow> translate_page X m2 r p = Some f"
      using less.hyps [OF _ _ _ rest] keep by blast
    have "unat t + Suc j * 2 ^ 32 = unat top_addr" using j un by simp
    then show ?thesis
      using rest' keep by (intro exI [of _ "Suc j"] exI [of _ m2] exI [of _ a2] exI [of _ rng]) auto
  qed
qed

text \<open>Copying between pages that are mapped to different frames.\<close>

lemma virt_copy_ok:
  assumes src: "is_page src" "unat src + N * 4096 < 2 ^ 64" "length fs = N" "\<forall>f \<in> set fs. is_page f"
      "\<forall>i < N. translate_page X m r (src + of_nat i * 4096) = Some (fs ! i)"
    and dst: "is_page dst" "unat dst + N * 4096 < 2 ^ 64" "length gs = N" "\<forall>f \<in> set gs. is_page f" "distinct gs"
      "\<forall>i < N. translate_page X m r (dst + of_nat i * 4096) = Some (gs ! i)"
    and disj: "set fs \<inter> set gs = {}" and "n \<le> N * 4096"
  shows "\<exists>pm'. virt_copy X r po m src dst n pm = Some pm' \<and>
    (\<forall>k < n. pm' (gs ! (k div 4096) + po + of_nat (k mod 4096)) = pm (fs ! (k div 4096) + po + of_nat (k mod 4096))) \<and>
    (\<forall>g k. is_page g \<longrightarrow> g \<notin> set gs \<longrightarrow> k < 4096 \<longrightarrow> pm' (g + po + of_nat k) = pm (g + po + of_nat k))"
  using assms(13)
proof (induction n)
  case 0
  then show ?case by simp
next
  case (Suc n)
  then obtain pm1 where pm1: "virt_copy X r po m src dst n pm = Some pm1"
    and cp: "\<forall>k < n. pm1 (gs ! (k div 4096) + po + of_nat (k mod 4096)) = pm (fs ! (k div 4096) + po + of_nat (k mod 4096))"
    and oth: "\<forall>g k. is_page g \<longrightarrow> g \<notin> set gs \<longrightarrow> k < 4096 \<longrightarrow> pm1 (g + po + of_nat k) = pm (g + po + of_nat k)"
    by auto
  let ?i = "n div 4096" and ?o = "n mod 4096"
  have i: "?i < N" using Suc.prems by (simp add: div_less_iff_less_mult)
  have "unat src + n < 2 ^ 64" "unat dst + n < 2 ^ 64" using Suc.prems src(2) dst(2) by linarith+
  note sp = page_split [OF src(1) this(1)] page_split [OF dst(1) this(2)]
  let ?b = "pm (fs ! ?i + po + of_nat ?o)"
  let ?a = "gs ! ?i + po + of_nat ?o"
  have fi: "is_page (fs ! ?i)" "fs ! ?i \<notin> set gs" using i src(3,4) disj nth_mem by blast+
  have run: "virt_copy X r po m src dst (Suc n) pm = Some (pm1(?a := ?b))"
    using pm1 sp src(5) dst(6) i oth fi by (simp add: virt_byte_def)
  have gp: "is_page (gs ! i)" if "i < N" for i using dst(3,4) that by auto
  have cp': "(pm1(?a := ?b)) (gs ! (k div 4096) + po + of_nat (k mod 4096)) = pm (fs ! (k div 4096) + po + of_nat (k mod 4096))"
    if "k < Suc n" for k
  proof (cases "k = n")
    case False
    have kN: "k div 4096 < N" using that Suc.prems by (simp add: div_less_iff_less_mult)
    have "gs ! (k div 4096) + po + of_nat (k mod 4096) \<noteq> ?a"
    proof
      assume "gs ! (k div 4096) + po + of_nat (k mod 4096) = ?a"
      then have "gs ! (k div 4096) = gs ! ?i \<and> k mod 4096 = ?o"
        by (intro page_address_inj gp kN i) simp_all
      then have "k div 4096 = ?i \<and> k mod 4096 = ?o" using nth_eq_iff_index_eq [OF dst(5)] kN i dst(3) by blast
      then show False using False by (metis div_mult_mod_eq)
    qed
    then show ?thesis using cp that False by simp
  qed simp
  have oth': "(pm1(?a := ?b)) (g + po + of_nat k) = pm (g + po + of_nat k)"
    if "is_page g" "g \<notin> set gs" "k < 4096" for g k
  proof -
    have "gs ! ?i \<in> set gs" using i dst(3) by simp
    then have "g + po + of_nat k \<noteq> ?a"
      using page_address_inj [OF that(1) gp [OF i] that(3), of ?o po] that(2) by auto
    then show ?thesis using oth that by simp
  qed
  show ?case using run cp' oth' by blast
qed


text \<open>A stack moved down by whole slots.\<close>

lemma stack_shape_move:
  assumes "stack_shape s" and "unat t + j * 2 ^ 32 = unat (st_start s)"
  shows "is_page t" and "unat t + unat (st_usage s) * 4096 < 2 ^ 47" and "range_fits t (st_usage s)"
    and "stack_shape \<lparr>st_start = t, st_end = t + st_usage s * 4096, st_usage = st_usage s\<rparr>"
proof -
  have lim: "unat (st_start s) + unat (st_usage s) * 4096 < 2 ^ 47" and pg: "is_page (st_start s)"
    and us: "0 < unat (st_usage s)"
    and sl: "(unat (st_start s) + unat (st_usage s) * 4096 - 1) div 2 ^ 32 = unat (st_start s) div 2 ^ 32"
    using assms(1) by (simp_all add: stack_shape_def slot_def)
  have "unat t + j * 2 ^ 20 * 4096 = unat (st_start s)" using assms(2) by simp
  then have "(unat t + j * 2 ^ 20 * 4096) mod 4096 = 0" using pg unfolding is_page_iff_mod by metis
  then show pt: "is_page t" unfolding is_page_iff_mod mod_mult_self1 .
  show lt: "unat t + unat (st_usage s) * 4096 < 2 ^ 47" using lim assms(2) by linarith
  then show "range_fits t (st_usage s)" using pt by (intro range_low_fits) (simp add: range_low_def)
  have e: "unat (st_start s) = unat t + j * 2 ^ 32" using assms(2) by simp
  have pos: "0 < unat t + unat (st_usage s) * 4096" using us by simp
  have "unat (st_start s) + unat (st_usage s) * 4096 - 1 = (unat t + unat (st_usage s) * 4096 - 1) + j * 2 ^ 32"
    using e pos by linarith
  then have "(unat t + unat (st_usage s) * 4096 - 1) div 2 ^ 32 + j = unat t div 2 ^ 32 + j"
    using sl unfolding e by (simp only: div_mult_self1 [of "2 ^ 32 :: nat"] add.commute) simp
  then show "stack_shape \<lparr>st_start = t, st_end = t + st_usage s * 4096, st_usage = st_usage s\<rparr>"
    using pt lt us by (simp add: stack_shape_def slot_def)
qed

lemma backed_frames:
  assumes "backed X free r (pages_from v n) m a"
  obtains fs where "length fs = n" and "distinct fs" and "set fs \<inter> free a = {}" and "\<forall>f \<in> set fs. is_page f"
    and "\<forall>i < n. translate_page X m r (v + of_nat i * 4096) = Some (fs ! i)"
proof -
  obtain fs where "distinct fs" "set fs \<inter> free a = {}" "\<forall>f \<in> set fs. is_page f"
    "list_all2 (\<lambda>p f. translate_page X m r p = Some f) (pages_from v n) fs"
    using assms by (auto simp: backed_def)
  then show ?thesis
    by (intro that [of fs]) (auto simp: list_all2_conv_all_nth pages_from_def)
qed

lemma virt_byte_frame:
  assumes "is_page v" and "unat v + n * 4096 < 2 ^ 64" and "k < n * 4096"
    and "\<forall>i < n. translate_page X m r (v + of_nat i * 4096) = Some (fs ! i)"
  shows "virt_byte X r po m pm (v + of_nat k) = Some (pm (fs ! (k div 4096) + po + of_nat (k mod 4096)))"
proof -
  have "k div 4096 < n" using assms(3) by (simp add: div_less_iff_less_mult)
  moreover have "unat v + k < 2 ^ 64" using assms(2,3) by linarith
  ultimately show ?thesis using page_split [OF assms(1)] assms(4) by (simp add: virt_byte_def)
qed


lemma backed_append: "backed X free r (ps @ qs) m a \<Longrightarrow> backed X free r ps m a"
  unfolding backed_def list_all2_append1
  by (elim exE conjE) (intro exI conjI; simp add: Int_Un_distrib2)

text \<open>Copying a backed range onto a backed range that it is disjoint from.\<close>

lemma clone_range_bytes:
  assumes "backed X free r (pages_from dst (unat u) @ pages_from src (unat u)) m' a'"
    and "backed X free r (pages_from src (unat u)) m a"
    and "\<forall>p f. translate_page X m r p = Some f \<longrightarrow> translate_page X m' r p = Some f"
    and "is_page src" and "is_page dst" and "unat src + unat u * 4096 < 2 ^ 47" and "unat dst + unat u * 4096 < 2 ^ 47"
  shows "\<exists>pm'. clone_range X r po m' src dst u pm = Inr pm' \<and> (\<forall>k < unat u * 4096.
     virt_byte X r po m' pm' (dst + of_nat k) = virt_byte X r po m pm (src + of_nat k) \<and>
     virt_byte X r po m' pm' (src + of_nat k) = virt_byte X r po m pm (src + of_nat k))"
proof -
  let ?n = "unat u"
  obtain hs where hs: "distinct hs" "\<forall>f \<in> set hs. is_page f"
    "list_all2 (\<lambda>p f. translate_page X m' r p = Some f) (pages_from dst ?n @ pages_from src ?n) hs"
    using assms(1) by (auto simp: backed_def)
  then obtain gs fs where h: "hs = gs @ fs"
    and gs: "list_all2 (\<lambda>p f. translate_page X m' r p = Some f) (pages_from dst ?n) gs"
    and fs: "list_all2 (\<lambda>p f. translate_page X m' r p = Some f) (pages_from src ?n) fs"
    by (auto simp: list_all2_append1)
  have ix: "length gs = ?n" "length fs = ?n"
    "\<forall>i < ?n. translate_page X m' r (dst + of_nat i * 4096) = Some (gs ! i)"
    "\<forall>i < ?n. translate_page X m' r (src + of_nat i * 4096) = Some (fs ! i)"
    using gs fs by (auto simp: list_all2_conv_all_nth pages_from_def)
  obtain fs0 where fs0: "\<forall>i < ?n. translate_page X m r (src + of_nat i * 4096) = Some (fs0 ! i)"
    by (rule backed_frames [OF assms(2)])
  have old: "\<forall>i < ?n. translate_page X m r (src + of_nat i * 4096) = Some (fs ! i)"
  proof (intro allI impI)
    fix i assume i: "i < ?n"
    then have f: "translate_page X m r (src + of_nat i * 4096) = Some (fs0 ! i)" using fs0 by blast
    then have "translate_page X m' r (src + of_nat i * 4096) = Some (fs0 ! i)" using assms(3) by blast
    then show "translate_page X m r (src + of_nat i * 4096) = Some (fs ! i)" using f ix(4) i by simp
  qed
  have l64: "unat src + ?n * 4096 < 2 ^ 64" "unat dst + ?n * 4096 < 2 ^ 64" using assms(6,7) by simp_all
  have dj: "set fs \<inter> set gs = {}" "\<forall>f \<in> set fs. is_page f" "\<forall>f \<in> set gs. is_page f" "distinct gs"
    using hs(1,2) h by auto
  have sz: "8 * unat (u * 4096 div 8) = ?n * 4096"
  proof -
    have "unat (u * 4096) = ?n * 4096" using l64 by (simp add: unat_word_ariths)
    then show ?thesis by (simp add: unat_div)
  qed
  obtain pm1 where vc: "virt_copy X r po m' src dst (?n * 4096) pm = Some pm1"
    and cp: "\<forall>k < ?n * 4096. pm1 (gs ! (k div 4096) + po + of_nat (k mod 4096)) = pm (fs ! (k div 4096) + po + of_nat (k mod 4096))"
    and oth: "\<forall>g k. is_page g \<longrightarrow> g \<notin> set gs \<longrightarrow> k < 4096 \<longrightarrow> pm1 (g + po + of_nat k) = pm (g + po + of_nat k)"
    using virt_copy_ok [OF assms(4) l64(1) ix(2) dj(2) ix(4) assms(5) l64(2) ix(1) dj(3,4) ix(3) dj(1) order_refl]
    by blast
  have "clone_range X r po m' src dst u pm = Inr pm1" unfolding clone_range_def sz vc by (simp only: expect_eq_Inr_iff)
  moreover have "virt_byte X r po m' pm1 (dst + of_nat k) = virt_byte X r po m pm (src + of_nat k) \<and>
     virt_byte X r po m' pm1 (src + of_nat k) = virt_byte X r po m pm (src + of_nat k)"
    if k: "k < unat u * 4096" for k
  proof -
    have "k div 4096 < ?n" using k by (simp add: div_less_iff_less_mult)
    then have mem: "fs ! (k div 4096) \<in> set fs" unfolding ix(2) [symmetric] by (rule nth_mem)
    have "is_page (fs ! (k div 4096))" using dj(2) mem by (rule bspec)
    moreover have "fs ! (k div 4096) \<notin> set gs" using dj(1) mem by auto
    moreover have "k mod 4096 < 4096" by simp
    ultimately have "pm1 (fs ! (k div 4096) + po + of_nat (k mod 4096)) = pm (fs ! (k div 4096) + po + of_nat (k mod 4096))"
      using oth by blast
    moreover have "pm1 (gs ! (k div 4096) + po + of_nat (k mod 4096)) = pm (fs ! (k div 4096) + po + of_nat (k mod 4096))"
      using cp k by blast
    ultimately show ?thesis
      unfolding virt_byte_frame [OF assms(4) l64(1) k old] virt_byte_frame [OF assms(4) l64(1) k ix(4)]
        virt_byte_frame [OF assms(5) l64(2) k ix(3)]
      by (simp only:)
  qed
  ultimately show ?thesis by blast
qed

lemma page_sub_known:
  assumes "stack_shape s" and "unat cnt * 4096 \<le> unat (st_start s)"
  shows "page_sub X (st_start s) cnt = Some (st_start s - cnt * 4096)"
    and "unat (st_start s - cnt * 4096) = unat (st_start s) - unat cnt * 4096"
proof -
  have pg: "is_page (st_start s)" and lim: "unat (st_start s) + unat (st_usage s) * 4096 < 2 ^ 47"
    using assms(1) by (simp_all add: stack_shape_def)
  have "unat (cnt * 4096) = unat cnt * 4096" using assms(2) lim by (simp add: unat_word_ariths)
  then show un: "unat (st_start s - cnt * 4096) = unat (st_start s) - unat cnt * 4096"
    using assms(2) unat_sub [of "cnt * 4096" "st_start s"] by (simp add: word_le_nat_alt)
  then have "unat (st_start s - cnt * 4096) < 2 ^ 47" using lim by linarith
  then have "canonical (st_start s - cnt * 4096)" unfolding canonical_def by blast
  then show "page_sub X (st_start s) cnt = Some (st_start s - cnt * 4096)" using pg assms(2) by (intro page_sub_ok)
qed

text \<open>A range that was mapped later has frames that were free before, none of them in a backed range.\<close>

lemma map_range_private:
  assumes "pool_inv a2" and "range_fits t u" and "is_page t" and "map_range X F r t u True m2 a2 = Inr (Inr rng, m', a')"
    and bk: "backed X free r (pages_from v n) m a" and "free a2 \<subseteq> free a"
    and keep: "\<forall>p f. translate_page X m r p = Some f \<longrightarrow> translate_page X m2 r p = Some f"
  shows "\<forall>i < unat u. \<exists>f \<in> free a - free a'. translate_page X m' r (t + of_nat i * 4096) = Some f \<and>
    (\<forall>j < n. translate_page X m' r (v + of_nat j * 4096) \<noteq> Some f)"
proof (intro allI impI)
  fix i assume i: "i < unat u"
  have rp: "range_pages t u = pages_from t (unat u)" using assms(3) by (simp add: range_pages_def)
  obtain fs where fs: "length fs = unat u" "set fs \<subseteq> free a2 - free a'"
    "translate_page X m' r = (translate_page X m2 r)(pages_from t (unat u) [\<mapsto>] fs)"
    using map_range_ok [OF assms(2,1)] assms(4) unfolding map_range_def rp by blast
  have "distinct (pages_from t (unat u))"
    using assms(2,3) by (intro distinct_pages_from) (simp add: range_fits_def)
  then have "translate_page X m' r (pages_from t (unat u) ! i) = Some (fs ! i)"
    unfolding fs(3) using fs(1) i by (intro map_upds_nth) simp_all
  moreover have "pages_from t (unat u) ! i = t + of_nat i * 4096" using i by (simp add: pages_from_def)
  ultimately have tr: "translate_page X m' r (t + of_nat i * 4096) = Some (fs ! i)" by simp
  have mem: "fs ! i \<in> free a2 - free a'" using subsetD [OF fs(2) nth_mem [of i fs]] fs(1) i by simp
  moreover have "translate_page X m' r (v + of_nat j * 4096) \<noteq> Some (fs ! i)" if "j < n" for j
  proof -
    obtain gs where gs: "length gs = n" "set gs \<inter> free a = {}"
      "\<forall>j < n. translate_page X m r (v + of_nat j * 4096) = Some (gs ! j)"
      by (rule backed_frames [OF bk])
    then have "translate_page X m r (v + of_nat j * 4096) = Some (gs ! j)" using that by simp
    then have "translate_page X m' r (v + of_nat j * 4096) = Some (gs ! j)"
      using keep map_range_keeps [OF assms(1,4)] by simp
    moreover have "gs ! j \<notin> free a2" using gs(1,2) that assms(6) nth_mem [of j gs] by blast
    ultimately show ?thesis using mem by auto
  qed
  ultimately show "\<exists>f \<in> free a - free a'. translate_page X m' r (t + of_nat i * 4096) = Some f \<and>
    (\<forall>j < n. translate_page X m' r (v + of_nat j * 4096) \<noteq> Some f)"
    using tr assms(6) by (intro bexI [of _ "fs ! i"]) auto
qed

lemma Stack_fork_placed:
  assumes "pool_inv a" and "\<forall>f \<in> free a. is_page f" and "stack_inv X free r s m a"
    and cnt: "unat cnt * 4096 = c * 2 ^ 32" "unat cnt * 4096 \<le> unat (st_start s)"
    and fp: "fork_place X F r (st_start s - cnt * 4096) (st_usage s) m a = Some (Inr (t, m', a'))"
  defines "s' \<equiv> \<lparr>st_start = t, st_end = t + st_usage s * 4096, st_usage = st_usage s\<rparr>"
  shows "\<exists>pm'. Stack_fork X F r po s r cnt m a pm = Some (Inr (s', m', a', pm')) \<and>
    (\<exists>d \<ge> c. unat t + d * 2 ^ 32 = unat (st_start s)) \<and>
    pool_inv a' \<and> free a' \<subseteq> free a \<and> stack_inv X free r s' m' a' \<and> stack_inv X free r s m' a' \<and>
    (\<forall>i < unat (st_usage s). \<exists>f \<in> free a - free a'. translate_page X m' r (t + of_nat i * 4096) = Some f \<and>
       (\<forall>j < unat (st_usage s). translate_page X m' r (st_start s + of_nat j * 4096) \<noteq> Some f)) \<and>
    (\<forall>k < unat (st_usage s) * 4096.
       virt_byte X r po m' pm' (t + of_nat k) = virt_byte X r po m pm (st_start s + of_nat k) \<and>
       virt_byte X r po m' pm' (st_start s + of_nat k) = virt_byte X r po m pm (st_start s + of_nat k))"
proof -
  have sh: "stack_shape s" and bk: "backed X free r (pages_from (st_start s) (unat (st_usage s))) m a"
    using assms(3) by (simp_all add: stack_inv_def)
  have pg: "is_page (st_start s)" and lim: "unat (st_start s) + unat (st_usage s) * 4096 < 2 ^ 47"
    using sh by (simp_all add: stack_shape_def)
  let ?u = "st_usage s" and ?n = "unat (st_usage s)" and ?first = "st_start s - cnt * 4096"
  note ps = page_sub_known [OF sh cnt(2)]
  have first: "unat ?first + c * 2 ^ 32 = unat (st_start s)" using ps(2) cnt by simp
  have "unat ?first + ?n * 4096 < 2 ^ 47" using first lim by linarith
  from fork_place_ok [OF assms(1) this fp] obtain j m2 a2 rng where
    j: "unat t + j * 2 ^ 32 = unat ?first" and a2: "pool_inv a2" "free a2 \<subseteq> free a"
    and keep: "\<forall>p f. translate_page X m r p = Some f \<longrightarrow> translate_page X m2 r p = Some f"
    and mr: "map_range X F r t ?u True m2 a2 = Inr (Inr rng, m', a')"
    by blast
  have d: "unat t + (j + c) * 2 ^ 32 = unat (st_start s)" using j first by (simp add: algebra_simps)
  note mv = stack_shape_move [OF sh d]
  have "unat (t + of_nat ?n * 4096) = unat t + ?n * 4096" using mv(2) by (intro unat_page_offset) simp
  then have pa: "page_add X t ?u = Some (t + ?u * 4096)"
    using mv(1,2) by (intro page_add_ok) (simp_all add: canonical_def)
  have "\<forall>f \<in> free a2. is_page f" using assms(2) a2(2) by blast
  from map_range_extends [OF a2(1) this mv(3) mr backed_keeps [OF bk a2(2) keep]]
  have both: "backed X free r (pages_from t ?n @ pages_from (st_start s) ?n) m' a'"
    using mv(1) by (simp add: range_pages_def)
  have keep': "\<forall>p f. translate_page X m r p = Some f \<longrightarrow> translate_page X m' r p = Some f"
    and a': "pool_inv a'" "free a' \<subseteq> free a"
    using map_range_keeps [OF a2(1) mr] keep a2(2) by blast+
  obtain pm' where cl: "clone_range X r po m' (st_start s) t ?u pm = Inr pm'" and cp: "\<forall>k < ?n * 4096.
       virt_byte X r po m' pm' (t + of_nat k) = virt_byte X r po m pm (st_start s + of_nat k) \<and>
       virt_byte X r po m' pm' (st_start s + of_nat k) = virt_byte X r po m pm (st_start s + of_nat k)"
    using clone_range_bytes [OF both bk keep' pg mv(1) lim mv(2)] by blast
  have "Stack_fork X F r po s r cnt m a pm = Some (Inr (s', m', a', pm'))"
    using ps(1) fp cl pa mv(1) by (simp add: Stack_fork_def page_containing_eq s'_def)
  moreover have "stack_inv X free r s' m' a' \<and> stack_inv X free r s m' a'"
    using mv(4) sh backed_keeps [OF bk a'(2) keep'] backed_append [OF both] by (simp add: stack_inv_def s'_def)
  moreover note map_range_private [OF a2(1) mv(3,1) mr bk a2(2) keep]
  ultimately show ?thesis using d cp a' le_add2 [of c j] by blast
qed

text \<open>The copy itself never faults.\<close>

lemma fork_place_panics: "fork_place X F r top_addr u m a = Some (Inl p) \<Longrightarrow> p = Address_panic"
proof (induction "unat top_addr" arbitrary: top_addr m a rule: less_induct)
  case less
  have mr: "map_range X F r top_addr u True m a = Inl q \<Longrightarrow> q = Address_panic" for q
    by (auto simp: map_range_def map_range_with_def expect_def rbind_def Let_def
        split: option.splits sum.splits prod.splits)
  show ?case
  proof (cases "top_addr < STACK_MAX_SIZE \<or> \<not> canonical (top_addr - STACK_MAX_SIZE)")
    case True
    then have "va_sub X top_addr STACK_MAX_SIZE = None" by (rule va_sub_panics)
    then show ?thesis
      using less.prems mr by (auto simp: fork_place.simps [of X F r top_addr u m a] split: sum.splits prod.splits)
  next
    case False
    then have "va_sub X top_addr STACK_MAX_SIZE = Some (top_addr - STACK_MAX_SIZE)" by (intro va_sub_ok) auto
    moreover have "unat (top_addr - STACK_MAX_SIZE) < unat top_addr"
      using False unat_sub [of STACK_MAX_SIZE top_addr] by (simp add: STACK_MAX_SIZE_eq not_less word_le_nat_alt)
    ultimately show ?thesis
      using less mr by (auto simp: fork_place.simps [of X F r top_addr u m a] split: sum.splits prod.splits)
  qed
qed


end

context paging_total
begin

lemma grow_stack_succeeds:
  assumes "stack_shape s" and "slot addr = slot (st_start s)" and "addr < st_start s" and "pool_inv a"
    and "\<not> map_blocked X free huge r (pages_from (align_down addr) ((unat (st_start s) - unat (align_down addr)) div 4096)) m a"
  shows "\<exists>s' m' a'. grow_stack X F r s addr m a = Inr (Inr (), s', m', a')"
proof -
  note g = stack_shape_grow [OF assms(1-3)]
  let ?q = "align_down addr" and ?d = "(st_start s - align_down addr) div 4096"
  have "unat (st_start s) - unat ?q = unat ?d * 4096" using g(2) by simp
  then have "range_pages ?q ?d = pages_from ?q ((unat (st_start s) - unat ?q) div 4096)" by (simp add: range_pages_def)
  then obtain rng m' a' where "map_range X F r ?q ?d True m a = Inr (Inr rng, m', a')"
    using map_range_succeeds [OF g(4) assms(4)] assms(5) by metis
  then show ?thesis using g(3) by (cases rng) (simp add: grow_stack_def page_containing_eq Let_def)
qed

lemma fork_place_first:
  assumes "range_fits t u" and "is_page t" and "pool_inv a" and "\<not> map_blocked X free huge r (pages_from t (unat u)) m a"
  shows "\<exists>m' a'. fork_place X F r t u m a = Some (Inr (t, m', a'))"
proof -
  have "range_pages t u = pages_from t (unat u)" using assms(2) by (simp add: range_pages_def)
  then obtain rng m' a' where "map_range X F r t u True m a = Inr (Inr rng, m', a')"
    using map_range_succeeds [OF assms(1,3)] assms(4) by metis
  then show ?thesis by (subst fork_place.simps) simp
qed

lemma Stack_fork_total:
  assumes "pool_inv a" and "\<forall>f \<in> free a. is_page f" and "stack_inv X free r s m a"
    and "unat cnt * 4096 = c * 2 ^ 32" and "unat cnt * 4096 \<le> unat (st_start s)"
  defines "blocked \<equiv> map_blocked X free huge r (pages_from (st_start s - cnt * 4096) (unat (st_usage s))) m a"
  shows "blocked \<and> Stack_fork X F r po s r cnt m a pm = Some (Inl Address_panic) \<or>
    (\<exists>s' m' a' pm' d. Stack_fork X F r po s r cnt m a pm = Some (Inr (s', m', a', pm')) \<and>
      st_usage s' = st_usage s \<and> unat (st_start s') + d * 2 ^ 32 = unat (st_start s) \<and> c \<le> d \<and> (blocked \<or> d = c) \<and>
      pool_inv a' \<and> free a' \<subseteq> free a \<and> stack_inv X free r s' m' a' \<and> stack_inv X free r s m' a' \<and>
      (\<forall>i < unat (st_usage s). \<exists>f \<in> free a - free a'. translate_page X m' r (st_start s' + of_nat i * 4096) = Some f \<and>
         (\<forall>j < unat (st_usage s). translate_page X m' r (st_start s + of_nat j * 4096) \<noteq> Some f)) \<and>
        (\<forall>k < unat (st_usage s) * 4096.
         virt_byte X r po m' pm' (st_start s' + of_nat k) = virt_byte X r po m pm (st_start s + of_nat k) \<and>
         virt_byte X r po m' pm' (st_start s + of_nat k) = virt_byte X r po m pm (st_start s + of_nat k)))"
proof -
  let ?t = "st_start s - cnt * 4096"
  have sh: "stack_shape s" using assms(3) by (simp add: stack_inv_def)
  note ps = page_sub_known [OF sh assms(5)]
  have first: "unat ?t + c * 2 ^ 32 = unat (st_start s)" using ps(2) assms(4,5) by simp
  note mv = stack_shape_move [OF sh first]
  obtain y where y: "fork_place X F r ?t (st_usage s) m a = Some y"
    using fork_place_terminates by blast
  have free_place: "blocked \<or> (\<exists>m' a'. y = Inr (?t, m', a'))"
    using fork_place_first [OF mv(3,1) assms(1), of r m] y unfolding blocked_def by auto
  show ?thesis
  proof (cases y)
    case (Inl p)
    then have "p = Address_panic" using fork_place_panics y by blast
    then show ?thesis using y Inl ps free_place by (auto simp: Stack_fork_def split: option.splits)
  next
    case (Inr z)
    obtain t m' a' where z: "z = (t, m', a')" by (cases z) auto
    note f = Stack_fork_placed [OF assms(1-5) y [unfolded Inr z], of po pm]
    then obtain d where d: "c \<le> d" "unat t + d * 2 ^ 32 = unat (st_start s)" by blast
    have "blocked \<or> d = c" using free_place Inr z d(2) first by auto
    with f d show ?thesis by (intro disjI2) force
  qed
qed

end


section \<open>Properties\<close>

text \<open>C12. A page fault in the stack's slot below the mapped part grows the stack. The handler does not
  panic. It reports success whenever the pages from the faulting address up to the stack are neither mapped nor part of
  a huge page and four free frames are left for each of them, one for the page and three for new page tables; then
  the invariant holds again for the stack that starts at the page of the faulting address and ends where it ended.
  When it reports failure, one of these conditions was violated and the recorded stack is unchanged. A fault
  outside the slot changes nothing at all.\<close>

theorem stack_fault_grows:
  assumes "paging_total X F free pool_inv huge" and "pool_inv a" and "\<forall>f \<in> free a. is_page f"
    and "stack_inv X free r s m a"
  shows "(slot addr \<noteq> slot (st_start s) \<longrightarrow> Stack_handle_page_fault X F r s addr m a = Inr (False, s, m, a)) \<and>
    (slot addr = slot (st_start s) \<and> addr < st_start s \<longrightarrow>
      (\<exists>ok s' m' a'. Stack_handle_page_fault X F r s addr m a = Inr (ok, s', m', a') \<and>
        (if ok then stack_inv X free r s' m' a' \<and> st_start s' = align_down addr \<and> st_end s' = st_end s \<and>
           unat (st_start s) = unat (align_down addr) + (unat (st_usage s') - unat (st_usage s)) * 4096
         else s' = s \<and> map_blocked X free huge r
           (pages_from (align_down addr) ((unat (st_start s) - unat (align_down addr)) div 4096)) m a)))"
proof (intro conjI impI)
  assume "slot addr \<noteq> slot (st_start s)"
  then show "Stack_handle_page_fault X F r s addr m a = Inr (False, s, m, a)"
    by (simp add: Stack_handle_page_fault_def is_on_stack_iff)
next
  assume on: "slot addr = slot (st_start s) \<and> addr < st_start s"
  have pg: "paging X F free pool_inv" using assms(1) by (simp add: paging_total_def)
  have sh: "stack_shape s" using assms(4) by (simp add: stack_inv_def)
  obtain x s' m' a' where g: "grow_stack X F r s addr m a = Inr (x, s', m', a')" "\<forall>e. x = Inl e \<longrightarrow> s' = s"
    using paging.grow_stack_total [OF pg sh] on by metis
  show "\<exists>ok s' m' a'. Stack_handle_page_fault X F r s addr m a = Inr (ok, s', m', a') \<and>
        (if ok then stack_inv X free r s' m' a' \<and> st_start s' = align_down addr \<and> st_end s' = st_end s \<and>
           unat (st_start s) = unat (align_down addr) + (unat (st_usage s') - unat (st_usage s)) * 4096
         else s' = s \<and> map_blocked X free huge r
           (pages_from (align_down addr) ((unat (st_start s) - unat (align_down addr)) div 4096)) m a)"
  proof (cases x)
    case (Inl e)
    then show ?thesis
      using g on paging_total.grow_stack_succeeds [OF assms(1) sh conjunct1 [OF on] conjunct2 [OF on] assms(2), of r m]
      by (auto simp: Stack_handle_page_fault_def is_on_stack_iff)
  next
    case (Inr u)
    then show ?thesis
      using paging.grow_stack_ok [OF pg assms(2-4) conjunct1 [OF on] conjunct2 [OF on]] g on
      by (auto simp: Stack_handle_page_fault_def is_on_stack_iff)
  qed
qed

abbreviation wit_stack :: Stack where
  "wit_stack \<equiv> \<lparr>st_start = 0x3FFFFFFFF000, st_end = 0x400000000000, st_usage = 1\<rparr>"

abbreviation wit_tables :: ref_tables where
  "wit_tables \<equiv> (\<lambda>_ _. None)(0 := [0x3FFFFFFFF000 \<mapsto> 0x9000])"

lemma wit_stack_inv: "stack_inv kx86 bi_free 0 wit_stack wit_tables wit_alloc"
  by (auto simp: stack_inv_def stack_shape_def is_page_def slot_def backed_def x86_ref_def bi_free_def
      pages_from_def upt_rec list_all2_Cons1)

lemma wit_alloc_ok: "bi_inv wit_alloc" "\<forall>f \<in> bi_free wit_alloc. is_page f"
  by (simp_all add: bi_inv_def bi_free_def is_page_def)

abbreviation wit_alloc8 :: BootInfoFrameAllocator where
  "wit_alloc8 \<equiv> \<lparr>fa_size = 8, fa_used = 0,
     fa_frames = [0x1000, 0x2000, 0x3000, 0x4000, 0x5000, 0x6000, 0x7000, 0x8000], fa_recycled = []\<rparr>"

lemma wit_alloc8_ok: "bi_inv wit_alloc8" "\<forall>f \<in> bi_free wit_alloc8. is_page f" "card (bi_free wit_alloc8) = 8"
  by (simp_all add: bi_inv_def bi_free_def is_page_def)

lemma wit_stack_inv8: "stack_inv kx86 bi_free 0 wit_stack wit_tables wit_alloc8"
  by (auto simp: stack_inv_def stack_shape_def is_page_def slot_def backed_def x86_ref_def bi_free_def
      pages_from_def upt_rec list_all2_Cons1)

theorem stack_fault_grows_witness:
  "\<exists>s' m' a'. Stack_handle_page_fault kx86 boot_info_alloc 0 wit_stack 0x3FFFFFFFDFF8 wit_tables wit_alloc8 =
     Inr (True, s', m', a') \<and> st_start s' = 0x3FFFFFFFD000 \<and> stack_inv kx86 bi_free 0 s' m' a'"
proof -
  have at: "slot 0x3FFFFFFFDFF8 = slot (st_start wit_stack) \<and> 0x3FFFFFFFDFF8 < st_start wit_stack"
    "align_down 0x3FFFFFFFDFF8 = 0x3FFFFFFFD000"
    by (simp_all add: slot_def align_down_def)
  have "\<not> map_blocked kx86 bi_free no_huge 0
      (pages_from (align_down 0x3FFFFFFFDFF8) ((unat (st_start wit_stack) - unat (align_down 0x3FFFFFFFDFF8)) div 4096)) wit_tables wit_alloc8"
    using wit_alloc8_ok(3) by (simp add: at(2) map_blocked_def x86_ref_def pages_from_def upt_rec)
  with stack_fault_grows [OF kpaging_total.paging_total_axioms wit_alloc8_ok(1,2) wit_stack_inv8, of "0x3FFFFFFFDFF8"] at
  show ?thesis by (auto split: if_splits)
qed

text \<open>C11. \<^verbatim>\<open>fork\<close> gives the child a private copy of the stack. The search for a place always ends. It
  ends in a panic, because the address space is exhausted, only if the place asked for was blocked: one of its pages
  was mapped or part of a huge page, or fewer than four free frames were left per page. Otherwise the child gets a stack
  of the same size that lies a whole number of 4 GiB slots below the parent's, at least as many as asked for and exactly as
  many if the place was not blocked. Both stacks satisfy the invariant afterwards. Every page of the child's stack is
  mapped to a frame that was free before and is not the frame of any page of the parent's stack, every byte of it equals
  the parent's byte at the same offset, and the parent's bytes are unchanged.\<close>

theorem fork_copies_stack:
  assumes "paging_total X F free pool_inv huge" and "pool_inv a" and "\<forall>f \<in> free a. is_page f"
    and "stack_inv X free r s m a" and "unat cnt * 4096 = c * 2 ^ 32" and "unat cnt * 4096 \<le> unat (st_start s)"
    and "blocked = map_blocked X free huge r (pages_from (st_start s - cnt * 4096) (unat (st_usage s))) m a"
  shows "blocked \<and> Stack_fork X F r po s r cnt m a pm = Some (Inl Address_panic) \<or>
    (\<exists>s' m' a' pm' d. Stack_fork X F r po s r cnt m a pm = Some (Inr (s', m', a', pm')) \<and>
      st_usage s' = st_usage s \<and> unat (st_start s') + d * 2 ^ 32 = unat (st_start s) \<and> c \<le> d \<and> (blocked \<or> d = c) \<and>
      pool_inv a' \<and> free a' \<subseteq> free a \<and> stack_inv X free r s' m' a' \<and> stack_inv X free r s m' a' \<and>
      (\<forall>i < unat (st_usage s). \<exists>f \<in> free a - free a'. translate_page X m' r (st_start s' + of_nat i * 4096) = Some f \<and>
         (\<forall>j < unat (st_usage s). translate_page X m' r (st_start s + of_nat j * 4096) \<noteq> Some f)) \<and>
        (\<forall>k < unat (st_usage s) * 4096.
         virt_byte X r po m' pm' (st_start s' + of_nat k) = virt_byte X r po m pm (st_start s + of_nat k) \<and>
         virt_byte X r po m' pm' (st_start s + of_nat k) = virt_byte X r po m pm (st_start s + of_nat k)))"
  using paging_total.Stack_fork_total [OF assms(1-6)] assms(7) by blast

theorem fork_copies_stack_witness:
  "\<exists>s' m' a' pm'. Stack_fork kx86 boot_info_alloc 0 0 wit_stack 0 0x100000 wit_tables wit_alloc8 (\<lambda>_. 7) =
      Some (Inr (s', m', a', pm')) \<and> unat (st_start s') = 0x3FFEFFFFF000 \<and>
      virt_byte kx86 0 0 m' pm' (st_start s' + 5) = Some 7 \<and>
      translate_page kx86 m' 0 (st_start s') \<noteq> translate_page kx86 m' 0 (st_start wit_stack)"
proof -
  let ?fork = "Stack_fork kx86 boot_info_alloc 0 0 wit_stack 0 0x100000 wit_tables wit_alloc8 (\<lambda>_. 7)"
  have cnt: "unat (0x100000 :: u64) * 4096 = 1 * 2 ^ 32" "unat (0x100000 :: u64) * 4096 \<le> unat (st_start wit_stack)"
    by simp_all
  have "\<not> map_blocked kx86 bi_free no_huge 0 (pages_from (st_start wit_stack - 0x100000 * 4096) (unat (st_usage wit_stack))) wit_tables wit_alloc8"
    using wit_alloc8_ok(3) by (simp add: map_blocked_def x86_ref_def pages_from_def upt_rec)
  with fork_copies_stack [OF kpaging_total.paging_total_axioms wit_alloc8_ok(1,2) wit_stack_inv8 cnt refl, of 0 "\<lambda>_. 7"]
  obtain s' m' a' pm' where run: "?fork = Some (Inr (s', m', a', pm'))"
    and at: "unat (st_start s') + 1 * 2 ^ 32 = unat (st_start wit_stack)"
    and pr: "\<forall>i < unat (st_usage wit_stack). \<exists>f \<in> bi_free wit_alloc8 - bi_free a'. translate_page kx86 m' 0 (st_start s' + of_nat i * 4096) = Some f \<and>
       (\<forall>j < unat (st_usage wit_stack). translate_page kx86 m' 0 (st_start wit_stack + of_nat j * 4096) \<noteq> Some f)"
    and cp: "\<forall>k < unat (st_usage wit_stack) * 4096. virt_byte kx86 0 0 m' pm' (st_start s' + of_nat k) =
        virt_byte kx86 0 0 wit_tables (\<lambda>_. 7) (st_start wit_stack + of_nat k)"
    by blast
  have old: "virt_byte kx86 0 0 wit_tables (\<lambda>_. 7) (st_start wit_stack + of_nat 5) = Some 7"
    by (simp add: virt_byte_def x86_ref_def align_down_def)
  have "virt_byte kx86 0 0 m' pm' (st_start s' + of_nat 5) = Some 7"
    using cp [rule_format, of 5] old by simp
  moreover have "translate_page kx86 m' 0 (st_start s') \<noteq> translate_page kx86 m' 0 (st_start wit_stack)"
    using pr [rule_format, of 0] by auto
  moreover have "unat (st_start s') = 0x3FFEFFFFF000" using at by simp
  ultimately show ?thesis using run by auto
qed

end
