(* ===== verification/Heap.thy ===== *)
theory Heap
  imports Stack
begin

text \<open>
  The user heap of a process (\<^verbatim>\<open>kernel/src/proc/vm/heap.rs\<close>): the \<^verbatim>\<open>brk\<close> operation and its clean-up.
  The end of the heap is an \<^verbatim>\<open>Arc<AtomicU64>\<close> that forked processes share; it is a cell of a store
  here, named by a number. Interrupts are off during a system call and there is one processor, so
  the relaxed loads and stores are plain reads and writes.
\<close>

definition HEAP_START :: u64 where
  "HEAP_START = 0x200000000000"

definition HEAP_PAGES :: u64 where
  "HEAP_PAGES = 0x100000"

definition HEAP_SIZE :: u64 where
  "HEAP_SIZE = HEAP_PAGES * PAGE_SIZE"

definition HEAP_END :: u64 where
  "HEAP_END = HEAP_START + HEAP_SIZE - 8"

lemmas heap_consts = HEAP_START_def HEAP_PAGES_def HEAP_SIZE_def HEAP_END_def PAGE_SIZE_def

record Heap =
  hp_base :: u64
  hp_end :: nat

text \<open>The cells: their contents and the next unused name.\<close>

record cells =
  cell_val :: "nat \<Rightarrow> u64"
  cell_next :: nat

definition Heap_empty :: "cells \<Rightarrow> Heap \<times> cells" where
  "Heap_empty c =
     (\<lparr>hp_base = HEAP_START, hp_end = cell_next c\<rparr>,
      \<lparr>cell_val = (cell_val c)(cell_next c := HEAP_START), cell_next = Suc (cell_next c)\<rparr>)"

definition Heap_fork :: "Heap \<Rightarrow> Heap" where
  "Heap_fork h = \<lparr>hp_base = hp_base h, hp_end = hp_end h\<rparr>"

definition Heap_memory_usage :: "Heap \<Rightarrow> cells \<Rightarrow> u64" where
  "Heap_memory_usage h c = cell_val c (hp_end h) - hp_base h"

definition store_end :: "Heap \<Rightarrow> u64 \<Rightarrow> cells \<Rightarrow> cells" where
  "store_end h v c = c\<lparr>cell_val := (cell_val c)(hp_end h := v)\<rparr>"

text \<open>\<^verbatim>\<open>brk\<close>. \<open>user_access\<close> is \<^verbatim>\<open>processor::get_pid() != KERNEL_PID\<close>. The page after a heap end is
  computed as in the source: the page that contains the address, plus one unless the address is the
  base. The sign of the 64-bit difference decides between mapping and unmapping.\<close>

definition end_page :: "'z addr_ops_scheme \<Rightarrow> Heap \<Rightarrow> u64 \<Rightarrow> page res" where
  "end_page X h addr =
     (if addr \<noteq> hp_base h then expect Address_panic (page_add X (page_containing X addr) 1)
      else Inr (page_containing X addr))"

definition Heap_brk :: "('m, 'a) x86_64 \<Rightarrow> 'a frame_allocator \<Rightarrow> frame \<Rightarrow> Processor \<Rightarrow> Heap \<Rightarrow> u64 option \<Rightarrow>
    cells \<Rightarrow> 'm \<Rightarrow> 'a \<Rightarrow> (u64 option \<times> cells \<times> 'm \<times> 'a) res" where
  "Heap_brk X F r cpu h new_end c m a =
     (case new_end of
        None \<Rightarrow> rbind (expect Address_panic (va_new X (cell_val c (hp_end h)))) (\<lambda>v. Inr (Some v, c, m, a))
      | Some new_end \<Rightarrow>
          if new_end < HEAP_START \<or> new_end > HEAP_END then Inr (None, c, m, a)
          else
            rbind (end_page X h new_end) (\<lambda>new_end_page.
            rbind (get_pid cpu) (\<lambda>pid.
            let user_access = (pid \<noteq> KERNEL_PID);
                current_end = cell_val c (hp_end h)
            in rbind (expect Address_panic (va_new X current_end)) (\<lambda>_.
               rbind (end_page X h current_end) (\<lambda>current_end_page.
               let difference = new_end - current_end
               in if 0 <s difference then
                    rbind (map_range X F r current_end_page ((new_end_page - current_end_page) div PAGE_SIZE)
                             user_access m a) (\<lambda>(res, m', a').
                      case res of
                        Inr _ \<Rightarrow> Inr (Some new_end, store_end h new_end c, m', a')
                      | Inl _ \<Rightarrow> Inr (None, c, m', a'))
                  else if difference <s 0 then
                    (case unmap_range X F r (new_end_page, current_end_page) user_access m a of
                       (Inr _, m', a') \<Rightarrow> Inr (Some new_end, store_end h new_end c, m', a')
                     | (Inl _, m', a') \<Rightarrow> Inr (None, c, m', a'))
                  else Inr (Some new_end, store_end h new_end c, m, a))))))"

definition Heap_clean_up :: "('m, 'a) x86_64 \<Rightarrow> 'a frame_allocator \<Rightarrow> frame \<Rightarrow> Heap \<Rightarrow>
    cells \<Rightarrow> 'm \<Rightarrow> 'a \<Rightarrow> ((unmap_error + unit) \<times> cells \<times> 'm \<times> 'a) res" where
  "Heap_clean_up X F r h c m a =
     (if Heap_memory_usage h c = 0 then Inr (Inr (), c, m, a)
      else
        (let last = cell_val c (hp_end h);
             c' = store_end h HEAP_START c
         in rbind (expect Address_panic (va_new X HEAP_START)) (\<lambda>first.
            rbind (expect Address_panic (va_new X last)) (\<lambda>last.
              case unmap_range X F r (page_containing X first, page_containing X last) True m a of
                (x, m', a') \<Rightarrow> Inr (x, c', m', a')))))"

section \<open>Signed differences\<close>

lemma sint_low: "unat (a :: u64) < 2 ^ 63 \<Longrightarrow> sint a = int (unat a)"
proof -
  assume "unat a < 2 ^ 63"
  then have "uint a < 2 ^ 63" unfolding uint_nat by (simp del: of_nat_unat)
  then show ?thesis unfolding sint_uint by (simp add: signed_take_bit_int_eq_self order_trans [OF _ uint_ge_0])
qed

lemma signed_difference:
  assumes "unat (a :: u64) < 2 ^ 47" and "unat b < 2 ^ 47"
  shows "0 <s a - b \<longleftrightarrow> b < a" and "a - b <s 0 \<longleftrightarrow> a < b"
proof -
  obtain i j where i: "unat a = i" and j: "unat b = j" by blast
  have s: "sint a = int i" "sint b = int j" using assms i j by (simp_all add: sint_low del: of_nat_unat)
  have "sint (a - b) = int i - int j"
    unfolding sint_word_ariths(2) s using assms i j by (intro signed_take_bit_int_eq_self) simp_all
  then show "0 <s a - b \<longleftrightarrow> b < a" and "a - b <s 0 \<longleftrightarrow> a < b"
    using i j by (simp_all add: word_sless_alt word_less_nat_alt)
qed

section \<open>The invariant\<close>

text \<open>Number of pages that a heap with the given end has.\<close>

definition heap_pages :: "u64 \<Rightarrow> nat" where
  "heap_pages e = (if e = HEAP_START then 0 else Suc (unat (e - HEAP_START) div 4096))"

definition heap_end_ok :: "u64 \<Rightarrow> bool" where
  "heap_end_ok e \<longleftrightarrow> HEAP_START \<le> e \<and> e \<le> HEAP_END"

text \<open>The pages up to the end are mapped to frames of their own, the rest of the region and the page
  after it are not mapped.\<close>

definition heap_inv :: "('m, 'a) x86_64 \<Rightarrow> ('a \<Rightarrow> frame set) \<Rightarrow> frame \<Rightarrow> Heap \<Rightarrow> cells \<Rightarrow> 'm \<Rightarrow> 'a \<Rightarrow> bool" where
  "heap_inv X free r h c m a \<longleftrightarrow> hp_base h = HEAP_START \<and> heap_end_ok (cell_val c (hp_end h)) \<and>
     backed X free r (pages_from HEAP_START (heap_pages (cell_val c (hp_end h)))) m a \<and>
     (\<forall>i. heap_pages (cell_val c (hp_end h)) \<le> i \<longrightarrow> i \<le> 2 ^ 20 \<longrightarrow>
        translate_page X m r (HEAP_START + of_nat i * 4096) = None)"

lemma heap_end_unat:
  assumes "heap_end_ok e"
  shows "0x200000000000 \<le> unat e" and "unat e \<le> 0x2000FFFFFFF8" and "unat (e - HEAP_START) = unat e - 0x200000000000"
    and "heap_pages e \<le> 2 ^ 20" and "e \<noteq> HEAP_START \<Longrightarrow> 0x200000000000 < unat e"
proof -
  have h: "unat HEAP_START = 0x200000000000" "unat HEAP_END = 0x2000FFFFFFF8" by (simp_all add: heap_consts)
  show l: "0x200000000000 \<le> unat e" and u: "unat e \<le> 0x2000FFFFFFF8"
    using assms unfolding heap_end_ok_def word_le_nat_alt h by simp_all
  show d: "unat (e - HEAP_START) = unat e - 0x200000000000"
    using assms unat_sub [of HEAP_START e] h by (simp add: heap_end_ok_def)
  have "unat (e - HEAP_START) div 4096 \<le> 0xFFFFFFF8 div 4096" using u d by (intro div_le_mono) linarith
  then show "heap_pages e \<le> 2 ^ 20" by (simp add: heap_pages_def)
  show "e \<noteq> HEAP_START \<Longrightarrow> 0x200000000000 < unat e"
    using l h(1) by (metis le_neq_implies_less word_unat_eq_iff)
qed

lemma heap_pages_mono: "heap_end_ok d \<Longrightarrow> heap_end_ok e \<Longrightarrow> d \<le> e \<Longrightarrow> heap_pages d \<le> heap_pages e"
proof -
  assume d: "heap_end_ok d" and e: "heap_end_ok e" and le: "d \<le> e"
  show ?thesis
  proof (cases "d = HEAP_START")
    case False
    have "e \<noteq> HEAP_START" using False le d by (auto simp: heap_end_ok_def)
    moreover have "unat (d - HEAP_START) div 4096 \<le> unat (e - HEAP_START) div 4096"
      unfolding heap_end_unat(3) [OF d] heap_end_unat(3) [OF e] using le by (intro div_le_mono) (simp add: word_le_nat_alt)
    ultimately show ?thesis using False by (simp add: heap_pages_def)
  qed (simp add: heap_pages_def)
qed

context x86_addresses
begin

lemma end_page_eq:
  assumes "hp_base h = HEAP_START" and "heap_end_ok e"
  shows "end_page X h e = Inr (HEAP_START + of_nat (heap_pages e) * 4096)"
proof (cases "e = HEAP_START")
  case True
  then show ?thesis by (simp add: end_page_def assms heap_pages_def page_containing_eq is_page_def heap_consts)
next
  case False
  let ?i = "unat (e - HEAP_START) div 4096"
  have hs: "is_page HEAP_START" "unat HEAP_START = 0x200000000000" by (simp_all add: is_page_def heap_consts)
  note u = heap_end_unat [OF assms(2)]
  have "unat HEAP_START + unat (e - HEAP_START) < 2 ^ 64" unfolding hs(2) u(3) using u(1,2) by simp
  from page_split(1) [OF hs(1) this] have ad: "align_down e = HEAP_START + of_nat ?i * 4096" by simp
  have i: "Suc ?i = heap_pages e" using False by (simp add: heap_pages_def)
  have n: "HEAP_START + of_nat ?i * 4096 + 1 * 4096 = HEAP_START + of_nat (heap_pages e) * 4096"
    unfolding i [symmetric] of_nat_Suc by (simp add: algebra_simps)
  have lim: "unat HEAP_START + heap_pages e * 4096 < 2 ^ 64" using u(4) hs(2) by simp
  then have un: "unat (HEAP_START + of_nat (heap_pages e) * 4096) = unat HEAP_START + heap_pages e * 4096"
    by (rule unat_page_offset)
  have "unat (HEAP_START + of_nat ?i * 4096) = unat HEAP_START + ?i * 4096"
    using lim unfolding i [symmetric] by (intro unat_page_offset) simp
  then have "page_add X (HEAP_START + of_nat ?i * 4096) 1 = Some (HEAP_START + of_nat (heap_pages e) * 4096)"
    using page_add_ok [OF is_page_of_nat [OF hs(1)], of ?i 1] un u(4) hs(2) i unfolding n
    by (simp add: canonical_def)
  then show ?thesis using False ad by (simp add: end_page_def assms page_containing_eq)
qed


end

lemma heap_pages_pages:
  assumes "heap_end_ok d" and "heap_end_ok e" and "heap_pages d \<le> heap_pages e"
  defines "p \<equiv> HEAP_START + of_nat (heap_pages d) * 4096" and "q \<equiv> HEAP_START + of_nat (heap_pages e) * 4096"
  shows "unat ((q - p) div PAGE_SIZE) = heap_pages e - heap_pages d" and "is_page p"
    and "range_fits p ((q - p) div PAGE_SIZE)"
proof -
  have hs: "is_page HEAP_START" "unat HEAP_START = 0x200000000000" by (simp_all add: is_page_def heap_consts)
  have lim: "unat HEAP_START + heap_pages d * 4096 < 2 ^ 64" "unat HEAP_START + heap_pages e * 4096 < 2 ^ 64"
    using heap_end_unat(4) [OF assms(1)] heap_end_unat(4) [OF assms(2)] hs(2) by simp_all
  have un: "unat p = 0x200000000000 + heap_pages d * 4096" "unat q = 0x200000000000 + heap_pages e * 4096"
    unfolding p_def q_def unat_page_offset [OF lim(1)] unat_page_offset [OF lim(2)] hs(2) by simp_all
  have "unat (q - p) = unat q - unat p" using assms(3) un by (intro unat_sub) (simp add: word_le_nat_alt)
  then have "unat (q - p) = (heap_pages e - heap_pages d) * 4096" using un by (simp add: diff_mult_distrib)
  then show n: "unat ((q - p) div PAGE_SIZE) = heap_pages e - heap_pages d" by (simp add: unat_div PAGE_SIZE_def)
  show pg: "is_page p" unfolding p_def by (rule is_page_of_nat [OF hs(1)])
  have "unat p + unat ((q - p) div PAGE_SIZE) * 4096 < 2 ^ 47"
    unfolding n un using heap_end_unat(4) [OF assms(2)] assms(3) by (simp add: diff_mult_distrib)
  then show "range_fits p ((q - p) div PAGE_SIZE)" using pg by (intro range_low_fits) (simp add: range_low_def)
qed

lemma heap_page_not_in:
  assumes "i \<le> 2 ^ 20" and "d \<le> e" and "e \<le> i"
  shows "HEAP_START + of_nat i * 4096 \<notin> set (pages_from (HEAP_START + of_nat d * 4096) (e - d))"
proof
  assume "HEAP_START + of_nat i * 4096 \<in> set (pages_from (HEAP_START + of_nat d * 4096) (e - d))"
  then obtain k where k: "k < e - d" "HEAP_START + of_nat i * 4096 = HEAP_START + of_nat d * 4096 + of_nat k * 4096"
    by (auto simp: set_pages_from)
  have "HEAP_START + of_nat d * 4096 + of_nat k * 4096 = HEAP_START + of_nat (d + k) * 4096" by (simp add: algebra_simps)
  moreover have h: "unat HEAP_START = 0x200000000000" by (simp add: heap_consts)
  have "unat HEAP_START + i * 4096 < 2 ^ 64" "unat HEAP_START + (d + k) * 4096 < 2 ^ 64" using assms k(1) h by simp_all
  ultimately have "i = d + k" using k(2) unat_page_offset [of HEAP_START i] unat_page_offset [of HEAP_START "d + k"]
    by (metis add_left_cancel mult_cancel2 zero_neq_numeral)
  then show False using k(1) assms by linarith
qed

context paging
begin

lemma Heap_brk_run:
  assumes "hp_base h = HEAP_START" and "heap_end_ok (cell_val c (hp_end h))" and "heap_end_ok e"
    and "get_pid cpu = Inr pid"
  defines "cur \<equiv> cell_val c (hp_end h)"
  shows "cur < e \<Longrightarrow> Heap_brk X F r cpu h (Some e) c m a =
      rbind (map_range X F r (HEAP_START + of_nat (heap_pages cur) * 4096)
         (((HEAP_START + of_nat (heap_pages e) * 4096) - (HEAP_START + of_nat (heap_pages cur) * 4096)) div PAGE_SIZE)
         (pid \<noteq> KERNEL_PID) m a) (\<lambda>(res, m', a').
           case res of Inr _ \<Rightarrow> Inr (Some e, store_end h e c, m', a') | Inl _ \<Rightarrow> Inr (None, c, m', a'))"
    and "e < cur \<Longrightarrow> Heap_brk X F r cpu h (Some e) c m a =
      (case unmap_range X F r (HEAP_START + of_nat (heap_pages e) * 4096, HEAP_START + of_nat (heap_pages cur) * 4096)
             (pid \<noteq> KERNEL_PID) m a of
         (Inr _, m', a') \<Rightarrow> Inr (Some e, store_end h e c, m', a')
       | (Inl _, m', a') \<Rightarrow> Inr (None, c, m', a'))"
    and "e = cur \<Longrightarrow> Heap_brk X F r cpu h (Some e) c m a = Inr (Some e, store_end h e c, m, a)"
proof -
  have low: "unat e < 2 ^ 47" "unat cur < 2 ^ 47"
    using heap_end_unat(2) [OF assms(3)] heap_end_unat(2) [OF assms(2)] by (simp_all add: cur_def)
  have vn: "va_new X cur = Some cur" using low(2) by (intro va_new_ok) (simp add: canonical_def)
  have ok: "\<not> e < HEAP_START" "\<not> HEAP_END < e" using assms(3) by (auto simp: heap_end_ok_def)
  note [simp] = Heap_brk_def Let_def ok end_page_eq [OF assms(1)] assms(1-4) vn [unfolded cur_def]
    signed_difference [OF low, unfolded cur_def]
  show "cur < e \<Longrightarrow> Heap_brk X F r cpu h (Some e) c m a =
      rbind (map_range X F r (HEAP_START + of_nat (heap_pages cur) * 4096)
         (((HEAP_START + of_nat (heap_pages e) * 4096) - (HEAP_START + of_nat (heap_pages cur) * 4096)) div PAGE_SIZE)
         (pid \<noteq> KERNEL_PID) m a) (\<lambda>(res, m', a').
           case res of Inr _ \<Rightarrow> Inr (Some e, store_end h e c, m', a') | Inl _ \<Rightarrow> Inr (None, c, m', a'))"
    by (simp add: cur_def)
  show "e < cur \<Longrightarrow> Heap_brk X F r cpu h (Some e) c m a =
      (case unmap_range X F r (HEAP_START + of_nat (heap_pages e) * 4096, HEAP_START + of_nat (heap_pages cur) * 4096)
             (pid \<noteq> KERNEL_PID) m a of
         (Inr _, m', a') \<Rightarrow> Inr (Some e, store_end h e c, m', a')
       | (Inl _, m', a') \<Rightarrow> Inr (None, c, m', a'))"
    by (auto simp: cur_def)
  show "e = cur \<Longrightarrow> Heap_brk X F r cpu h (Some e) c m a = Inr (Some e, store_end h e c, m, a)"
    using ok by (simp add: cur_def)
qed


lemma map_range_total: "range_fits addr cnt \<Longrightarrow> \<exists>x m' a'. map_range X F r addr cnt user m a = Inr (x, m', a')"
  unfolding map_range_def by (subst map_range_pages) (auto split: prod.splits sum.splits)

lemma backed_swap: "backed X free r (ps @ qs) m a \<Longrightarrow> backed X free r (qs @ ps) m a"
proof -
  assume "backed X free r (ps @ qs) m a"
  then obtain us vs where "distinct (us @ vs)" "set (us @ vs) \<inter> free a = {}" "\<forall>f \<in> set (us @ vs). is_page f"
    "list_all2 (\<lambda>p f. translate_page X m r p = Some f) ps us" "list_all2 (\<lambda>p f. translate_page X m r p = Some f) qs vs"
    unfolding backed_def list_all2_append1 by auto
  then show ?thesis
    unfolding backed_def by (intro exI [of _ "vs @ us"]) (auto intro: list_all2_appendI)
qed

lemma unmap_loop_append:
  "unmap_loop X F r d (ps @ qs) m a =
     (case unmap_loop X F r d ps m a of
        (Inl e, m', a') \<Rightarrow> (Inl e, m', a')
      | (Inr _, m', a') \<Rightarrow> unmap_loop X F r d qs m' a')"
  by (induction ps arbitrary: m a) (auto split: prod.splits sum.splits)

lemma brk_grows:
  assumes "pool_inv a" and "\<forall>f \<in> free a. is_page f" and "heap_inv X free r h c m a"
    and "get_pid cpu = Inr pid" and "heap_end_ok e" and "cell_val c (hp_end h) < e"
  shows "\<exists>res c' m' a'. Heap_brk X F r cpu h (Some e) c m a = Inr (res, c', m', a') \<and>
    (res = None \<and> c' = c \<or>
     res = Some e \<and> heap_inv X free r h c' m' a' \<and> cell_val c' = (cell_val c)(hp_end h := e) \<and>
       pool_inv a' \<and> free a' \<subseteq> free a)"
proof -
  let ?cur = "cell_val c (hp_end h)" and ?p = "\<lambda>i. HEAP_START + of_nat i * 4096 :: u64"
  have base: "hp_base h = HEAP_START" and cur: "heap_end_ok ?cur"
    and bk: "backed X free r (pages_from HEAP_START (heap_pages ?cur)) m a"
    and un: "\<forall>i. heap_pages ?cur \<le> i \<longrightarrow> i \<le> 2 ^ 20 \<longrightarrow> translate_page X m r (?p i) = None"
    using assms(3) by (simp_all add: heap_inv_def)
  note run = Heap_brk_run(1) [OF base cur assms(5,4,6), of r m a]
  have mono: "heap_pages ?cur \<le> heap_pages e" using heap_pages_mono [OF cur assms(5)] assms(6) by simp
  define p0 where "p0 = ?p (heap_pages ?cur)"
  define cnt where "cnt = (?p (heap_pages e) - p0) div PAGE_SIZE"
  note run = run [folded p0_def, folded cnt_def]
  note hp = heap_pages_pages [OF cur assms(5) mono, folded p0_def, folded cnt_def]
  obtain x m' a' where mr: "map_range X F r p0 cnt (pid \<noteq> KERNEL_PID) m a = Inr (x, m', a')"
    using map_range_total [OF hp(3)] by blast
  show ?thesis
  proof (cases x)
    case (Inl err)
    then show ?thesis using run mr by auto
  next
    case (Inr rng)
    note mr' = mr [unfolded Inr]
    note keep = map_range_keeps [OF assms(1) mr']
    have rp: "range_pages p0 cnt = pages_from p0 (heap_pages e - heap_pages ?cur)"
      using hp(1,2) by (simp add: range_pages_def)
    have "pages_from HEAP_START (heap_pages ?cur) @ range_pages p0 cnt = pages_from HEAP_START (heap_pages e)"
      using pages_from_append [of HEAP_START "heap_pages ?cur" "heap_pages e - heap_pages ?cur"] mono rp
      unfolding p0_def by simp
    then have bk': "backed X free r (pages_from HEAP_START (heap_pages e)) m' a'"
      using backed_swap [OF map_range_extends [OF assms(1,2) hp(3) mr' bk]] by simp
    have "translate_page X m' r (?p i) = None" if "heap_pages e \<le> i" "i \<le> 2 ^ 20" for i
    proof -
      have "?p i \<notin> set (range_pages p0 cnt)"
        using heap_page_not_in [OF that(2) mono that(1)] by (simp only: rp p0_def [symmetric] not_False_eq_True)
      moreover obtain fs where "translate_page X m' r = (translate_page X m r)(range_pages p0 cnt [\<mapsto>] fs)"
        using map_range_ok [OF hp(3) assms(1)] mr' unfolding map_range_def by blast
      ultimately show ?thesis using un that mono by (simp add: map_upds_apply_nontin)
    qed
    then have "heap_inv X free r h (store_end h e c) m' a'"
      using base assms(5) bk' by (simp add: heap_inv_def store_end_def)
    then show ?thesis using run mr Inr keep by (simp add: store_end_def)
  qed
qed


text \<open>Shrinking: the inclusive range reaches one page past the heap.\<close>

lemma brk_shrink_fails:
  assumes "pool_inv a" and "heap_inv X free r h c m a" and "get_pid cpu = Inr pid" and "pid \<noteq> KERNEL_PID"
    and "heap_end_ok e" and "e < cell_val c (hp_end h)"
  shows "\<exists>m' a'. Heap_brk X F r cpu h (Some e) c m a = Inr (None, c, m', a') \<and>
    (\<forall>i. heap_pages e \<le> i \<longrightarrow> i < heap_pages (cell_val c (hp_end h)) \<longrightarrow>
       translate_page X m' r (HEAP_START + of_nat i * 4096) = None)"
proof -
  let ?cur = "cell_val c (hp_end h)" and ?p = "\<lambda>i. HEAP_START + of_nat i * 4096 :: u64"
  have base: "hp_base h = HEAP_START" and cur: "heap_end_ok ?cur"
    and bk: "backed X free r (pages_from HEAP_START (heap_pages ?cur)) m a"
    and un: "translate_page X m r (?p (heap_pages ?cur)) = None"
    using assms(2) heap_end_unat(4) [of ?cur] by (simp_all add: heap_inv_def)
  note run = Heap_brk_run(2) [OF base cur assms(5,3,6), of r m a]
  have mono: "heap_pages e \<le> heap_pages ?cur" using heap_pages_mono [OF assms(5) cur] assms(6) by simp
  let ?n = "heap_pages ?cur - heap_pages e"
  have hs: "is_page HEAP_START" "unat HEAP_START = 0x200000000000" by (simp_all add: is_page_def heap_consts)
  have lim: "unat HEAP_START + heap_pages ?cur * 4096 < 2 ^ 64" "unat HEAP_START + heap_pages e * 4096 < 2 ^ 64"
    using heap_end_unat(4) [OF cur] mono hs(2) by simp_all
  have last: "?p (heap_pages e) + of_nat ?n * 4096 = ?p (heap_pages ?cur)"
    using mono by (simp add: of_nat_diff algebra_simps)
  have "page_range_inclusive X (?p (heap_pages e)) (?p (heap_pages ?cur)) = pages_from (?p (heap_pages e)) (?n + 1)"
    using page_range_pages [OF hs(1) lim] mono by (simp add: Suc_diff_le)
  also have "\<dots> = pages_from (?p (heap_pages e)) ?n @ [?p (heap_pages ?cur)]"
    unfolding pages_from_append last by (simp add: pages_from_def)
  finally have rng: "page_range_inclusive X (?p (heap_pages e)) (?p (heap_pages ?cur)) =
      pages_from (?p (heap_pages e)) ?n @ [?p (heap_pages ?cur)]" .
  have "pages_from HEAP_START (heap_pages ?cur) = pages_from HEAP_START (heap_pages e) @ pages_from (?p (heap_pages e)) ?n"
    using pages_from_append [of HEAP_START "heap_pages e" ?n] mono by simp
  then have "backed X free r (pages_from (?p (heap_pages e)) ?n) m a"
    using bk backed_append [OF backed_swap] by metis
  then obtain fs where fs: "length fs = ?n" "distinct fs" "set fs \<inter> free a = {}"
    "\<forall>i < ?n. translate_page X m r (?p (heap_pages e) + of_nat i * 4096) = Some (fs ! i)"
    by (rule backed_frames)
  have ds: "distinct (pages_from (?p (heap_pages e)) ?n)"
    using unat_page_offset [OF lim(2)] lim(1) mono by (intro distinct_pages_from) (simp add: diff_mult_distrib)
  obtain m1 a1 where u1: "unmap_loop X F r True (pages_from (?p (heap_pages e)) ?n) m a = (Inr (), m1, a1)"
    and t1: "\<forall>p. translate_page X m1 r p = (if p \<in> set (pages_from (?p (heap_pages e)) ?n) then None else translate_page X m r p)"
    using unmap_loop_ok [OF ds _ fs(2) assms(1) fs(3), of m r] fs(1,4) by (auto simp: pages_from_def)
  then have "translate_page X m1 r (?p (heap_pages ?cur)) = None" using un by simp
  then obtain m2 where u2: "unmap X r (?p (heap_pages ?cur)) m1 = (Inl PageNotMapped, m2)"
    and t2: "translate_page X m2 r = translate_page X m1 r"
    using unmap_not_mapped by blast
  have "unmap_range X F r (?p (heap_pages e), ?p (heap_pages ?cur)) True m a = (Inl PageNotMapped, m2, a1)"
    unfolding unmap_range_def fst_conv snd_conv rng unmap_loop_append u1 using u2 by simp
  then have "Heap_brk X F r cpu h (Some e) c m a = Inr (None, c, m2, a1)" using run assms(4) by simp
  moreover have "translate_page X m2 r (?p i) = None" if "heap_pages e \<le> i" "i < heap_pages ?cur" for i
  proof -
    have "?p i = ?p (heap_pages e) + of_nat (i - heap_pages e) * 4096" using that by (simp add: of_nat_diff algebra_simps)
    then have "?p i \<in> set (pages_from (?p (heap_pages e)) ?n)" using that unfolding set_pages_from by fastforce
    then show ?thesis using t1 t2 by simp
  qed
  ultimately show ?thesis by blast
qed

end

text \<open>What can keep the heap from growing to a new end: fewer than four free frames per new page, or a new page inside a
  mapped huge page.\<close>

definition heap_blocked :: "('a \<Rightarrow> frame set) \<Rightarrow> ('m \<Rightarrow> frame \<Rightarrow> page \<Rightarrow> bool) \<Rightarrow> frame \<Rightarrow> u64 \<Rightarrow> u64 \<Rightarrow> 'm \<Rightarrow> 'a \<Rightarrow> bool" where
  "heap_blocked free huge r cur e m a \<longleftrightarrow> card (free a) < 4 * (heap_pages e - heap_pages cur) \<or>
     (\<exists>i. heap_pages cur \<le> i \<and> i < heap_pages e \<and> huge m r (HEAP_START + of_nat i * 4096))"

context paging_total
begin

lemma heap_blocked_iff:
  assumes "heap_inv X free r h c m a" and "heap_end_ok e" and "cell_val c (hp_end h) = cur"
  shows "map_blocked X free huge r (pages_from (HEAP_START + of_nat (heap_pages cur) * 4096) (heap_pages e - heap_pages cur)) m a \<longleftrightarrow>
    heap_blocked free huge r cur e m a"
proof -
  let ?p = "\<lambda>i. HEAP_START + of_nat i * 4096 :: u64"
  have set: "set (pages_from (?p (heap_pages cur)) (heap_pages e - heap_pages cur)) = ?p ` {heap_pages cur..<heap_pages e}"
  proof (intro equalityI subsetI)
    fix x assume "x \<in> ?p ` {heap_pages cur..<heap_pages e}"
    then obtain i where i: "heap_pages cur \<le> i" "i < heap_pages e" "x = ?p i" by auto
    then have "x = ?p (heap_pages cur) + of_nat (i - heap_pages cur) * 4096" by (simp add: of_nat_diff algebra_simps)
    then show "x \<in> set (pages_from (?p (heap_pages cur)) (heap_pages e - heap_pages cur))"
      unfolding set_pages_from using i by (intro CollectI exI [of _ "i - heap_pages cur"]) simp
  next
    fix x assume "x \<in> set (pages_from (?p (heap_pages cur)) (heap_pages e - heap_pages cur))"
    then obtain k where "k < heap_pages e - heap_pages cur" "x = ?p (heap_pages cur) + of_nat k * 4096"
      by (auto simp: set_pages_from)
    then have "x = ?p (heap_pages cur + k)" "heap_pages cur + k \<in> {heap_pages cur..<heap_pages e}" by (simp_all add: algebra_simps)
    then show "x \<in> ?p ` {heap_pages cur..<heap_pages e}" by (rule image_eqI)
  qed
  have "translate_page X m r (?p i) = None" if "i \<in> {heap_pages cur..<heap_pages e}" for i
    using assms that heap_end_unat(4) [OF assms(2)] by (auto simp: heap_inv_def)
  then show ?thesis unfolding map_blocked_def heap_blocked_def set length_pages_from by auto
qed

lemma brk_grow_succeeds:
  assumes "pool_inv a" and "heap_inv X free r h c m a" and "get_pid cpu = Inr pid" and "heap_end_ok e"
    and "cell_val c (hp_end h) < e" and "\<not> heap_blocked free huge r (cell_val c (hp_end h)) e m a"
  shows "\<exists>c' m' a'. Heap_brk X F r cpu h (Some e) c m a = Inr (Some e, c', m', a')"
proof -
  let ?cur = "cell_val c (hp_end h)" and ?p = "\<lambda>i. HEAP_START + of_nat i * 4096 :: u64"
  have base: "hp_base h = HEAP_START" and cur: "heap_end_ok ?cur" using assms(2) by (simp_all add: heap_inv_def)
  have mono: "heap_pages ?cur \<le> heap_pages e" using heap_pages_mono [OF cur assms(4)] assms(5) by simp
  note hp = heap_pages_pages [OF cur assms(4) mono]
  let ?cnt = "(?p (heap_pages e) - ?p (heap_pages ?cur)) div PAGE_SIZE"
  have "range_pages (?p (heap_pages ?cur)) ?cnt = pages_from (?p (heap_pages ?cur)) (heap_pages e - heap_pages ?cur)"
    using hp(1,2) by (simp add: range_pages_def)
  then have "\<not> map_blocked X free huge r (range_pages (?p (heap_pages ?cur)) ?cnt) m a"
    using heap_blocked_iff [OF assms(2,4) refl] assms(6) by simp
  from map_range_succeeds [OF hp(3) assms(1) this] obtain rng m' a' where
    "map_range X F r (?p (heap_pages ?cur)) ?cnt (pid \<noteq> KERNEL_PID) m a = Inr (Inr rng, m', a')" by blast
  then show ?thesis unfolding Heap_brk_run(1) [OF base cur assms(4,3,5)] by simp
qed

end

section \<open>Properties\<close>

text \<open>C13. What \<^verbatim>\<open>brk\<close> does on a well-formed heap. Without an argument it returns the current end; an
  address outside the heap region is refused, and the current end itself is accepted, both without
  any effect on memory. A higher address grows the heap: \<^verbatim>\<open>brk\<close> does not panic, it returns the address, the end
  is the address and the invariant holds again, that is, exactly the pages up to the new end are mapped, each to a
  frame of its own. It fails, with the end as it was, only if fewer than four free frames were left per new page (one for
  the page, three for new tables) or a new page lies in a mapped huge page.\<close>

theorem brk_grows_heap:
  assumes "paging_total X F free pool_inv huge" and "pool_inv a" and "\<forall>f \<in> free a. is_page f"
    and "heap_inv X free r h c m a" and "get_pid cpu = Inr pid"
  shows "Heap_brk X F r cpu h None c m a = Inr (Some (cell_val c (hp_end h)), c, m, a) \<and>
    (\<not> heap_end_ok e \<longrightarrow> Heap_brk X F r cpu h (Some e) c m a = Inr (None, c, m, a)) \<and>
    (e = cell_val c (hp_end h) \<longrightarrow> Heap_brk X F r cpu h (Some e) c m a = Inr (Some e, c, m, a)) \<and>
    (heap_end_ok e \<and> cell_val c (hp_end h) < e \<longrightarrow>
      (\<exists>res c' m' a'. Heap_brk X F r cpu h (Some e) c m a = Inr (res, c', m', a') \<and>
        (res = None \<and> c' = c \<and> heap_blocked free huge r (cell_val c (hp_end h)) e m a \<or>
         res = Some e \<and> heap_inv X free r h c' m' a' \<and> cell_val c' = (cell_val c)(hp_end h := e) \<and>
           pool_inv a' \<and> free a' \<subseteq> free a)))"
proof (intro conjI impI)
  have inv: "hp_base h = HEAP_START" "heap_end_ok (cell_val c (hp_end h))"
    using assms(4) by (simp_all add: heap_inv_def)
  have pg: "paging X F free pool_inv" using assms(1) by (simp add: paging_total_def)
  have ad: "x86_addresses X" using pg by (simp add: paging_def x86_mapper_def)
  have "canonical (cell_val c (hp_end h))"
    using heap_end_unat(2) [OF inv(2)] by (simp add: canonical_def)
  then show "Heap_brk X F r cpu h None c m a = Inr (Some (cell_val c (hp_end h)), c, m, a)"
    using x86_addresses.va_new_ok [OF ad] by (simp add: Heap_brk_def)
  show "Heap_brk X F r cpu h (Some e) c m a = Inr (None, c, m, a)" if "\<not> heap_end_ok e"
    using that by (auto simp: Heap_brk_def heap_end_ok_def)
  show "Heap_brk X F r cpu h (Some e) c m a = Inr (Some e, c, m, a)" if "e = cell_val c (hp_end h)"
    using paging.Heap_brk_run(3) [OF pg inv _ assms(5), of e r m a] inv(2) that by (simp add: store_end_def)
  show "\<exists>res c' m' a'. Heap_brk X F r cpu h (Some e) c m a = Inr (res, c', m', a') \<and>
        (res = None \<and> c' = c \<and> heap_blocked free huge r (cell_val c (hp_end h)) e m a \<or>
         res = Some e \<and> heap_inv X free r h c' m' a' \<and> cell_val c' = (cell_val c)(hp_end h := e) \<and>
           pool_inv a' \<and> free a' \<subseteq> free a)"
    if "heap_end_ok e \<and> cell_val c (hp_end h) < e"
    using paging.brk_grows [OF pg assms(2-5) conjunct1 [OF that] conjunct2 [OF that]]
      paging_total.brk_grow_succeeds [OF assms(1,2,4,5) conjunct1 [OF that] conjunct2 [OF that]] by force
qed

abbreviation wit_heap :: Heap where
  "wit_heap \<equiv> \<lparr>hp_base = HEAP_START, hp_end = 0\<rparr>"

abbreviation wit_cells :: "u64 \<Rightarrow> cells" where
  "wit_cells e \<equiv> \<lparr>cell_val = (\<lambda>_. e), cell_next = 1\<rparr>"

lemma wit_heap_empty: "heap_inv kx86 bi_free 0 wit_heap (wit_cells HEAP_START) (\<lambda>_ _. None) al"
  by (simp add: heap_inv_def heap_end_ok_def heap_pages_def backed_def x86_ref_def heap_consts)

text \<open>A heap of one page that grows to a second one.\<close>

lemma wit_heap_one:
  "heap_inv kx86 bi_free 0 wit_heap (wit_cells 0x200000000800) ((\<lambda>_ _. None)(0 := [HEAP_START \<mapsto> 0x9000])) wit_alloc"
  "heap_inv kx86 bi_free 0 wit_heap (wit_cells 0x200000000800) ((\<lambda>_ _. None)(0 := [HEAP_START \<mapsto> 0x9000])) wit_alloc8"
  "heap_pages 0x200000000800 = 1" "heap_pages 0x200000001800 = 2" "heap_pages HEAP_START = 0"
proof -
  show hp: "heap_pages 0x200000000800 = 1" "heap_pages 0x200000001800 = 2" "heap_pages HEAP_START = 0"
    by (simp_all add: heap_pages_def heap_consts)
  have "HEAP_START + of_nat i * 4096 \<noteq> HEAP_START" if "1 \<le> i" "i \<le> 2 ^ 20" for i
    using heap_page_not_in [of i 0 1] that by simp
  then show "heap_inv kx86 bi_free 0 wit_heap (wit_cells 0x200000000800) ((\<lambda>_ _. None)(0 := [HEAP_START \<mapsto> 0x9000])) wit_alloc"
    "heap_inv kx86 bi_free 0 wit_heap (wit_cells 0x200000000800) ((\<lambda>_ _. None)(0 := [HEAP_START \<mapsto> 0x9000])) wit_alloc8"
    by (auto simp: heap_inv_def heap_end_ok_def hp(1) backed_def x86_ref_def bi_free_def is_page_def list_all2_Cons1 heap_consts)
qed

theorem brk_grows_heap_witness:
  "\<exists>c' m' a'. Heap_brk kx86 boot_info_alloc 0 (Processor 2) wit_heap (Some 0x200000001800)
       (wit_cells 0x200000000800) ((\<lambda>_ _. None)(0 := [HEAP_START \<mapsto> 0x9000])) wit_alloc8 = Inr (Some 0x200000001800, c', m', a') \<and>
     cell_val c' 0 = 0x200000001800 \<and> heap_inv kx86 bi_free 0 wit_heap c' m' a'"
proof -
  have pid: "get_pid (Processor 2) = Inr (ProcessId 2)" by (simp add: get_pid_eq_Inr)
  have e: "heap_end_ok 0x200000001800 \<and> cell_val (wit_cells 0x200000000800) (hp_end wit_heap) < 0x200000001800"
    by (simp add: heap_end_ok_def heap_consts)
  have "\<not> heap_blocked bi_free no_huge 0 (cell_val (wit_cells 0x200000000800) (hp_end wit_heap)) 0x200000001800
      ((\<lambda>_ _. None)(0 := [HEAP_START \<mapsto> 0x9000])) wit_alloc8"
    using wit_heap_one(3,4) wit_alloc8_ok(3) by (simp add: heap_blocked_def)
  with brk_grows_heap [OF kpaging_total.paging_total_axioms wit_alloc8_ok(1,2) wit_heap_one(2) pid, of "0x200000001800"] e
  show ?thesis by auto
qed

text \<open>C17. \<^verbatim>\<open>brk\<close> cannot shrink the heap: for a user process and any valid address below the current
  end it returns \<^verbatim>\<open>None\<close> and the end stays as it was, because the inclusive range that is unmapped
  includes one page past the heap. All pages from the new end up to the old end have been unmapped
  nevertheless, so the invariant no longer holds.\<close>

theorem brk_shrink_always_fails:
  assumes "paging X F free pool_inv" and "pool_inv a" and "heap_inv X free r h c m a"
    and "get_pid cpu = Inr pid" and "pid \<noteq> KERNEL_PID" and "heap_end_ok e" and "e < cell_val c (hp_end h)"
  shows "\<exists>m' a'. Heap_brk X F r cpu h (Some e) c m a = Inr (None, c, m', a') \<and>
    (\<forall>i. heap_pages e \<le> i \<longrightarrow> i < heap_pages (cell_val c (hp_end h)) \<longrightarrow>
       translate_page X m' r (HEAP_START + of_nat i * 4096) = None)"
  using paging.brk_shrink_fails [OF assms] .

theorem brk_shrink_always_fails_witness:
  "\<exists>m' a'. Heap_brk kx86 boot_info_alloc 0 (Processor 2) wit_heap (Some HEAP_START) (wit_cells 0x200000000800)
       ((\<lambda>_ _. None)(0 := [HEAP_START \<mapsto> 0x9000])) wit_alloc = Inr (None, wit_cells 0x200000000800, m', a') \<and>
     translate_page kx86 m' 0 HEAP_START = None"
proof -
  have pid: "get_pid (Processor 2) = Inr (ProcessId 2)" "ProcessId 2 \<noteq> KERNEL_PID"
    by (simp_all add: get_pid_eq_Inr KERNEL_PID_def)
  have e: "heap_end_ok HEAP_START" "HEAP_START < cell_val (wit_cells 0x200000000800) (hp_end wit_heap)"
    by (simp_all add: heap_end_ok_def heap_consts)
  from brk_shrink_always_fails [OF kpaging.paging_axioms wit_alloc_ok(1) wit_heap_one(1) pid e] show ?thesis
    using wit_heap_one(3,5) by auto
qed

end
