(* ===== verification/ProcVm.thy ===== *)
theory ProcVm
  imports Heap
begin

text \<open>
  The address space of a process: page-table contexts (\<^verbatim>\<open>kernel/src/proc/paging.rs\<close>) and
  \<^verbatim>\<open>ProcessVm\<close> (\<^verbatim>\<open>kernel/src/proc/vm/mod.rs\<close>). The record \<open>machine\<close> is the memory side of the
  kernel state: page tables, frame allocator, physical bytes, the shared heap ends, the \<^verbatim>\<open>Cr3\<close>
  register, and the contents and strong counts of the \<^verbatim>\<open>Arc<Cr3RegValue>\<close> objects.
\<close>

section \<open>The machine\<close>

record Cr3RegValue =
  cr3_addr :: frame
  cr3_flags :: u64

record ('m, 'a) machine =
  mc_tables :: 'm
  mc_alloc :: 'a
  mc_bytes :: bytes
  mc_cells :: cells
  mc_cr3 :: Cr3RegValue
  mc_regs :: "nat \<Rightarrow> Cr3RegValue"
  mc_refs :: "nat \<Rightarrow> nat"
  mc_next :: nat

text \<open>What is fixed once the kernel is initialised: the \<^verbatim>\<open>x86_64\<close> crate, the frame allocator's
  functions, \<^verbatim>\<open>PHYSICAL_OFFSET\<close>, and the user segment selectors of the GDT.\<close>

record ('m, 'a) env =
  env_x :: "('m, 'a) x86_64"
  env_f :: "'a frame_allocator"
  env_off :: u64
  env_user_code :: u16
  env_user_data :: u16

section \<open>Page-table contexts\<close>

record PageTableContext =
  pt_reg :: nat

definition pt_addr :: "PageTableContext \<Rightarrow> ('m, 'a) machine \<Rightarrow> frame" where
  "pt_addr p mc = cr3_addr (mc_regs mc (pt_reg p))"

text \<open>\<^verbatim>\<open>Arc::new\<close>.\<close>

definition arc_new :: "Cr3RegValue \<Rightarrow> ('m, 'a) machine \<Rightarrow> PageTableContext \<times> ('m, 'a) machine" where
  "arc_new v mc =
     (\<lparr>pt_reg = mc_next mc\<rparr>,
      mc\<lparr>mc_regs := (mc_regs mc)(mc_next mc := v), mc_refs := (mc_refs mc)(mc_next mc := 1),
         mc_next := Suc (mc_next mc)\<rparr>)"

definition PageTableContext_new :: "('m, 'a) machine \<Rightarrow> PageTableContext \<times> ('m, 'a) machine" where
  "PageTableContext_new mc = arc_new (mc_cr3 mc) mc"

definition clone_level_4 :: "('m, 'a) env \<Rightarrow> PageTableContext \<Rightarrow> ('m, 'a) machine \<Rightarrow>
    (PageTableContext \<times> ('m, 'a) machine) res" where
  "clone_level_4 E p mc =
     (case allocate_frame (env_f E) (mc_alloc mc) of
        (None, a') \<Rightarrow> Inl (Expect_failed ''Cannot alloc page table for new process.'')
      | (Some page_table_addr, a') \<Rightarrow>
          Inr (arc_new \<lparr>cr3_addr = page_table_addr, cr3_flags = 0\<rparr>
                 (mc\<lparr>mc_alloc := a', mc_tables := copy_table (env_x E) (pt_addr p mc) page_table_addr (mc_tables mc)\<rparr>)))"

definition PageTableContext_load :: "PageTableContext \<Rightarrow> ('m, 'a) machine \<Rightarrow> ('m, 'a) machine" where
  "PageTableContext_load p mc = mc\<lparr>mc_cr3 := mc_regs mc (pt_reg p)\<rparr>"

definition using_count :: "PageTableContext \<Rightarrow> ('m, 'a) machine \<Rightarrow> nat" where
  "using_count p mc = mc_refs mc (pt_reg p)"

definition PageTableContext_fork :: "PageTableContext \<Rightarrow> ('m, 'a) machine \<Rightarrow> PageTableContext \<times> ('m, 'a) machine" where
  "PageTableContext_fork p mc =
     (\<lparr>pt_reg = pt_reg p\<rparr>, mc\<lparr>mc_refs := (mc_refs mc)(pt_reg p := mc_refs mc (pt_reg p) + 1)\<rparr>)"

text \<open>Dropping a context drops its \<^verbatim>\<open>Arc\<close>.\<close>

definition PageTableContext_drop :: "PageTableContext \<Rightarrow> ('m, 'a) machine \<Rightarrow> ('m, 'a) machine" where
  "PageTableContext_drop p mc = mc\<lparr>mc_refs := (mc_refs mc)(pt_reg p := mc_refs mc (pt_reg p) - 1)\<rparr>"

section \<open>Process address spaces\<close>

record ProcessVm =
  vm_page_table :: PageTableContext
  vm_stack :: Stack
  vm_heap :: Heap
  vm_code :: "(page \<times> page) list"
  vm_code_usage :: u64

definition ProcessVm_new :: "('m, 'a) env \<Rightarrow> PageTableContext \<Rightarrow> ('m, 'a) machine \<Rightarrow> ProcessVm \<times> ('m, 'a) machine" where
  "ProcessVm_new E page_table mc =
     (let (heap, c) = Heap_empty (mc_cells mc)
      in (\<lparr>vm_page_table = page_table, vm_stack = Stack_empty (env_x E), vm_heap = heap, vm_code = [],
           vm_code_usage = 0\<rparr>, mc\<lparr>mc_cells := c\<rparr>))"

text \<open>\<^verbatim>\<open>count()\<close> of an inclusive page range.\<close>

definition range_count :: "('m, 'a) env \<Rightarrow> page \<times> page \<Rightarrow> u64" where
  "range_count E rng = of_nat (length (page_range_inclusive (env_x E) (fst rng) (snd rng)))"

definition init_kernel_vm :: "('m, 'a) env \<Rightarrow> (page \<times> page) list \<Rightarrow> ProcessVm \<Rightarrow> ProcessVm" where
  "init_kernel_vm E pages vm =
     vm\<lparr>vm_code := pages, vm_code_usage := sum_list (map (range_count E) pages),
        vm_stack := Stack_kstack (env_x E)\<rparr>"

definition init_proc_stack :: "('m, 'a) env \<Rightarrow> ProcessId \<Rightarrow> ProcessVm \<Rightarrow> ('m, 'a) machine \<Rightarrow>
    (u64 \<times> ProcessVm \<times> ('m, 'a) machine) res" where
  "init_proc_stack E pid vm mc =
     (let stack_top_addr = STACK_INIT_TOP - STACK_MAX_SIZE * (ucast (pid_raw pid) - 1);
          stack_bot_addr = STACK_INIT_BOT - STACK_MAX_SIZE * (ucast (pid_raw pid) - 1)
      in rbind (expect Address_panic (va_new (env_x E) stack_top_addr)) (\<lambda>virtual_stack_top_addr.
         rbind (Stack_new (env_x E) (page_containing (env_x E) virtual_stack_top_addr) STACK_DEF_PAGE) (\<lambda>stack.
         rbind (map_range (env_x E) (env_f E) (pt_addr (vm_page_table vm) mc) stack_bot_addr STACK_DEF_PAGE True
                  (mc_tables mc) (mc_alloc mc)) (\<lambda>(res, m', a').
           case res of
             Inl e \<Rightarrow> Inl Unwrap_failed
           | Inr _ \<Rightarrow> Inr (virtual_stack_top_addr, vm\<lparr>vm_stack := stack\<rparr>,
                          mc\<lparr>mc_tables := m', mc_alloc := a'\<rparr>)))))"

definition ProcessVm_handle_page_fault :: "('m, 'a) env \<Rightarrow> u64 \<Rightarrow> ProcessVm \<Rightarrow> ('m, 'a) machine \<Rightarrow>
    (bool \<times> ProcessVm \<times> ('m, 'a) machine) res" where
  "ProcessVm_handle_page_fault E addr vm mc =
     rbind (Stack_handle_page_fault (env_x E) (env_f E) (pt_addr (vm_page_table vm) mc) (vm_stack vm) addr
              (mc_tables mc) (mc_alloc mc)) (\<lambda>(handled, s', m', a').
       Inr (handled, vm\<lparr>vm_stack := s'\<rparr>, mc\<lparr>mc_tables := m', mc_alloc := a'\<rparr>))"

definition ProcessVm_memory_usage :: "ProcessVm \<Rightarrow> u64" where
  "ProcessVm_memory_usage vm = Stack_memory_usage (vm_stack vm)"

definition stack_start :: "ProcessVm \<Rightarrow> u64" where
  "stack_start vm = st_start (vm_stack vm)"

definition ProcessVm_fork :: "('m, 'a) env \<Rightarrow> u64 \<Rightarrow> ProcessVm \<Rightarrow> ('m, 'a) machine \<Rightarrow>
    (ProcessVm \<times> ('m, 'a) machine) res option" where
  "ProcessVm_fork E stack_offset_count vm mc =
     (let (owned_page_table, mc1) = PageTableContext_fork (vm_page_table vm) mc
      in case Stack_fork (env_x E) (env_f E) (cr3_addr (mc_cr3 mc1)) (env_off E) (vm_stack vm)
                (pt_addr owned_page_table mc1) stack_offset_count (mc_tables mc1) (mc_alloc mc1) (mc_bytes mc1) of
           None \<Rightarrow> None
         | Some (Inl p) \<Rightarrow> Some (Inl p)
         | Some (Inr (s', m', a', pm')) \<Rightarrow>
             Some (Inr (\<lparr>vm_page_table = owned_page_table, vm_stack = s', vm_heap = Heap_fork (vm_heap vm),
                         vm_code = [], vm_code_usage = 0\<rparr>,
                        mc1\<lparr>mc_tables := m', mc_alloc := a', mc_bytes := pm'\<rparr>)))"

definition ProcessVm_brk :: "('m, 'a) env \<Rightarrow> Processor \<Rightarrow> u64 option \<Rightarrow> ProcessVm \<Rightarrow> ('m, 'a) machine \<Rightarrow>
    (u64 option \<times> ('m, 'a) machine) res" where
  "ProcessVm_brk E cpu addr vm mc =
     rbind (Heap_brk (env_x E) (env_f E) (pt_addr (vm_page_table vm) mc) cpu (vm_heap vm) addr
              (mc_cells mc) (mc_tables mc) (mc_alloc mc)) (\<lambda>(ret, c', m', a').
       Inr (ret, mc\<lparr>mc_cells := c', mc_tables := m', mc_alloc := a'\<rparr>))"

definition load_elf_code :: "('m, 'a) env \<Rightarrow> ElfFile \<Rightarrow> ProcessVm \<Rightarrow> ('m, 'a) machine \<Rightarrow>
    (ProcessVm \<times> ('m, 'a) machine) res" where
  "load_elf_code E elf vm mc =
     rbind (load_elf (env_x E) (env_f E) (pt_addr (vm_page_table vm) mc) elf (env_off E) True
              (mc_tables mc) (mc_alloc mc) (mc_bytes mc)) (\<lambda>(res, m', a', pm').
       case res of
         Inl e \<Rightarrow> Inl Unwrap_failed
       | Inr code \<Rightarrow>
           Inr (vm\<lparr>vm_code := code, vm_code_usage := sum_list (map (range_count E) code) * PAGE_SIZE\<rparr>,
                mc\<lparr>mc_tables := m', mc_alloc := a', mc_bytes := pm'\<rparr>))"

definition ProcessVm_load_elf :: "('m, 'a) env \<Rightarrow> ElfFile \<Rightarrow> ProcessVm \<Rightarrow> ('m, 'a) machine \<Rightarrow>
    (ProcessVm \<times> ('m, 'a) machine) res" where
  "ProcessVm_load_elf E elf vm mc =
     rbind (load_elf_code E elf vm mc) (\<lambda>(vm1, mc1).
     rbind (Stack_init (env_x E) (env_f E) (pt_addr (vm_page_table vm1) mc1) (vm_stack vm1)
              (mc_tables mc1) (mc_alloc mc1)) (\<lambda>(s', m', a').
       Inr (vm1\<lparr>vm_stack := s'\<rparr>, mc1\<lparr>mc_tables := m', mc_alloc := a'\<rparr>)))"

text \<open>The loop over the code ranges in \<^verbatim>\<open>clean_up\<close>, left at the first error.\<close>

fun unmap_ranges :: "('m, 'a) x86_64 \<Rightarrow> 'a frame_allocator \<Rightarrow> frame \<Rightarrow> (page \<times> page) list \<Rightarrow> 'm \<Rightarrow> 'a \<Rightarrow>
    (unmap_error + unit) \<times> 'm \<times> 'a" where
  "unmap_ranges X F r [] m a = (Inr (), m, a)"
| "unmap_ranges X F r (rng # rngs) m a =
     (case unmap_range X F r rng True m a of
        (Inl e, m1, a1) \<Rightarrow> (Inl e, m1, a1)
      | (Inr _, m1, a1) \<Rightarrow> unmap_ranges X F r rngs m1 a1)"

definition ProcessVm_clean_up :: "('m, 'a) env \<Rightarrow> ProcessVm \<Rightarrow> ('m, 'a) machine \<Rightarrow>
    ((unmap_error + unit) \<times> ProcessVm \<times> ('m, 'a) machine) res" where
  "ProcessVm_clean_up E vm mc =
     (let X = env_x E; F = env_f E; r = pt_addr (vm_page_table vm) mc
      in rbind (Stack_clean_up X F r (vm_stack vm) (mc_tables mc) (mc_alloc mc)) (\<lambda>(s', m1, a1).
           let vm1 = vm\<lparr>vm_stack := s'\<rparr>; mc1 = mc\<lparr>mc_tables := m1, mc_alloc := a1\<rparr>
           in if using_count (vm_page_table vm) mc1 = 1
              then rbind (Heap_clean_up X F r (vm_heap vm) (mc_cells mc1) m1 a1) (\<lambda>(res, c2, m2, a2).
                     let mc2 = mc1\<lparr>mc_cells := c2, mc_tables := m2, mc_alloc := a2\<rparr>
                     in case res of
                          Inl e \<Rightarrow> Inr (Inl e, vm1, mc2)
                        | Inr _ \<Rightarrow>
                            (case unmap_ranges X F r (vm_code vm) m2 a2 of
                               (Inl e, m3, a3) \<Rightarrow> Inr (Inl e, vm1, mc2\<lparr>mc_tables := m3, mc_alloc := a3\<rparr>)
                             | (Inr _, m3, a3) \<Rightarrow>
                                 (let (m4, a4) = clean_up_tables X F r m3 a3
                                  in Inr (Inr (), vm1,
                                          mc2\<lparr>mc_tables := m4, mc_alloc := deallocate_frame F r a4\<rparr>))))
              else Inr (Inr (), vm1, mc1)))"

text \<open>\<^verbatim>\<open>Drop\<close>: clean up (an error is only logged), then the fields are dropped.\<close>

definition ProcessVm_drop :: "('m, 'a) env \<Rightarrow> ProcessVm \<Rightarrow> ('m, 'a) machine \<Rightarrow> ('m, 'a) machine res" where
  "ProcessVm_drop E vm mc =
     rbind (ProcessVm_clean_up E vm mc) (\<lambda>(res, vm', mc').
       Inr (PageTableContext_drop (vm_page_table vm') mc'))"

section \<open>Stack slots\<close>

context paging
begin

lemma Stack_new_one:
  assumes "unat top_addr < 2 ^ 46" and "4096 \<le> unat top_addr"
  shows "Stack_new X (align_down top_addr) 1 = Inr \<lparr>st_start = align_down top_addr, st_end = align_down top_addr + 4096, st_usage = 1\<rparr>"
proof -
  let ?q = "align_down top_addr"
  have q: "unat ?q = unat top_addr div 4096 * 4096" by (rule unat_align_down)
  have le: "unat ?q \<le> unat top_addr" unfolding q by simp
  have "1 \<le> unat top_addr div 4096" using assms(2) div_le_mono [of 4096 "unat top_addr" 4096] by simp
  then have ge: "4096 \<le> unat ?q" unfolding q by simp
  have sub: "unat (?q - 4096) = unat ?q - 4096" using ge by (simp add: unat_sub word_le_nat_alt)
  have add: "unat (?q + 4096) = unat ?q + 4096" using le assms(1) by (simp add: unat_word_ariths)
  have "unat ?q - 4096 < 2 ^ 47" using le assms(1) by simp
  then have "canonical (?q - 1 * 4096)" unfolding canonical_def by (simp only: mult_1 sub simp_thms)
  then have s: "page_sub X ?q 1 = Some (?q - 4096)" using page_sub_ok [of ?q 1] ge by simp
  have p1: "is_page (?q - 4096)" using is_page_add [of ?q "-1"] by simp
  have "page_add X (?q - 4096) 1 = Some ?q"
    using page_add_ok [OF p1, of 1] sub ge le assms(1) by (simp add: canonical_def)
  moreover have "page_add X ?q 1 = Some (?q + 4096)"
    using page_add_ok [of ?q 1] add le assms(1) by (simp add: canonical_def)
  ultimately show ?thesis using s by (simp add: Stack_new_def)
qed

end

lemma slot_addresses:
  assumes "1 \<le> unat (pid_raw pid)" and "unat (pid_raw pid) < 0x4000"
  defines "top_addr \<equiv> STACK_INIT_TOP - STACK_MAX_SIZE * (ucast (pid_raw pid) - 1)"
    and "low_page \<equiv> STACK_INIT_BOT - STACK_MAX_SIZE * (ucast (pid_raw pid) - 1)"
  shows "unat top_addr + 8 + (unat (pid_raw pid) - 1) * 2 ^ 32 = 0x4000 * 2 ^ 32"
    and "unat low_page + 4096 + (unat (pid_raw pid) - 1) * 2 ^ 32 = 0x4000 * 2 ^ 32"
    and "align_down top_addr = low_page" and "is_page low_page" and "slot low_page = 0x4000 - unat (pid_raw pid)"
proof -
  let ?p = "unat (pid_raw pid)" and ?o = "STACK_MAX_SIZE * (ucast (pid_raw pid) - 1)"
  have w: "unat (ucast (pid_raw pid) :: u64) = ?p" 
    using unat_word_less_pow [of "pid_raw pid"] by (simp add: unsigned_ucast_eq take_bit_nat_eq_self)
  then have v: "unat (ucast (pid_raw pid) - 1 :: u64) = ?p - 1"
    using assms(1) by (subst unat_sub) (simp_all add: word_le_nat_alt)
  have "unat (STACK_MAX_SIZE * v) = unat v * 2 ^ 32" if "unat v < 0x4000" for v
    using that by (simp add: STACK_MAX_SIZE_eq unat_word_ariths)
  from this [of "ucast (pid_raw pid) - 1"] have o: "unat ?o = (?p - 1) * 2 ^ 32"
    unfolding v using assms(2) by linarith
  have c: "unat STACK_INIT_TOP = 0x4000 * 2 ^ 32 - 8" "unat STACK_INIT_BOT = 0x4000 * 2 ^ 32 - 4096"
    by (simp_all add: stack_consts)
  have le: "(?p - 1) * 2 ^ 32 + 2 ^ 32 \<le> 0x4000 * (2 ^ 32 :: nat)"
    using assms(2) mult_le_mono1 [of "Suc (?p - 1)" "0x4000" "2 ^ 32"] by simp
  show t: "unat top_addr + 8 + (?p - 1) * 2 ^ 32 = 0x4000 * 2 ^ 32"
    using unat_sub [of ?o STACK_INIT_TOP] o c le by (simp add: top_addr_def word_le_nat_alt)
  show b: "unat low_page + 4096 + (?p - 1) * 2 ^ 32 = 0x4000 * 2 ^ 32"
    using unat_sub [of ?o STACK_INIT_BOT] o c le by (simp add: low_page_def word_le_nat_alt)
  define k where "k = 0x4000 - ?p"
  have k: "0x4000 = (?p - 1) + Suc k" using assms(1,2) by (simp add: k_def)
  have bu: "unat low_page = k * 2 ^ 32 + (2 ^ 32 - 4096)"
    using b unfolding k by (simp add: algebra_simps)
  then have "unat low_page = (k * 2 ^ 20 + (2 ^ 20 - 1)) * 4096" by simp
  then show pb: "is_page low_page" unfolding is_page_iff_mod by simp
  have "unat top_addr = unat low_page + 4088" using t b by linarith
  moreover have lt: "unat low_page + 4088 < 2 ^ 64" using b by simp
  ultimately have "top_addr = low_page + of_nat 4088" by (simp add: word_unat_eq_iff unat_word_ariths)
  then show "align_down top_addr = low_page"
    using page_split(1) [OF pb lt] by simp
  show "slot low_page = 0x4000 - ?p" unfolding slot_def bu k_def [symmetric] by simp
qed


text \<open>C16. The first stack of a process with pid \<open>p\<close> (for \<open>1 \<le> p < 16384\<close>) is the top page of slot
  \<open>16384 - p\<close>: the returned stack top is the last 8 bytes of that slot, the recorded stack ends at the
  slot's upper end and satisfies the stack invariant. Different pids therefore have different slots,
  and the slot is the heap's region for pid 8192 and for no other.\<close>

theorem proc_stack_slot:
  assumes "paging (env_x E) (env_f E) free pool_inv" and "pool_inv (mc_alloc mc)"
    and "\<forall>f \<in> free (mc_alloc mc). is_page f"
    and "1 \<le> unat (pid_raw pid)" and "unat (pid_raw pid) < 0x4000"
    and "init_proc_stack E pid vm mc = Inr (top_addr, vm', mc')"
  shows "slot top_addr = 0x4000 - unat (pid_raw pid) \<and> slot (stack_start vm') = slot top_addr \<and>
    unat top_addr + 8 = Suc (slot top_addr) * 2 ^ 32 \<and> st_end (vm_stack vm') = top_addr + 8 \<and>
    stack_inv (env_x E) free (pt_addr (vm_page_table vm) mc) (vm_stack vm') (mc_tables mc') (mc_alloc mc') \<and>
    (slot top_addr = slot HEAP_START \<longleftrightarrow> unat (pid_raw pid) = 8192)"
proof -
  let ?X = "env_x E" and ?r = "pt_addr (vm_page_table vm) mc"
  define t where "t = STACK_INIT_TOP - STACK_MAX_SIZE * (ucast (pid_raw pid) - 1)"
  define b where "b = STACK_INIT_BOT - STACK_MAX_SIZE * (ucast (pid_raw pid) - 1)"
  note ad = slot_addresses [OF assms(4,5), folded t_def b_def]
  have pos: "unat t + 8 = Suc (0x4000 - unat (pid_raw pid)) * 2 ^ 32"
    using ad(1) assms(4,5) by (simp add: diff_mult_distrib)
  have st: "slot t = 0x4000 - unat (pid_raw pid)" using ad(3,5) slot_align_down [of t] by simp
  have tl: "unat t < 2 ^ 46" "4096 \<le> unat t"
    using ad(1) pos assms(4) by simp_all
  have bl: "range_low b 1" using ad(2,4) by (simp add: range_low_def)
  note px = paging.Stack_new_one [OF assms(1) tl]
  have X: "x86_addresses ?X" using assms(1) by (simp add: paging_def x86_mapper_def)
  have vn: "va_new ?X t = Some t"
    using tl by (intro x86_addresses.va_new_ok [OF X]) (simp add: canonical_def)
  obtain rng where mr: "map_range ?X (env_f E) ?r b 1 True (mc_tables mc) (mc_alloc mc) = Inr (Inr rng, mc_tables mc', mc_alloc mc')"
    and res: "top_addr = t" "vm_stack vm' = \<lparr>st_start = b, st_end = b + 4096, st_usage = 1\<rparr>"
    using assms(6) vn px ad(3)
    by (auto simp: init_proc_stack_def t_def [symmetric] b_def [symmetric] STACK_DEF_PAGE_def
        x86_addresses.page_containing_eq [OF X] split: sum.splits)
  have "backed ?X free ?r [] (mc_tables mc) (mc_alloc mc)" by (simp add: backed_def)
  from paging.map_range_extends [OF assms(1-3) range_low_fits [OF bl] mr this]
  have bk: "backed ?X free ?r [b] (mc_tables mc') (mc_alloc mc')"
    using ad(4) by (simp add: range_pages_def)
  have "unat (b + 4096) = unat (t + 8)" using ad(1,2) by (simp add: unat_word_ariths)
  then have e: "b + 4096 = t + 8" by (simp add: word_unat_eq_iff)
  have "(unat b + 4096 - 1) div 2 ^ 32 = slot b"
  proof -
    have "unat b + 4096 - 1 = slot b * 2 ^ 32 + (2 ^ 32 - 1)" using ad(1,2,5) pos by simp
    then show ?thesis by simp
  qed
  then have "stack_inv ?X free ?r (vm_stack vm') (mc_tables mc') (mc_alloc mc')"
    using bk res(2) ad(2,4) by (simp add: stack_inv_def stack_shape_def)
  moreover have "slot HEAP_START = 8192" by (simp add: slot_def heap_consts)
  ultimately show ?thesis
    using res st ad(5) pos e assms(5) by (auto simp: stack_start_def)
qed

abbreviation wit_env :: "(ref_tables, BootInfoFrameAllocator) env" where
  "wit_env \<equiv> \<lparr>env_x = x86_ref, env_f = boot_info_alloc, env_off = 0, env_user_code = 0x23, env_user_data = 0x1B\<rparr>"

abbreviation wit_machine :: "ref_tables \<Rightarrow> (ref_tables, BootInfoFrameAllocator) machine" where
  "wit_machine m \<equiv> \<lparr>mc_tables = m, mc_alloc = wit_alloc, mc_bytes = (\<lambda>_. 0),
     mc_cells = \<lparr>cell_val = (\<lambda>_. HEAP_START), cell_next = 1\<rparr>, mc_cr3 = \<lparr>cr3_addr = 0, cr3_flags = 0\<rparr>,
     mc_regs = (\<lambda>_. \<lparr>cr3_addr = 0, cr3_flags = 0\<rparr>), mc_refs = (\<lambda>_. 1), mc_next = 1\<rparr>"

abbreviation wit_vm :: ProcessVm where
  "wit_vm \<equiv> \<lparr>vm_page_table = \<lparr>pt_reg = 0\<rparr>, vm_stack = wit_stack, vm_heap = \<lparr>hp_base = HEAP_START, hp_end = 0\<rparr>,
     vm_code = [], vm_code_usage = 0\<rparr>"

lemma wit_paging: "paging (env_x wit_env) (env_f wit_env) bi_free bi_inv"
  using kpaging.paging_axioms by simp

theorem proc_stack_slot_witness:
  "\<exists>top_addr vm' mc'. init_proc_stack wit_env (ProcessId 2) wit_vm (wit_machine (\<lambda>_ _. None)) = Inr (top_addr, vm', mc') \<and>
     slot top_addr = 0x3FFE"
proof -
  obtain top_addr vm' mc' where run: "init_proc_stack wit_env (ProcessId 2) wit_vm (wit_machine (\<lambda>_ _. None)) = Inr (top_addr, vm', mc')"
    by (simp add: init_proc_stack_def map_range_def map_range_with_def Stack_new_def stack_consts x86_ref_def canonical_def
        align_down_def pages_from_def upt_rec boot_info_alloc_def bi_allocate_frame_def)
  have inv: "bi_inv (mc_alloc (wit_machine (\<lambda>_ _. None)))" "\<forall>f \<in> bi_free (mc_alloc (wit_machine (\<lambda>_ _. None))). is_page f"
    using wit_alloc_ok by simp_all
  have pid: "1 \<le> unat (pid_raw (ProcessId 2))" "unat (pid_raw (ProcessId 2)) < 0x4000" by simp_all
  from proc_stack_slot [OF wit_paging inv pid run] run show ?thesis by auto
qed

section \<open>Clean-up\<close>

context paging
begin

lemma unmap_loop_backed:
  assumes "pool_inv a" and "backed X free r (ps @ qs) m a" and "distinct (ps @ qs)"
  shows "\<exists>m' a'. unmap_loop X F r True ps m a = (Inr (), m', a') \<and> pool_inv a' \<and> free a \<subseteq> free a' \<and>
    card (free a' - free a) = length ps \<and> backed X free r qs m' a' \<and>
    translate_page X m' r = (\<lambda>p. if p \<in> set ps then None else translate_page X m r p)"
proof -
  obtain us vs where d: "distinct (us @ vs)" "set (us @ vs) \<inter> free a = {}" "\<forall>f \<in> set (us @ vs). is_page f"
    and u: "list_all2 (\<lambda>p f. translate_page X m r p = Some f) ps us"
    and v: "list_all2 (\<lambda>p f. translate_page X m r p = Some f) qs vs"
    using assms(2) unfolding backed_def list_all2_append1 by auto
  have "\<forall>i < length ps. translate_page X m r (ps ! i) = Some (us ! i)" "length us = length ps"
    using u by (auto simp: list_all2_conv_all_nth)
  with d assms(3) obtain m' a' where r: "unmap_loop X F r True ps m a = (Inr (), m', a')" "pool_inv a'"
    "free a' = free a \<union> set us" "\<forall>p. translate_page X m' r p = (if p \<in> set ps then None else translate_page X m r p)"
    using unmap_loop_ok [of ps us a m r] assms(1) by auto
  have "free a' - free a = set us" using r(3) d(2) by auto
  then have "card (free a' - free a) = length ps" using d(1) \<open>length us = length ps\<close> by (simp add: distinct_card)
  moreover have "list_all2 (\<lambda>p f. translate_page X m' r p = Some f) qs vs"
    using v r(4) assms(3) by (auto simp: list_all2_conv_all_nth)
  then have "backed X free r qs m' a'" using d r(3) unfolding backed_def by (intro exI [of _ vs]) auto
  ultimately show ?thesis using r by auto
qed

lemma Stack_clean_up_ok:
  assumes "pool_inv a" and "stack_shape s" and "distinct (pages_from (st_start s) (unat (st_usage s)) @ qs)"
    and "backed X free r (pages_from (st_start s) (unat (st_usage s)) @ qs) m a"
  shows "\<exists>m' a'. Stack_clean_up X F r s m a = Inr (s\<lparr>st_usage := 0\<rparr>, m', a') \<and> pool_inv a' \<and> free a \<subseteq> free a' \<and>
    card (free a' - free a) = unat (st_usage s) \<and> backed X free r qs m' a' \<and>
    translate_page X m' r =
      (\<lambda>p. if p \<in> set (pages_from (st_start s) (unat (st_usage s))) then None else translate_page X m r p)"
proof -
  have sh: "is_page (st_start s)" "0 < unat (st_usage s)" "unat (st_start s) + unat (st_usage s) * 4096 < 2 ^ 47"
    using assms(2) by (simp_all add: stack_shape_def)
  have low: "range_low (st_start s) (st_usage s)" using sh by (simp add: range_low_def)
  have rp: "range_pages (st_start s) (st_usage s) = pages_from (st_start s) (unat (st_usage s))"
    using sh(1) by (simp add: range_pages_def)
  have nz: "st_usage s \<noteq> 0" using sh(2) by auto
  show ?thesis
    using unmap_loop_backed [OF assms(1,4,3)] unmap_pages_pages [OF low sh(2)] nz
    by (auto simp: Stack_clean_up_def rp)
qed

lemma unmap_ranges_ok:
  assumes "pool_inv a" and "distinct (concat (map (\<lambda>(p, q). page_range_inclusive X p q) rngs) @ qs)"
    and "backed X free r (concat (map (\<lambda>(p, q). page_range_inclusive X p q) rngs) @ qs) m a"
  shows "\<exists>m' a'. unmap_ranges X F r rngs m a = (Inr (), m', a') \<and> pool_inv a' \<and> free a \<subseteq> free a' \<and>
    backed X free r qs m' a' \<and>
    translate_page X m' r = (\<lambda>p. if p \<in> set (concat (map (\<lambda>(p, q). page_range_inclusive X p q) rngs)) then None
      else translate_page X m r p)"
  using assms
proof (induction rngs arbitrary: m a)
  case (Cons rng rngs)
  obtain p q where rng: "rng = (p, q)" by (cases rng)
  let ?ps = "page_range_inclusive X p q" and ?rest = "concat (map (\<lambda>(p, q). page_range_inclusive X p q) rngs)"
  have "backed X free r (?ps @ (?rest @ qs)) m a" "distinct (?ps @ (?rest @ qs))"
    using Cons.prems(2,3) rng by simp_all
  from unmap_loop_backed [OF Cons.prems(1) this] obtain m1 a1 where
    one: "unmap_range X F r rng True m a = (Inr (), m1, a1)" "pool_inv a1" "free a \<subseteq> free a1"
      "backed X free r (?rest @ qs) m1 a1"
      "translate_page X m1 r = (\<lambda>x. if x \<in> set ?ps then None else translate_page X m r x)"
    using rng by (auto simp: unmap_range_def)
  from Cons.IH [OF one(2) _ one(4)] Cons.prems(2) obtain m2 a2 where
    "unmap_ranges X F r rngs m1 a1 = (Inr (), m2, a2)" "pool_inv a2" "free a1 \<subseteq> free a2" "backed X free r qs m2 a2"
      "translate_page X m2 r = (\<lambda>x. if x \<in> set ?rest then None else translate_page X m1 r x)"
    by auto
  then show ?case using one rng by (auto simp: fun_eq_iff)
qed simp


lemma Heap_clean_up_ok:
  assumes "pool_inv a" and "hp_base h = HEAP_START" and "heap_end_ok (cell_val c (hp_end h))"
  defines "ps \<equiv> pages_from HEAP_START (heap_pages (cell_val c (hp_end h)))"
  assumes "distinct (ps @ qs)" and "backed X free r (ps @ qs) m a"
  shows "\<exists>m' a'. Heap_clean_up X F r h c m a = Inr (Inr (), store_end h HEAP_START c, m', a') \<and> pool_inv a' \<and>
    free a \<subseteq> free a' \<and> backed X free r qs m' a' \<and>
    translate_page X m' r = (\<lambda>p. if p \<in> set ps then None else translate_page X m r p)"
proof (cases "cell_val c (hp_end h) = HEAP_START")
  case True
  then have "store_end h HEAP_START c = c" by (simp add: store_end_def fun_upd_idem)
  then show ?thesis
    using True assms by (simp add: Heap_clean_up_def Heap_memory_usage_def ps_def heap_pages_def)
next
  case False
  let ?e = "cell_val c (hp_end h)"
  let ?i = "unat (?e - HEAP_START) div 4096"
  have hs: "is_page HEAP_START" "unat HEAP_START = 0x200000000000" by (simp_all add: is_page_def heap_consts)
  note u = heap_end_unat [OF assms(3)]
  have n: "heap_pages ?e = Suc ?i" using False by (simp add: heap_pages_def)
  have "unat HEAP_START + unat (?e - HEAP_START) < 2 ^ 64" unfolding hs(2) u(3) using u(1,2) by simp
  from page_split(1) [OF hs(1) this] have ad: "align_down ?e = HEAP_START + of_nat ?i * 4096" by simp
  have "unat HEAP_START + ?i * 4096 < 2 ^ 64" using u(4) hs(2) unfolding n by simp
  then have rng: "page_range_inclusive X HEAP_START (align_down ?e) = ps"
    unfolding ad ps_def n using page_range_inclusive_eq [OF hs(1)] by blast
  have "va_new X HEAP_START = Some HEAP_START" "va_new X ?e = Some ?e"
    using hs(2) u(2) by (auto intro!: va_new_ok simp: canonical_def)
  moreover have "Heap_memory_usage h c \<noteq> 0" using False assms(2) by (simp add: Heap_memory_usage_def)
  ultimately show ?thesis
    using unmap_loop_backed [OF assms(1,6,5)] hs(1) rng
    by (auto simp: Heap_clean_up_def page_containing_eq unmap_range_def)
qed

end

text \<open>The pages of an address space, and its invariant: all of them mapped, each to a frame of its
  own.\<close>

definition code_pages :: "('m, 'a) env \<Rightarrow> ProcessVm \<Rightarrow> page list" where
  "code_pages E vm = concat (map (\<lambda>(p, q). page_range_inclusive (env_x E) p q) (vm_code vm))"

definition stack_pages :: "ProcessVm \<Rightarrow> page list" where
  "stack_pages vm = pages_from (st_start (vm_stack vm)) (unat (st_usage (vm_stack vm)))"

definition vm_pages :: "('m, 'a) env \<Rightarrow> ProcessVm \<Rightarrow> ('m, 'a) machine \<Rightarrow> page list" where
  "vm_pages E vm mc = stack_pages vm @ pages_from HEAP_START (heap_pages (cell_val (mc_cells mc) (hp_end (vm_heap vm)))) @
     code_pages E vm"

definition vm_inv :: "('m, 'a) env \<Rightarrow> ('a \<Rightarrow> frame set) \<Rightarrow> ProcessVm \<Rightarrow> ('m, 'a) machine \<Rightarrow> bool" where
  "vm_inv E free vm mc \<longleftrightarrow> stack_shape (vm_stack vm) \<and> hp_base (vm_heap vm) = HEAP_START \<and>
     heap_end_ok (cell_val (mc_cells mc) (hp_end (vm_heap vm))) \<and> distinct (vm_pages E vm mc) \<and>
     backed (env_x E) free (pt_addr (vm_page_table vm) mc) (vm_pages E vm mc) (mc_tables mc) (mc_alloc mc)"

text \<open>C15. Dropping an address space whose page table is shared (a forked process that exits while its
  relatives live) unmaps exactly its own stack and gives back one frame per stack page: heap, code and
  every other translation of the shared table stay, and the use count goes down by one.\<close>

theorem shared_vm_drop_keeps_others:
  assumes "paging (env_x E) (env_f E) free pool_inv" and "pool_inv (mc_alloc mc)" and "vm_inv E free vm mc"
    and "using_count (vm_page_table vm) mc \<noteq> 1"
  shows "\<exists>mc'. ProcessVm_drop E vm mc = Inr mc' \<and>
    using_count (vm_page_table vm) mc' = using_count (vm_page_table vm) mc - 1 \<and> mc_cells mc' = mc_cells mc \<and>
    mc_bytes mc' = mc_bytes mc \<and> pool_inv (mc_alloc mc') \<and> free (mc_alloc mc) \<subseteq> free (mc_alloc mc') \<and>
    card (free (mc_alloc mc') - free (mc_alloc mc)) = unat (st_usage (vm_stack vm)) \<and>
    translate_page (env_x E) (mc_tables mc') (pt_addr (vm_page_table vm) mc) =
      (\<lambda>p. if p \<in> set (stack_pages vm) then None
           else translate_page (env_x E) (mc_tables mc) (pt_addr (vm_page_table vm) mc) p)"
proof -
  have sh: "stack_shape (vm_stack vm)"
    and d: "distinct (stack_pages vm @ (pages_from HEAP_START (heap_pages (cell_val (mc_cells mc) (hp_end (vm_heap vm)))) @ code_pages E vm))"
    and b: "backed (env_x E) free (pt_addr (vm_page_table vm) mc)
      (stack_pages vm @ (pages_from HEAP_START (heap_pages (cell_val (mc_cells mc) (hp_end (vm_heap vm)))) @ code_pages E vm)) (mc_tables mc) (mc_alloc mc)"
    using assms(3) by (simp_all add: vm_inv_def vm_pages_def)
  from paging.Stack_clean_up_ok [OF assms(1,2) sh d [unfolded stack_pages_def] b [unfolded stack_pages_def]]
  show ?thesis
    using assms(4) by (auto simp: ProcessVm_drop_def ProcessVm_clean_up_def Let_def using_count_def
        PageTableContext_drop_def stack_pages_def)
qed

lemma wit_vm_inv: "vm_inv wit_env bi_free wit_vm (wit_machine wit_tables)"
  by (auto simp: vm_inv_def vm_pages_def stack_pages_def code_pages_def heap_pages_def heap_end_ok_def stack_shape_def
      slot_def is_page_def backed_def bi_free_def pt_addr_def x86_ref_def list_all2_Cons1 heap_consts)

theorem shared_vm_drop_keeps_others_witness:
  "\<exists>mc'. ProcessVm_drop wit_env wit_vm ((wit_machine wit_tables)\<lparr>mc_refs := \<lambda>_. 2\<rparr>) = Inr mc' \<and>
     using_count (vm_page_table wit_vm) mc' = 1"
proof -
  let ?mc = "(wit_machine wit_tables)\<lparr>mc_refs := \<lambda>_. 2\<rparr>"
  have inv: "vm_inv wit_env bi_free wit_vm ?mc" "bi_inv (mc_alloc ?mc)"
    using wit_vm_inv wit_alloc_ok by (simp_all add: vm_inv_def vm_pages_def pt_addr_def)
  have u: "using_count (vm_page_table wit_vm) ?mc \<noteq> 1" by (simp add: using_count_def)
  from shared_vm_drop_keeps_others [OF wit_paging inv(2,1) u] show ?thesis by (auto simp: using_count_def)
qed

text \<open>C14. Dropping the last user of a page table gives up the whole address space: stack, heap and code
  pages are all unmapped, no other translation changes, the heap end is back at the heap's base and
  the use count is 0.\<close>

theorem last_vm_drop_frees_all:
  assumes "paging (env_x E) (env_f E) free pool_inv" and "pool_inv (mc_alloc mc)" and "vm_inv E free vm mc"
    and "using_count (vm_page_table vm) mc = 1"
  shows "\<exists>mc'. ProcessVm_drop E vm mc = Inr mc' \<and> using_count (vm_page_table vm) mc' = 0 \<and>
    cell_val (mc_cells mc') (hp_end (vm_heap vm)) = HEAP_START \<and>
    translate_page (env_x E) (mc_tables mc') (pt_addr (vm_page_table vm) mc) =
      (\<lambda>p. if p \<in> set (vm_pages E vm mc) then None
           else translate_page (env_x E) (mc_tables mc) (pt_addr (vm_page_table vm) mc) p)"
proof -
  let ?X = "env_x E" and ?F = "env_f E" and ?r = "pt_addr (vm_page_table vm) mc"
  let ?hp = "pages_from HEAP_START (heap_pages (cell_val (mc_cells mc) (hp_end (vm_heap vm))))"
  have sh: "stack_shape (vm_stack vm)" and hb: "hp_base (vm_heap vm) = HEAP_START"
    "heap_end_ok (cell_val (mc_cells mc) (hp_end (vm_heap vm)))"
    and d: "distinct (stack_pages vm @ (?hp @ code_pages E vm))"
    and b: "backed ?X free ?r (stack_pages vm @ (?hp @ code_pages E vm)) (mc_tables mc) (mc_alloc mc)"
    using assms(3) by (simp_all add: vm_inv_def vm_pages_def)
  from paging.Stack_clean_up_ok [OF assms(1,2) sh d [unfolded stack_pages_def] b [unfolded stack_pages_def]]
  obtain m1 a1 where s1: "Stack_clean_up ?X ?F ?r (vm_stack vm) (mc_tables mc) (mc_alloc mc) = Inr ((vm_stack vm)\<lparr>st_usage := 0\<rparr>, m1, a1)"
    "pool_inv a1" "backed ?X free ?r (?hp @ code_pages E vm) m1 a1"
    "translate_page ?X m1 ?r = (\<lambda>p. if p \<in> set (stack_pages vm) then None else translate_page ?X (mc_tables mc) ?r p)"
    by (auto simp: stack_pages_def)
  have d2: "distinct (?hp @ code_pages E vm)" using d by simp
  from paging.Heap_clean_up_ok [OF assms(1) s1(2) hb d2 s1(3)]
  obtain m2 a2 where s2: "Heap_clean_up ?X ?F ?r (vm_heap vm) (mc_cells mc) m1 a1 = Inr (Inr (), store_end (vm_heap vm) HEAP_START (mc_cells mc), m2, a2)"
    "pool_inv a2" "backed ?X free ?r (code_pages E vm) m2 a2"
    "translate_page ?X m2 ?r = (\<lambda>p. if p \<in> set ?hp then None else translate_page ?X m1 ?r p)"
    by blast
  have d3: "distinct (code_pages E vm @ [])" and b3: "backed ?X free ?r (code_pages E vm @ []) m2 a2"
    using d s2(3) by simp_all
  from paging.unmap_ranges_ok [OF assms(1) s2(2) d3 [unfolded code_pages_def] b3 [unfolded code_pages_def]]
  obtain m3 a3 where s3: "unmap_ranges ?X ?F ?r (vm_code vm) m2 a2 = (Inr (), m3, a3)"
    "translate_page ?X m3 ?r = (\<lambda>p. if p \<in> set (code_pages E vm) then None else translate_page ?X m2 ?r p)"
    by (auto simp: code_pages_def)
  obtain m4 a4 where cl: "clean_up_tables ?X ?F ?r m3 a3 = (m4, a4)" by fastforce
  have "x86_mapper ?X" using assms(1) by (simp add: paging_def)
  from x86_mapper.clean_up_translate [OF this cl] have tr: "translate_page ?X m4 ?r = translate_page ?X m3 ?r" by simp
  have "ProcessVm_drop E vm mc = Inr (PageTableContext_drop (vm_page_table vm)
      (mc\<lparr>mc_cells := store_end (vm_heap vm) HEAP_START (mc_cells mc), mc_tables := m4, mc_alloc := deallocate_frame ?F ?r a4\<rparr>))"
    using s1(1) s2(1) s3(1) cl assms(4)
    by (simp add: ProcessVm_drop_def ProcessVm_clean_up_def Let_def using_count_def)
  then show ?thesis
    using tr s1(4) s2(4) s3(2) assms(4)
    by (auto simp: PageTableContext_drop_def using_count_def store_end_def vm_pages_def)
qed


theorem last_vm_drop_frees_all_witness:
  "\<exists>mc'. ProcessVm_drop wit_env wit_vm (wit_machine wit_tables) = Inr mc' \<and>
     translate_page (env_x wit_env) (mc_tables mc') 0 0x3FFFFFFFF000 = None"
proof -
  have "bi_inv (mc_alloc (wit_machine wit_tables))" using wit_alloc_ok by simp
  moreover have "using_count (vm_page_table wit_vm) (wit_machine wit_tables) = 1" by (simp add: using_count_def)
  ultimately obtain mc' where run: "ProcessVm_drop wit_env wit_vm (wit_machine wit_tables) = Inr mc'"
    and tr: "translate_page (env_x wit_env) (mc_tables mc') (pt_addr (vm_page_table wit_vm) (wit_machine wit_tables)) =
      (\<lambda>p. if p \<in> set (vm_pages wit_env wit_vm (wit_machine wit_tables)) then None
        else translate_page (env_x wit_env) (mc_tables (wit_machine wit_tables)) (pt_addr (vm_page_table wit_vm) (wit_machine wit_tables)) p)"
    using last_vm_drop_frees_all [OF wit_paging _ wit_vm_inv] by blast
  have "translate_page (env_x wit_env) (mc_tables mc') 0 0x3FFFFFFFF000 = None"
    using tr by (simp add: fun_eq_iff pt_addr_def vm_pages_def stack_pages_def)
  with run show ?thesis by blast
qed

end
