(* ===== verification/Sync.thy ===== *)
theory Sync
  imports Pid
begin

text \<open>
  Kernel semaphores (\<^verbatim>\<open>kernel/src/proc/sync.rs\<close>): the counting semaphore with its FIFO wait
  queue, and the keyed set of semaphores a group of forked processes shares. The contract of a
  counting semaphore is the locale \<open>counting_semaphore\<close>; the kernel's structure interprets it.
\<close>

section \<open>Data\<close>

datatype SemaphoreId = SemaphoreId u32

definition SemaphoreId_new :: "u32 \<Rightarrow> SemaphoreId" where
  "SemaphoreId_new key = SemaphoreId key"

record Semaphore =
  sem_count :: usize
  sem_wait_queue :: "ProcessId list"

datatype SemaphoreResult =
    SemOk
  | NotExist
  | Block ProcessId
  | WakeUp ProcessId

section \<open>One semaphore\<close>

definition Semaphore_new :: "usize \<Rightarrow> Semaphore" where
  "Semaphore_new value = \<lparr>sem_count = value, sem_wait_queue = []\<rparr>"

definition Semaphore_wait :: "Semaphore \<Rightarrow> ProcessId \<Rightarrow> SemaphoreResult \<times> Semaphore" where
  "Semaphore_wait s pid =
     (if sem_count s = 0
      then (Block pid, s\<lparr>sem_wait_queue := sem_wait_queue s @ [pid]\<rparr>)
      else (SemOk, s\<lparr>sem_count := sem_count s - 1\<rparr>))"

definition Semaphore_signal :: "Semaphore \<Rightarrow> SemaphoreResult \<times> Semaphore" where
  "Semaphore_signal s =
     (case sem_wait_queue s of
        pid # rest \<Rightarrow> (WakeUp pid, s\<lparr>sem_wait_queue := rest\<rparr>)
      | [] \<Rightarrow> (SemOk, s\<lparr>sem_count := sem_count s + 1\<rparr>))"

section \<open>The set of semaphores\<close>

record SemaphoreSet =
  sems :: "SemaphoreId \<rightharpoonup> Semaphore"

definition SemaphoreSet_default :: SemaphoreSet where
  "SemaphoreSet_default = \<lparr>sems = Map.empty\<rparr>"

definition SemaphoreSet_insert :: "SemaphoreSet \<Rightarrow> u32 \<Rightarrow> usize \<Rightarrow> bool \<times> SemaphoreSet" where
  "SemaphoreSet_insert ss key value =
     (let sid = SemaphoreId_new key
      in (sems ss sid = None, ss\<lparr>sems := (sems ss)(sid \<mapsto> Semaphore_new value)\<rparr>))"

definition SemaphoreSet_remove :: "SemaphoreSet \<Rightarrow> u32 \<Rightarrow> bool \<times> SemaphoreSet" where
  "SemaphoreSet_remove ss key =
     (let sid = SemaphoreId_new key
      in (sems ss sid \<noteq> None, ss\<lparr>sems := (sems ss)(sid := None)\<rparr>))"

definition SemaphoreSet_wait ::
    "SemaphoreSet \<Rightarrow> u32 \<Rightarrow> ProcessId \<Rightarrow> SemaphoreResult \<times> SemaphoreSet" where
  "SemaphoreSet_wait ss key pid =
     (let sid = SemaphoreId_new key
      in case sems ss sid of
           Some sem \<Rightarrow> (let (r, sem') = Semaphore_wait sem pid
                       in (r, ss\<lparr>sems := (sems ss)(sid \<mapsto> sem')\<rparr>))
         | None \<Rightarrow> (NotExist, ss))"

definition SemaphoreSet_signal ::
    "SemaphoreSet \<Rightarrow> u32 \<Rightarrow> SemaphoreResult \<times> SemaphoreSet" where
  "SemaphoreSet_signal ss key =
     (let sid = SemaphoreId_new key
      in case sems ss sid of
           Some sem \<Rightarrow> (let (r, sem') = Semaphore_signal sem
                       in (r, ss\<lparr>sems := (sems ss)(sid \<mapsto> sem')\<rparr>))
         | None \<Rightarrow> (NotExist, ss))"

section \<open>The contract of a counting semaphore\<close>

datatype sem_op = Wait_op ProcessId | Signal_op

text \<open>One operation, and a sequence of operations with its results, against a semaphore given by
  its two functions.\<close>

fun sem_step ::
    "('s \<Rightarrow> ProcessId \<Rightarrow> SemaphoreResult \<times> 's) \<Rightarrow> ('s \<Rightarrow> SemaphoreResult \<times> 's) \<Rightarrow>
     's \<Rightarrow> sem_op \<Rightarrow> SemaphoreResult \<times> 's" where
  "sem_step w g s (Wait_op p) = w s p"
| "sem_step w g s Signal_op = g s"

fun sem_run ::
    "('s \<Rightarrow> ProcessId \<Rightarrow> SemaphoreResult \<times> 's) \<Rightarrow> ('s \<Rightarrow> SemaphoreResult \<times> 's) \<Rightarrow>
     's \<Rightarrow> sem_op list \<Rightarrow> SemaphoreResult list \<times> 's" where
  "sem_run w g s [] = ([], s)"
| "sem_run w g s (x # ops) =
     (let (r, s') = sem_step w g s x; (rs, s'') = sem_run w g s' ops in (r # rs, s''))"

definition signals :: "sem_op list \<Rightarrow> nat" where
  "signals ops = length (filter (\<lambda>x. x = Signal_op) ops)"

text \<open>Acquisitions: a wait that returned \<^verbatim>\<open>Ok\<close>, or a signal that handed the unit over to a
  blocked process.\<close>

fun acquisitions :: "sem_op list \<Rightarrow> SemaphoreResult list \<Rightarrow> nat" where
  "acquisitions (Wait_op p # ops) (SemOk # rs) = Suc (acquisitions ops rs)"
| "acquisitions (Signal_op # ops) (WakeUp p # rs) = Suc (acquisitions ops rs)"
| "acquisitions (_ # ops) (_ # rs) = acquisitions ops rs"
| "acquisitions _ _ = 0"

fun blocked_by :: "SemaphoreResult list \<Rightarrow> ProcessId list" where
  "blocked_by [] = []"
| "blocked_by (Block p # rs) = p # blocked_by rs"
| "blocked_by (_ # rs) = blocked_by rs"

fun woken_by :: "SemaphoreResult list \<Rightarrow> ProcessId list" where
  "woken_by [] = []"
| "woken_by (WakeUp p # rs) = p # woken_by rs"
| "woken_by (_ # rs) = woken_by rs"

lemma signals_simps [simp]:
  "signals [] = 0" "signals (Wait_op p # ops) = signals ops" "signals (Signal_op # ops) = Suc (signals ops)"
  by (simp_all add: signals_def)

lemma signals_Cons: "signals (x # ops) = signals [x] + signals ops"
  by (simp add: signals_def)

lemma acquisitions_Cons: "acquisitions (x # ops) (r # rs) = acquisitions [x] [r] + acquisitions ops rs"
  by (cases x; cases r) auto

lemma blocked_by_Cons: "blocked_by (r # rs) = blocked_by [r] @ blocked_by rs"
  by (cases r) auto

lemma woken_by_Cons: "woken_by (r # rs) = woken_by [r] @ woken_by rs"
  by (cases r) auto

locale counting_semaphore =
  fixes wait :: "'s \<Rightarrow> ProcessId \<Rightarrow> SemaphoreResult \<times> 's"
    and signal :: "'s \<Rightarrow> SemaphoreResult \<times> 's"
    and units :: "'s \<Rightarrow> nat"
    and waiters :: "'s \<Rightarrow> ProcessId list"
    and capacity :: nat
    and invar :: "'s \<Rightarrow> bool"
  assumes wait_free: "invar s \<Longrightarrow> 0 < units s \<Longrightarrow>
      \<exists>s'. wait s p = (SemOk, s') \<and> units s' = units s - 1 \<and> waiters s' = waiters s \<and> invar s'"
    and wait_blocked: "invar s \<Longrightarrow> units s = 0 \<Longrightarrow>
      \<exists>s'. wait s p = (Block p, s') \<and> units s' = 0 \<and> waiters s' = waiters s @ [p] \<and> invar s'"
    and signal_waiter: "invar s \<Longrightarrow> waiters s = p # ps \<Longrightarrow>
      \<exists>s'. signal s = (WakeUp p, s') \<and> units s' = units s \<and> waiters s' = ps \<and> invar s'"
    and signal_free: "invar s \<Longrightarrow> waiters s = [] \<Longrightarrow> units s < capacity \<Longrightarrow>
      \<exists>s'. signal s = (SemOk, s') \<and> units s' = Suc (units s) \<and> waiters s' = [] \<and> invar s'"
    and waiters_only_at_zero: "invar s \<Longrightarrow> units s = 0 \<or> waiters s = []"
begin

text \<open>One operation conserves units and serves the queue from its head.\<close>

lemma step_conserves:
  assumes "invar s" and "units s + signals [x] \<le> capacity" and "sem_step wait signal s x = (r, t)"
  shows "invar t \<and> units s + signals [x] = units t + acquisitions [x] [r] \<and>
         waiters s @ blocked_by [r] = woken_by [r] @ waiters t"
proof (cases x)
  case (Wait_op p)
  then show ?thesis
    using assms wait_free [of s p] wait_blocked [of s p] by (cases "units s = 0") fastforce+
next
  case Signal_op
  then show ?thesis
    using assms signal_free [of s] signal_waiter [of s] by (cases "waiters s") fastforce+
qed

text \<open>Lifted to any sequence of operations that stays below the capacity.\<close>

lemma run_conserves:
  assumes "invar s" and "units s + signals ops \<le> capacity" and "sem_run wait signal s ops = (rs, s')"
  shows "invar s' \<and> units s + signals ops = units s' + acquisitions ops rs \<and>
         waiters s @ blocked_by rs = woken_by rs @ waiters s'"
  using assms
proof (induction ops arbitrary: s rs)
  case Nil
  then show ?case by simp
next
  case (Cons x ops)
  obtain r t where st: "sem_step wait signal s x = (r, t)" by fastforce
  obtain rs' where rs: "sem_run wait signal t ops = (rs', s')" "rs = r # rs'"
    using Cons.prems(3) st by (auto split: prod.splits)
  have step: "invar t \<and> units s + signals [x] = units t + acquisitions [x] [r] \<and>
      waiters s @ blocked_by [r] = woken_by [r] @ waiters t"
    using step_conserves [OF Cons.prems(1) _ st] Cons.prems(2) by (simp add: signals_Cons [of x ops])
  have IH: "invar s' \<and> units t + signals ops = units s' + acquisitions ops rs' \<and>
      waiters t @ blocked_by rs' = woken_by rs' @ waiters s'"
    using Cons.IH [OF _ _ rs(1)] step Cons.prems(2) by (simp add: signals_Cons [of x ops])
  show ?case
    using step IH unfolding rs(2) signals_Cons [of x ops] acquisitions_Cons [of x ops r rs']
      blocked_by_Cons [of r rs'] woken_by_Cons [of r rs'] by (metis add.assoc add.commute append.assoc)
qed

end

section \<open>The kernel's semaphore implements the contract\<close>

definition sem_inv :: "Semaphore \<Rightarrow> bool" where
  "sem_inv s \<longleftrightarrow> sem_count s = 0 \<or> sem_wait_queue s = []"

lemma sem_inv_new [inv_intros]: "sem_inv (Semaphore_new v)"
  by (simp add: sem_inv_def Semaphore_new_def)

lemma sem_inv_wait [inv_intros]: "sem_inv s \<Longrightarrow> Semaphore_wait s p = (r, s') \<Longrightarrow> sem_inv s'"
  by (auto simp: sem_inv_def Semaphore_wait_def split: if_splits)

lemma sem_inv_signal [inv_intros]: "sem_inv s \<Longrightarrow> Semaphore_signal s = (r, s') \<Longrightarrow> sem_inv s'"
  by (auto simp: sem_inv_def Semaphore_signal_def split: list.splits)

interpretation ksem: counting_semaphore Semaphore_wait Semaphore_signal
  "\<lambda>s. unat (sem_count s)" sem_wait_queue "2 ^ 64 - 1" sem_inv
proof (unfold_locales, goal_cases)
  case (1 s p)
  then show ?case
    by (auto simp: Semaphore_wait_def sem_inv_def unat_pred)
next
  case (4 s)
  then have "unat (sem_count s + 1) = Suc (unat (sem_count s))"
    by (intro unat_Suc_no_overflow) simp
  with 4 show ?case by (auto simp: Semaphore_signal_def sem_inv_def)
qed (auto simp: Semaphore_wait_def Semaphore_signal_def sem_inv_def unat_eq_zero)

section \<open>Properties\<close>

text \<open>C8. Semaphore safety. Starting from a fresh semaphore with \<open>v\<close> units, after any
  sequence of waits and signals the number of acquisitions (waits that returned \<^verbatim>\<open>Ok\<close> plus
  blocked processes that were woken) never exceeds \<open>v\<close> plus the number of signals; the
  difference is exactly the remaining count, as long as \<open>v\<close> plus the signals fit in a
  \<^verbatim>\<open>usize\<close>.\<close>

theorem semaphore_conserves_units:
  assumes "unat v + signals ops < 2 ^ 64"
    and "sem_run Semaphore_wait Semaphore_signal (Semaphore_new v) ops = (rs, s')"
  shows "unat (sem_count s') + acquisitions ops rs = unat v + signals ops \<and> sem_inv s'"
  using ksem.run_conserves [OF sem_inv_new _ assms(2)] assms(1)
  by (auto simp: Semaphore_new_def)

theorem semaphore_conserves_units_witness:
  "unat (sem_count (snd (sem_run Semaphore_wait Semaphore_signal (Semaphore_new 1)
       [Wait_op (ProcessId 2), Wait_op (ProcessId 3), Signal_op]))) +
     acquisitions [Wait_op (ProcessId 2), Wait_op (ProcessId 3), Signal_op]
       [SemOk, Block (ProcessId 3), WakeUp (ProcessId 3)] = 1 + 1"
proof -
  have run: "sem_run Semaphore_wait Semaphore_signal (Semaphore_new 1)
      [Wait_op (ProcessId 2), Wait_op (ProcessId 3), Signal_op] =
      ([SemOk, Block (ProcessId 3), WakeUp (ProcessId 3)], \<lparr>sem_count = 0, sem_wait_queue = []\<rparr>)"
    by (simp add: Semaphore_wait_def Semaphore_signal_def Semaphore_new_def)
  have "unat (1 :: usize) + signals [Wait_op (ProcessId 2), Wait_op (ProcessId 3), Signal_op] < 2 ^ 64"
    by simp
  from semaphore_conserves_units [OF this run] run show ?thesis by simp
qed

text \<open>First come, first served. The processes a semaphore blocked are woken in the order in
  which they blocked: the sequence of blocked pids is the sequence of woken pids followed by the
  queue of those still waiting.\<close>

theorem semaphore_wakes_in_fifo_order:
  assumes "unat v + signals ops < 2 ^ 64"
    and "sem_run Semaphore_wait Semaphore_signal (Semaphore_new v) ops = (rs, s')"
  shows "blocked_by rs = woken_by rs @ sem_wait_queue s'"
  using ksem.run_conserves [OF sem_inv_new _ assms(2)] assms(1)
  by (auto simp: Semaphore_new_def)

theorem semaphore_wakes_in_fifo_order_witness:
  "blocked_by [Block (ProcessId 2), Block (ProcessId 3), WakeUp (ProcessId 2)] =
     [ProcessId 2] @ [ProcessId 3]"
proof -
  have run: "sem_run Semaphore_wait Semaphore_signal (Semaphore_new 0)
      [Wait_op (ProcessId 2), Wait_op (ProcessId 3), Signal_op] =
      ([Block (ProcessId 2), Block (ProcessId 3), WakeUp (ProcessId 2)],
       \<lparr>sem_count = 0, sem_wait_queue = [ProcessId 3]\<rparr>)"
    by (simp add: Semaphore_wait_def Semaphore_signal_def Semaphore_new_def)
  have "unat (0 :: usize) + signals [Wait_op (ProcessId 2), Wait_op (ProcessId 3), Signal_op] < 2 ^ 64"
    by simp
  from semaphore_wakes_in_fifo_order [OF this run] show ?thesis by simp
qed

text \<open>Keys of a semaphore set are independent: an operation on one key changes no
  other semaphore, \<^verbatim>\<open>wait\<close> and \<^verbatim>\<open>signal\<close> on a missing key report \<^verbatim>\<open>NotExist\<close>
  and change nothing, \<^verbatim>\<open>insert\<close> makes the key's semaphore fresh whatever was there, and
  \<^verbatim>\<open>remove\<close> undoes the insertion of a new key.\<close>

theorem semaphore_set_keys_independent:
  "(k \<noteq> k' \<longrightarrow>
      sems (snd (SemaphoreSet_insert ss k v)) (SemaphoreId k') = sems ss (SemaphoreId k') \<and>
      sems (snd (SemaphoreSet_remove ss k)) (SemaphoreId k') = sems ss (SemaphoreId k') \<and>
      sems (snd (SemaphoreSet_wait ss k p)) (SemaphoreId k') = sems ss (SemaphoreId k') \<and>
      sems (snd (SemaphoreSet_signal ss k)) (SemaphoreId k') = sems ss (SemaphoreId k')) \<and>
   (sems ss (SemaphoreId k) = None \<longrightarrow>
      SemaphoreSet_wait ss k p = (NotExist, ss) \<and> SemaphoreSet_signal ss k = (NotExist, ss) \<and>
      snd (SemaphoreSet_remove (snd (SemaphoreSet_insert ss k v)) k) = ss) \<and>
   sems (snd (SemaphoreSet_insert ss k v)) (SemaphoreId k) = Some (Semaphore_new v) \<and>
   (fst (SemaphoreSet_insert ss k v) \<longleftrightarrow> sems ss (SemaphoreId k) = None) \<and>
   (fst (SemaphoreSet_remove ss k) \<longleftrightarrow> sems ss (SemaphoreId k) \<noteq> None)"
  by (auto simp: SemaphoreSet_insert_def SemaphoreSet_remove_def SemaphoreSet_wait_def
      SemaphoreSet_signal_def SemaphoreId_new_def Let_def fun_upd_idem split: option.splits prod.splits)

theorem semaphore_set_keys_independent_witness:
  "sems (snd (SemaphoreSet_insert SemaphoreSet_default 1 5)) (SemaphoreId 2) = None \<and>
   SemaphoreSet_wait SemaphoreSet_default 1 (ProcessId 3) = (NotExist, SemaphoreSet_default)"
  using semaphore_set_keys_independent [of 1 2 SemaphoreSet_default 5 "ProcessId 3"]
  by (simp add: SemaphoreSet_default_def)

end
