(* ===== verification/Input.thy ===== *)
theory Input
  imports Prelude
begin

text \<open>
  Keyboard and serial input (\<^verbatim>\<open>kernel/src/drivers/input.rs\<close>, \<^verbatim>\<open>kernel/src/interrupt/serial.rs\<close>): the
  UTF-8 functions of the Rust standard library that they use, the bounded key buffer and the decoding
  of received bytes. The buffer is \<^verbatim>\<open>crossbeam_queue::ArrayQueue\<close>, which is not part of the
  repository: its functions are a parameter, with its documented behaviour in the locale
  \<open>array_queue_spec\<close>.
\<close>

section \<open>UTF-8\<close>

text \<open>A Rust \<^verbatim>\<open>char\<close> is a Unicode scalar value, here a natural number.\<close>

type_synonym rchar = nat

definition scalar_value :: "rchar \<Rightarrow> bool" where
  "scalar_value c \<longleftrightarrow> c < 0xD800 \<or> 0xE000 \<le> c \<and> c < 0x110000"

definition encode_utf8 :: "rchar \<Rightarrow> u8 list" where
  "encode_utf8 c =
     (if c < 0x80 then [of_nat c]
      else if c < 0x800 then [of_nat (0xC0 + c div 64), of_nat (0x80 + c mod 64)]
      else if c < 0x10000
      then [of_nat (0xE0 + c div 4096), of_nat (0x80 + c div 64 mod 64), of_nat (0x80 + c mod 64)]
      else [of_nat (0xF0 + c div 262144), of_nat (0x80 + c div 4096 mod 64),
            of_nat (0x80 + c div 64 mod 64), of_nat (0x80 + c mod 64)])"

text \<open>\<^verbatim>\<open>core::str::from_utf8\<close>: exactly the well-formed sequences of the Unicode standard.\<close>

definition cont :: "u8 \<Rightarrow> bool" where
  "cont b \<longleftrightarrow> 0x80 \<le> unat b \<and> unat b \<le> 0xBF"

definition second3 :: "nat \<Rightarrow> nat \<Rightarrow> bool" where
  "second3 b0 b1 \<longleftrightarrow> (if b0 = 0xE0 then 0xA0 \<le> b1 \<and> b1 \<le> 0xBF
     else if b0 = 0xED then 0x80 \<le> b1 \<and> b1 \<le> 0x9F
     else 0xE1 \<le> b0 \<and> b0 \<le> 0xEF \<and> 0x80 \<le> b1 \<and> b1 \<le> 0xBF)"

definition second4 :: "nat \<Rightarrow> nat \<Rightarrow> bool" where
  "second4 b0 b1 \<longleftrightarrow> (if b0 = 0xF0 then 0x90 \<le> b1 \<and> b1 \<le> 0xBF
     else if b0 = 0xF4 then 0x80 \<le> b1 \<and> b1 \<le> 0x8F
     else 0xF1 \<le> b0 \<and> b0 \<le> 0xF3 \<and> 0x80 \<le> b1 \<and> b1 \<le> 0xBF)"

text \<open>The first character of a byte sequence and what follows it.\<close>

definition decode1 :: "u8 list \<Rightarrow> (rchar \<times> u8 list) option" where
  "decode1 bs =
     (case bs of
        [] \<Rightarrow> None
      | b0 # r0 \<Rightarrow>
          if unat b0 < 0x80 then Some (unat b0, r0)
          else (case r0 of
             [] \<Rightarrow> None
           | b1 # r1 \<Rightarrow>
               if 0xC2 \<le> unat b0 \<and> unat b0 \<le> 0xDF
               then (if cont b1 then Some ((unat b0 - 0xC0) * 64 + (unat b1 - 0x80), r1) else None)
               else (case r1 of
                  [] \<Rightarrow> None
                | b2 # r2 \<Rightarrow>
                    if second3 (unat b0) (unat b1)
                    then (if cont b2
                          then Some ((unat b0 - 0xE0) * 4096 + (unat b1 - 0x80) * 64 + (unat b2 - 0x80), r2)
                          else None)
                    else (case r2 of
                       [] \<Rightarrow> None
                     | b3 # r3 \<Rightarrow>
                         if second4 (unat b0) (unat b1) \<and> cont b2 \<and> cont b3
                         then Some ((unat b0 - 0xF0) * 262144 + (unat b1 - 0x80) * 4096 +
                                    (unat b2 - 0x80) * 64 + (unat b3 - 0x80), r3)
                         else None))))"

lemma decode1_shorter: "decode1 bs = Some (c, r) \<Longrightarrow> length r < length bs"
  by (auto simp: decode1_def split: list.splits if_splits)

function from_utf8 :: "u8 list \<Rightarrow> rchar list option" where
  "from_utf8 bs =
     (if bs = [] then Some []
      else case decode1 bs of
             None \<Rightarrow> None
           | Some (c, r) \<Rightarrow> map_option (Cons c) (from_utf8 r))"
  by pat_completeness auto
termination
  by (relation "measure length") (auto dest: decode1_shorter)

declare from_utf8.simps [simp del]

section \<open>The key buffer\<close>

text \<open>\<^verbatim>\<open>DecodedKey\<close> of the \<^verbatim>\<open>pc_keyboard\<close> crate; the code of a raw key is never looked at.\<close>

datatype DecodedKey = Unicode rchar | RawKey nat

record 'q array_queue =
  aq_new :: "nat \<Rightarrow> 'q"
  aq_push :: "DecodedKey \<Rightarrow> 'q \<Rightarrow> bool \<times> 'q"
  aq_pop :: "'q \<Rightarrow> DecodedKey option \<times> 'q"

definition BUFFER_SIZE :: nat where
  "BUFFER_SIZE = 128"

definition INPUT_BUF_init :: "'q array_queue \<Rightarrow> 'q" where
  "INPUT_BUF_init Q = aq_new Q BUFFER_SIZE"

text \<open>A key that does not fit is dropped with a warning.\<close>

definition push_key :: "'q array_queue \<Rightarrow> DecodedKey \<Rightarrow> 'q \<Rightarrow> 'q" where
  "push_key Q key q = snd (aq_push Q key q)"

definition try_pop_key :: "'q array_queue \<Rightarrow> 'q \<Rightarrow> DecodedKey option \<times> 'q" where
  "try_pop_key Q q = aq_pop Q q"

text \<open>\<^verbatim>\<open>get_line\<close> on the keys that \<^verbatim>\<open>pop_key\<close> delivers one after the other; \<^term>\<open>None\<close> when
  they end before a line end, in which case the kernel keeps waiting. The result is the line, what
  was echoed, and the keys left over.\<close>

definition line_len :: "rchar list \<Rightarrow> nat" where
  "line_len line = length (concat (map encode_utf8 line))"

definition backspace :: "rchar list" where
  "backspace = [0x08, 0x20, 0x08]"

fun get_line :: "rchar list \<Rightarrow> rchar list \<Rightarrow> DecodedKey list \<Rightarrow>
    (rchar list \<times> rchar list \<times> DecodedKey list) option" where
  "get_line line echo [] = None"
| "get_line line echo (RawKey k # keys) = get_line line echo keys"
| "get_line line echo (Unicode c # keys) =
     (if c = 0x08 \<or> c = 0x7F
      then (if line \<noteq> [] then get_line (butlast line) (echo @ backspace) keys else get_line line echo keys)
      else if c = 0x0A \<or> c = 0x0D then Some (line, echo @ [0x0A, 0x0D], keys)
      else if line_len line < BUFFER_SIZE then get_line (line @ [c]) (echo @ [c]) keys
      else get_line line echo keys)"

section \<open>Receiving from the serial port\<close>

definition INPUT_BUFFER_SIZE :: nat where
  "INPUT_BUFFER_SIZE = 4"

text \<open>The loop of \<^verbatim>\<open>receive\<close>; the list holds the bytes that the UART delivers before it reports
  that no more data is ready.\<close>

fun receive_loop :: "'q array_queue \<Rightarrow> u8 list \<Rightarrow> u8 list \<Rightarrow> 'q \<Rightarrow> 'q" where
  "receive_loop Q input_buffer [] q = q"
| "receive_loop Q input_buffer (c # cs) q =
     (let input_buffer = input_buffer @ [c]
      in case from_utf8 input_buffer of
           Some s \<Rightarrow>
             (case s of
                [] \<Rightarrow> receive_loop Q input_buffer cs q
              | ch # _ \<Rightarrow> receive_loop Q [] cs (push_key Q (Unicode ch) q))
         | None \<Rightarrow>
             if INPUT_BUFFER_SIZE \<le> length input_buffer then receive_loop Q [] cs q
             else receive_loop Q input_buffer cs q)"

definition receive :: "'q array_queue \<Rightarrow> u8 list \<Rightarrow> 'q \<Rightarrow> 'q" where
  "receive Q device q = receive_loop Q [] device q"

section \<open>The contract of the key buffer\<close>

locale array_queue_spec =
  fixes Q :: "'q array_queue"
    and contents :: "'q \<Rightarrow> DecodedKey list"
    and capacity :: "'q \<Rightarrow> nat"
  assumes new: "contents (aq_new Q n) = []" "capacity (aq_new Q n) = n"
    and push_room: "length (contents q) < capacity q \<Longrightarrow>
      \<exists>q'. aq_push Q k q = (True, q') \<and> contents q' = contents q @ [k] \<and> capacity q' = capacity q"
    and push_full: "capacity q \<le> length (contents q) \<Longrightarrow>
      \<exists>q'. aq_push Q k q = (False, q') \<and> contents q' = contents q \<and> capacity q' = capacity q"
    and pop_empty: "contents q = [] \<Longrightarrow>
      \<exists>q'. aq_pop Q q = (None, q') \<and> contents q' = [] \<and> capacity q' = capacity q"
    and pop_cons: "contents q = k # ks \<Longrightarrow>
      \<exists>q'. aq_pop Q q = (Some k, q') \<and> contents q' = ks \<and> capacity q' = capacity q"
begin

lemma push_key_contents:
  "contents (push_key Q k q) = (if length (contents q) < capacity q then contents q @ [k] else contents q)"
  "capacity (push_key Q k q) = capacity q"
  by (cases "length (contents q) < capacity q"; use push_room [of q k] push_full [of q k] in \<open>force simp: push_key_def\<close>)+

lemma push_key_take:
  "length (contents q) \<le> capacity q \<Longrightarrow> contents (push_key Q k q) = take (capacity q) (contents q @ [k])"
  by (auto simp: push_key_contents)

lemma push_keys_take:
  "length (contents q) \<le> capacity q \<Longrightarrow>
   contents (fold (push_key Q) ks q) = take (capacity q) (contents q @ ks) \<and>
   capacity (fold (push_key Q) ks q) = capacity q"
proof (induction ks arbitrary: q)
  case (Cons k ks)
  have "length (contents (push_key Q k q)) \<le> capacity (push_key Q k q)"
    using Cons.prems by (auto simp: push_key_contents)
  from Cons.IH [OF this] Cons.prems show ?case
    by (auto simp: push_key_contents take_Cons')
qed simp

end

text \<open>A list-based reference buffer, with its capacity.\<close>

definition ref_queue :: "(nat \<times> DecodedKey list) array_queue" where
  "ref_queue = \<lparr>
     aq_new = (\<lambda>n. (n, [])),
     aq_push = (\<lambda>k (n, ks). if length ks < n then (True, (n, ks @ [k])) else (False, (n, ks))),
     aq_pop = (\<lambda>(n, ks). case ks of [] \<Rightarrow> (None, (n, [])) | k # ks' \<Rightarrow> (Some k, (n, ks')))\<rparr>"

interpretation rq: array_queue_spec ref_queue snd fst
  by unfold_locales (auto simp: ref_queue_def)

section \<open>Decoding inverts encoding\<close>

lemma unat_byte: "n < 256 \<Longrightarrow> unat (of_nat n :: u8) = n"
  by (simp add: unat_of_nat)

lemma digits:
  obtains x y z :: nat where "c = x * 4096 + y * 64 + z" and "y < 64" and "z < 64"
    and "c div 4096 = x" and "c div 64 mod 64 = y" and "c mod 64 = z" and "c div 64 = x * 64 + y"
proof -
  have e: "c div 4096 = c div 64 div 64" by (simp add: div_mult2_eq [symmetric])
  have q: "c div 64 = c div 4096 * 64 + c div 64 mod 64" unfolding e by (rule div_mult_mod_eq [symmetric])
  have "c = c div 64 * 64 + c mod 64" by (rule div_mult_mod_eq [symmetric])
  then have "c = c div 4096 * 4096 + c div 64 mod 64 * 64 + c mod 64" using q by linarith
  then show thesis
    using q by (intro that [of "c div 4096" "c div 64 mod 64" "c mod 64"]) simp_all
qed

lemma decode1_encode: "scalar_value c \<Longrightarrow> decode1 (encode_utf8 c @ r) = Some (c, r)"
proof -
  assume s: "scalar_value c"
  consider "c < 0x80" | "0x80 \<le> c" "c < 0x800" | "0x800 \<le> c" "c < 0x10000" | "0x10000 \<le> c" by linarith
  then show ?thesis
  proof cases
    case 1
    then show ?thesis by (simp add: encode_utf8_def decode1_def unat_byte)
  next
    case 2
    obtain x y z where d: "c = x * 4096 + y * 64 + z" "y < 64" "z < 64" "c mod 64 = z" "c div 64 = x * 64 + y"
      using digits by metis
    have b: "x * 64 + y < 32" "2 \<le> x * 64 + y" using 2 d by linarith+
    have e: "encode_utf8 c = [of_nat (0xC0 + (x * 64 + y)), of_nat (0x80 + z)]"
      using 2 unfolding encode_utf8_def d(4,5) by simp
    have u: "unat (of_nat (0xC0 + (x * 64 + y)) :: u8) = 0xC0 + (x * 64 + y)" "unat (of_nat (0x80 + z) :: u8) = 0x80 + z"
      using b d by (intro unat_byte; linarith)+
    show ?thesis unfolding e decode1_def append.simps list.case u cont_def
      using b d by (simp add: algebra_simps)
  next
    case 3
    obtain x y z where d: "c = x * 4096 + y * 64 + z" "y < 64" "z < 64" "c div 4096 = x" "c div 64 mod 64 = y" "c mod 64 = z"
      using digits by metis
    have b: "x < 16" using 3 d by linarith
    have y0: "x = 0 \<Longrightarrow> 32 \<le> y" using 3 d by linarith
    have y13: "x = 13 \<Longrightarrow> y < 32" using s d unfolding scalar_value_def by linarith
    have e: "encode_utf8 c = [of_nat (0xE0 + x), of_nat (0x80 + y), of_nat (0x80 + z)]"
      using 3 unfolding encode_utf8_def d(4,5,6) by simp
    have u: "unat (of_nat (0xE0 + x) :: u8) = 0xE0 + x" "unat (of_nat (0x80 + y) :: u8) = 0x80 + y"
      "unat (of_nat (0x80 + z) :: u8) = 0x80 + z"
      using b d by (intro unat_byte; linarith)+
    have "second3 (0xE0 + x) (0x80 + y)" using y0 y13 b d(2) by (auto simp: second3_def)
    then show ?thesis unfolding e decode1_def append.simps list.case u cont_def
      using b d by (simp add: algebra_simps)
  next
    case 4
    obtain x y z where d: "c = x * 4096 + y * 64 + z" "y < 64" "z < 64" "c div 4096 = x" "c div 64 mod 64 = y" "c mod 64 = z"
      using digits by metis
    obtain w v where x: "x = w * 64 + v" "v < 64" "x mod 64 = v" "x div 64 = w"
      by (metis div_mult_mod_eq mod_less_divisor zero_less_numeral)
    have cw: "c div 262144 = w" using x(4) d(4) div_mult2_eq [of c 4096 64] by simp
    have b: "w < 5" "w = 0 \<Longrightarrow> 16 \<le> v" "w = 4 \<Longrightarrow> v < 16" using 4 d x s unfolding scalar_value_def by linarith+
    have e: "encode_utf8 c = [of_nat (0xF0 + w), of_nat (0x80 + v), of_nat (0x80 + y), of_nat (0x80 + z)]"
      using 4 unfolding encode_utf8_def d(4,5,6) cw x(3) by simp
    have u: "unat (of_nat (0xF0 + w) :: u8) = 0xF0 + w" "unat (of_nat (0x80 + v) :: u8) = 0x80 + v"
      "unat (of_nat (0x80 + y) :: u8) = 0x80 + y" "unat (of_nat (0x80 + z) :: u8) = 0x80 + z"
      using b d x by (intro unat_byte; linarith)+
    have "second4 (0xF0 + w) (0x80 + v)" "\<not> second3 (0xF0 + w) (0x80 + v)"
      using b x(2) by (auto simp: second4_def second3_def)
    then show ?thesis unfolding e decode1_def append.simps list.case u cont_def
      using b d x by (simp add: algebra_simps)
  qed
qed


lemma length_encode_utf8: "0 < length (encode_utf8 c)" "length (encode_utf8 c) \<le> 4"
  by (simp_all add: encode_utf8_def)

lemma decode1_append:
  assumes "decode1 bs = Some (c, r)"
  shows "decode1 (bs @ s) = Some (c, r @ s)"
proof -
  consider "bs = []" | b0 where "bs = [b0]" | b0 b1 where "bs = [b0, b1]" | b0 b1 b2 where "bs = [b0, b1, b2]"
    | b0 b1 b2 b3 r3 where "bs = b0 # b1 # b2 # b3 # r3"
    by (metis list.exhaust)
  then show ?thesis
    using assms by cases (simp_all add: decode1_def split: if_splits)
qed

lemma from_utf8_encode:
  assumes "scalar_value c"
  shows "from_utf8 (encode_utf8 c) = Some [c]"
  using decode1_encode [OF assms, of "[]"] length_encode_utf8(1) [of c]
  by (subst from_utf8.simps) (auto simp: from_utf8.simps [of "[]"])

lemma from_utf8_proper_prefix:
  assumes "scalar_value c" and "encode_utf8 c = p @ s" and "p \<noteq> []" and "s \<noteq> []"
  shows "from_utf8 p = None"
proof -
  have "decode1 p = None"
  proof (cases "decode1 p")
    case (Some y)
    then obtain c' r where "decode1 p = Some (c', r)" by (cases y) auto
    from decode1_append [OF this, of s] decode1_encode [OF assms(1), of "[]"] assms(2,4) show ?thesis by simp
  qed
  then show ?thesis using assms(3) by (subst from_utf8.simps) simp
qed

text \<open>No character starts with a continuation byte.\<close>

lemma from_utf8_cont: "cont b \<Longrightarrow> from_utf8 (b # bs) = None"
  by (subst from_utf8.simps) (auto simp: decode1_def cont_def second3_def second4_def split: list.splits)

lemma encode_utf8_tail_cont: "b \<in> set (tl (encode_utf8 c)) \<Longrightarrow> cont b"
proof -
  have lt: "c div 64 mod 64 < 64" "c mod 64 < 64" "c div 4096 mod 64 < 64" by simp_all
  have "cont (of_nat (128 + k))" if "k < 64" for k
    using that unat_byte [of "128 + k"] unfolding cont_def by simp
  with lt show "b \<in> set (tl (encode_utf8 c)) \<Longrightarrow> cont b"
    unfolding encode_utf8_def by (auto simp del: of_nat_add split: if_splits)
qed

lemma receive_char:
  assumes "scalar_value c" and "encode_utf8 c = p @ s" and "s \<noteq> []"
  shows "receive_loop Q p (s @ rest) q = receive_loop Q [] rest (push_key Q (Unicode c) q)"
  using assms(2,3)
proof (induction s arbitrary: p)
  case (Cons b s)
  show ?case
  proof (cases "s = []")
    case True
    then have "from_utf8 (p @ [b]) = Some [c]" using from_utf8_encode [OF assms(1)] Cons.prems(1) by simp
    then show ?thesis using True by simp
  next
    case False
    have e: "encode_utf8 c = (p @ [b]) @ s" using Cons.prems(1) by simp
    then have "from_utf8 (p @ [b]) = None" using from_utf8_proper_prefix [OF assms(1)] False by blast
    moreover have "length (p @ [b]) < 4" using e length_encode_utf8(2) [of c] False by (cases s) auto
    ultimately show ?thesis using Cons.IH [OF e False] by (simp add: INPUT_BUFFER_SIZE_def)
  qed
qed simp

lemma receive_chars:
  "\<forall>c \<in> set cs. scalar_value c \<Longrightarrow>
   receive_loop Q [] (concat (map encode_utf8 cs)) q = fold (push_key Q) (map Unicode cs) q"
proof (induction cs arbitrary: q)
  case (Cons c cs)
  have "encode_utf8 c \<noteq> []" using length_encode_utf8(1) [of c] by auto
  with Cons receive_char [of c "[]" "encode_utf8 c" Q "concat (map encode_utf8 cs)" q] show ?case by simp
qed simp

lemma receive_loop_stuck:
  assumes "\<forall>n. 0 < n \<longrightarrow> n \<le> length bs \<longrightarrow> from_utf8 (buf @ take n bs) = None" and "length (buf @ bs) < 4"
  shows "receive_loop Q buf bs q = q"
  using assms
proof (induction bs arbitrary: buf)
  case (Cons b bs)
  have "from_utf8 (buf @ [b]) = None" using Cons.prems(1) [rule_format, of 1] by simp
  moreover have "\<forall>n. 0 < n \<longrightarrow> n \<le> length bs \<longrightarrow> from_utf8 ((buf @ [b]) @ take n bs) = None"
    using Cons.prems(1) [rule_format, of "Suc _"] by simp
  ultimately show ?case using Cons.IH [of "buf @ [b]"] Cons.prems(2) by (simp add: INPUT_BUFFER_SIZE_def)
qed simp

section \<open>Properties\<close>

text \<open>The serial interrupt decodes what it receives: when the UART delivers the UTF-8 encoding of
  some characters in one interrupt, exactly these characters are appended to the key buffer, in
  order, as long as there is room; the buffer never holds more keys than its capacity (128 for the
  kernel's buffer), and keys that do not fit are dropped.\<close>

theorem receive_decodes_utf8:
  assumes "array_queue_spec Q contents capacity" and "\<forall>c \<in> set cs. scalar_value c"
    and "length (contents q) \<le> capacity q"
  shows "contents (receive Q (concat (map encode_utf8 cs)) q) = take (capacity q) (contents q @ map Unicode cs) \<and>
    capacity (receive Q (concat (map encode_utf8 cs)) q) = capacity q \<and>
    contents (INPUT_BUF_init Q) = [] \<and> capacity (INPUT_BUF_init Q) = 128"
  using array_queue_spec.push_keys_take [OF assms(1,3), of "map Unicode cs"] array_queue_spec.new [OF assms(1)]
  unfolding receive_def receive_chars [OF assms(2)] by (simp add: INPUT_BUF_init_def BUFFER_SIZE_def)

theorem receive_decodes_utf8_witness:
  "snd (receive ref_queue [0xE4, 0xB8, 0xAD, 0x41] (128, [])) = [Unicode 0x4E2D, Unicode 0x41]"
proof -
  have "concat (map encode_utf8 [0x4E2D, 0x41]) = [0xE4, 0xB8, 0xAD, 0x41]" by (simp add: encode_utf8_def)
  moreover have "\<forall>c \<in> set [0x4E2D, 0x41]. scalar_value c" by (simp add: scalar_value_def)
  ultimately show ?thesis
    using receive_decodes_utf8 [OF rq.array_queue_spec_axioms, of "[0x4E2D, 0x41]" "(128, [])"] by simp
qed

text \<open>A character whose bytes arrive in two interrupts is lost: the byte buffer is local to one
  call of \<^verbatim>\<open>receive\<close>, so neither part is decoded and the key buffer does not change.\<close>

theorem receive_split_loses_char:
  assumes "scalar_value c" and "encode_utf8 c = p @ s" and "p \<noteq> []" and "s \<noteq> []"
  shows "receive Q s (receive Q p q) = q"
proof -
  have len: "length p + length s \<le> 4" using length_encode_utf8(2) [of c] assms(2) by simp
  have "receive_loop Q [] p q = q"
  proof (rule receive_loop_stuck)
    show "\<forall>n. 0 < n \<longrightarrow> n \<le> length p \<longrightarrow> from_utf8 ([] @ take n p) = None"
    proof (intro allI impI)
      fix n assume n: "0 < n" "n \<le> length p"
      have "encode_utf8 c = take n p @ (drop n p @ s)" using assms(2) by simp
      then show "from_utf8 ([] @ take n p) = None"
        using from_utf8_proper_prefix [OF assms(1), of "take n p" "drop n p @ s"] n assms(3,4) by simp
    qed
    show "length ([] @ p) < 4" using len assms(4) by (cases s) auto
  qed
  moreover have "receive_loop Q [] s q = q"
  proof (rule receive_loop_stuck)
    obtain b s' where s: "s = b # s'" using assms(4) by (cases s) auto
    have "b \<in> set (tl (encode_utf8 c))" using assms(2,3) s by (cases p) auto
    then have "cont b" by (rule encode_utf8_tail_cont)
    then show "\<forall>n. 0 < n \<longrightarrow> n \<le> length s \<longrightarrow> from_utf8 ([] @ take n s) = None"
      using s from_utf8_cont by (auto simp: take_Cons')
    show "length ([] @ s) < 4" using len assms(3) by (cases p) auto
  qed
  ultimately show ?thesis by (simp add: receive_def)
qed

theorem receive_split_loses_char_witness:
  "receive ref_queue [0xA9] (receive ref_queue [0xC3] (128, [])) = (128, [])"
proof -
  have "scalar_value 0xE9" "encode_utf8 0xE9 = [0xC3] @ [0xA9]" by (simp_all add: scalar_value_def encode_utf8_def)
  from receive_split_loses_char [OF this] show ?thesis by simp
qed

section \<open>Whatever arrives\<close>

lemma decode1_scalar: "decode1 bs = Some (c, r) \<Longrightarrow> scalar_value c"
  by (auto simp: decode1_def scalar_value_def cont_def second3_def second4_def split: list.splits if_splits) linarith+

lemma from_utf8_scalar: "from_utf8 bs = Some s \<Longrightarrow> \<forall>c \<in> set s. scalar_value c"
proof (induction bs arbitrary: s rule: from_utf8.induct)
  case (1 bs)
  show ?case
  proof (cases "bs = []")
    case False
    with "1.prems" obtain c r s' where d: "decode1 bs = Some (c, r)" "from_utf8 r = Some s'" "s = c # s'"
      by (subst (asm) from_utf8.simps) (auto split: option.splits)
    then show ?thesis using "1.IH" [OF False d(1) refl d(2)] decode1_scalar by auto
  qed (use "1.prems" in \<open>simp add: from_utf8.simps\<close>)
qed

text \<open>What a run of bytes means to the loop of \<^verbatim>\<open>receive\<close>, read from the front: a character if one starts
  there; otherwise four bytes are passed over, and fewer than four that are left at the end are dropped.\<close>

function decode_stream :: "u8 list \<Rightarrow> rchar list" where
  "decode_stream bs =
     (case decode1 bs of
        Some (c, r) \<Rightarrow> c # decode_stream r
      | None \<Rightarrow> if length bs < 4 then [] else decode_stream (drop 4 bs))"
  by pat_completeness auto
termination
  by (relation "measure length") (auto dest: decode1_shorter)

declare decode_stream.simps [simp del]

lemma decode1_prefix: "decode1 (bs @ s) = None \<Longrightarrow> decode1 bs = None"
  using decode1_append [of bs _ _ s] by (cases "decode1 bs") auto

lemma from_utf8_none: "bs \<noteq> [] \<Longrightarrow> decode1 bs = None \<Longrightarrow> from_utf8 bs = None"
  by (subst from_utf8.simps) simp

lemma decode1_split:
  assumes "decode1 bs = Some (c, r)"
  obtains e where "bs = e @ r" and "e \<noteq> []" and "length e \<le> 4" and "decode1 e = Some (c, [])"
    and "\<And>p s. e = p @ s \<Longrightarrow> s \<noteq> [] \<Longrightarrow> decode1 p = None"
proof -
  consider "bs = []" | b0 where "bs = [b0]" | b0 b1 where "bs = [b0, b1]" | b0 b1 b2 where "bs = [b0, b1, b2]"
    | b0 b1 b2 b3 r3 where "bs = b0 # b1 # b2 # b3 # r3"
    by (metis list.exhaust)
  then have "\<exists>n \<le> 4. bs = take n bs @ r \<and> take n bs \<noteq> [] \<and> decode1 (take n bs) = Some (c, [])"
  proof cases
    case (5 b0 b1 b2 b3 r3)
    consider "unat b0 < 0x80" | "\<not> unat b0 < 0x80" "0xC2 \<le> unat b0 \<and> unat b0 \<le> 0xDF"
      | "\<not> unat b0 < 0x80" "\<not> (0xC2 \<le> unat b0 \<and> unat b0 \<le> 0xDF)" "second3 (unat b0) (unat b1)"
      | "\<not> unat b0 < 0x80" "\<not> (0xC2 \<le> unat b0 \<and> unat b0 \<le> 0xDF)" "\<not> second3 (unat b0) (unat b1)" by blast
    then show ?thesis
    proof cases
      case 1
      then show ?thesis using 5 assms by (intro exI [of _ 1]) (simp add: decode1_def)
    next
      case 2
      then show ?thesis using 5 assms by (intro exI [of _ 2]) (auto simp: decode1_def split: if_splits)
    next
      case 3
      then show ?thesis using 5 assms unfolding decode1_def by (intro exI [of _ 3]) (simp split: if_split_asm del: not_less)
    next
      case 4
      then show ?thesis using 5 assms unfolding decode1_def by (intro exI [of _ 4]) (simp split: if_split_asm del: not_less)
    qed
  next
    case (2 b0)
    then show ?thesis using assms by (intro exI [of _ 1]) (simp add: decode1_def split: if_splits)
  next
    case (3 b0 b1)
    then show ?thesis
      using assms by (intro exI [of _ "if unat b0 < 0x80 then 1 else 2"]) (simp add: decode1_def split: if_splits)
  next
    case (4 b0 b1 b2)
    then show ?thesis
      using assms by (intro exI [of _ "if unat b0 < 0x80 then 1 else if 0xC2 \<le> unat b0 \<and> unat b0 \<le> 0xDF then 2 else 3"]) (simp add: decode1_def split: if_splits)
  qed (use assms in \<open>simp add: decode1_def\<close>)
  then obtain n where n: "n \<le> 4" "bs = take n bs @ r" "take n bs \<noteq> []" "decode1 (take n bs) = Some (c, [])" by blast
  define e where "e = take n bs"
  have e: "bs = e @ r" "e \<noteq> []" "length e \<le> 4" "decode1 e = Some (c, [])"
    using n unfolding e_def length_take by (blast | simp)+
  have "decode1 p = None" if "e = p @ s" "s \<noteq> []" for p s
    using decode1_append [of p _ _ s] e(4) that by (cases "decode1 p") auto
  with e show thesis using that by blast
qed

lemma receive_group:
  assumes "from_utf8 (buf @ s) = Some [c] \<or> from_utf8 (buf @ s) = None \<and> length (buf @ s) = 4" and "s \<noteq> []"
    and "\<And>p t. s = p @ t \<Longrightarrow> p \<noteq> [] \<Longrightarrow> t \<noteq> [] \<Longrightarrow> from_utf8 (buf @ p) = None" and "length (buf @ s) \<le> 4"
  shows "receive_loop Q buf (s @ rest) q =
    receive_loop Q [] rest (if from_utf8 (buf @ s) = None then q else push_key Q (Unicode c) q)"
  using assms
proof (induction s arbitrary: buf)
  case (Cons b s)
  show ?case
  proof (cases "s = []")
    case True
    then show ?thesis using Cons.prems(1) by (auto simp: INPUT_BUFFER_SIZE_def)
  next
    case False
    have "from_utf8 (buf @ [b]) = None" using Cons.prems(3) [of "[b]" s] False by simp
    moreover have "length (buf @ [b]) < 4" using Cons.prems(4) False by (cases s) auto
    moreover have "from_utf8 ((buf @ [b]) @ p) = None" if "s = p @ t" "p \<noteq> []" "t \<noteq> []" for p t
      using Cons.prems(3) [of "b # p" t] that by simp
    ultimately show ?thesis using Cons.IH [of "buf @ [b]"] Cons.prems(1,4) False by (simp add: INPUT_BUFFER_SIZE_def)
  qed
qed simp

lemma receive_loop_decodes: "receive_loop Q [] bs q = fold (push_key Q) (map Unicode (decode_stream bs)) q"
proof (induction bs arbitrary: q rule: decode_stream.induct)
  case (1 bs)
  show ?case
  proof (cases "decode1 bs")
    case (Some cr)
    then obtain c r where d: "decode1 bs = Some (c, r)" by (cases cr) auto
    obtain e where e: "bs = e @ r" "e \<noteq> []" "length e \<le> 4" "decode1 e = Some (c, [])"
      and pre: "\<And>p s. e = p @ s \<Longrightarrow> s \<noteq> [] \<Longrightarrow> decode1 p = None"
      by (rule decode1_split [OF d]) blast
    have "from_utf8 e = Some [c]" using e(2,4) by (subst from_utf8.simps) (simp add: from_utf8.simps [of "[]"])
    then have "receive_loop Q [] bs q = receive_loop Q [] r (push_key Q (Unicode c) q)"
      using receive_group [of "[]" e c Q r q] e(1,2,3) pre from_utf8_none by simp
    then show ?thesis using "1.IH"(2) [OF d refl] d by (simp add: decode_stream.simps [of bs])
  next
    case None
    show ?thesis
    proof (cases "length bs < 4")
      case True
      have "from_utf8 ([] @ take n bs) = None" if "0 < n" "n \<le> length bs" for n
        using decode1_prefix [of "take n bs" "drop n bs"] None that from_utf8_none [of "take n bs"] by fastforce
      then have "receive_loop Q [] bs q = q" using receive_loop_stuck [of bs "[]" Q q] True by simp
      then show ?thesis using True None by (simp add: decode_stream.simps [of bs])
    next
      case False
      have pre: "from_utf8 p = None" if "take 4 bs = p @ t" "p \<noteq> []" for p t
      proof -
        have "bs = p @ (t @ drop 4 bs)" using that(1) append_take_drop_id [of 4 bs] by simp
        then show ?thesis using decode1_prefix None from_utf8_none that(2) by metis
      qed
      have four: "length (take 4 bs) = 4" "take 4 bs \<noteq> []" using False by auto
      then have "from_utf8 (take 4 bs) = None" using pre [of "take 4 bs" "[]"] by simp
      then have "receive_loop Q [] (take 4 bs @ drop 4 bs) q = receive_loop Q [] (drop 4 bs) q"
        using receive_group [of "[]" "take 4 bs" _ Q "drop 4 bs" q] four pre by simp
      then show ?thesis using "1.IH"(1) [OF None False] None False by (simp add: decode_stream.simps [of bs])
    qed
  qed
qed

text \<open>Well-formed text comes out as it is, and what follows it is read from there on.\<close>

lemma decode_stream_text: "from_utf8 bs = Some s \<Longrightarrow> decode_stream (bs @ rest) = s @ decode_stream rest"
proof (induction bs arbitrary: s rule: from_utf8.induct)
  case (1 bs)
  show ?case
  proof (cases "bs = []")
    case False
    with "1.prems" obtain c r s' where d: "decode1 bs = Some (c, r)" "from_utf8 r = Some s'" "s = c # s'"
      by (subst (asm) from_utf8.simps) (auto split: option.splits)
    then show ?thesis
      using "1.IH" [OF False d(1) refl d(2)] decode1_append [OF d(1), of rest] by (simp add: decode_stream.simps [of "bs @ rest"])
  qed (use "1.prems" in \<open>simp add: from_utf8.simps\<close>)
qed

lemma decode_stream_scalar: "c \<in> set (decode_stream bs) \<Longrightarrow> scalar_value c"
proof (induction bs rule: decode_stream.induct)
  case (1 bs)
  then show ?case
    by (subst (asm) decode_stream.simps) (auto dest: decode1_scalar split: option.splits if_splits)
qed

context array_queue_spec
begin

lemma receives_decode:
  "length (contents q) \<le> capacity q \<Longrightarrow>
   contents (fold (receive Q) interrupts q) = take (capacity q) (contents q @ map Unicode (concat (map decode_stream interrupts))) \<and>
   capacity (fold (receive Q) interrupts q) = capacity q"
proof (induction interrupts arbitrary: q)
  case (Cons bs interrupts)
  have one: "contents (receive Q bs q) = take (capacity q) (contents q @ map Unicode (decode_stream bs))"
    "capacity (receive Q bs q) = capacity q"
    using push_keys_take [OF Cons.prems, of "map Unicode (decode_stream bs)"] by (simp_all add: receive_def receive_loop_decodes)
  then have "length (contents (receive Q bs q)) \<le> capacity (receive Q bs q)" by simp
  from Cons.IH [OF this] one show ?case by (auto simp: take_append min_def)
qed simp

end

definition line_ok :: "rchar list \<Rightarrow> bool" where
  "line_ok line \<longleftrightarrow> (\<forall>c \<in> set line. scalar_value c \<and> c \<notin> {0x08, 0x7F, 0x0A, 0x0D}) \<and> line_len line < BUFFER_SIZE + 4"

lemma line_ok_butlast: "line_ok line \<Longrightarrow> line_ok (butlast line)"
  by (cases line rule: rev_cases) (auto simp: line_ok_def line_len_def)

lemma line_ok_snoc:
  "line_ok line \<Longrightarrow> line_len line < BUFFER_SIZE \<Longrightarrow> scalar_value c \<Longrightarrow> c \<notin> {0x08, 0x7F, 0x0A, 0x0D} \<Longrightarrow> line_ok (line @ [c])"
  using length_encode_utf8(2) [of c] by (auto simp: line_ok_def line_len_def)

lemma get_line_typed:
  "get_line line echo keys = Some (line', echo', rest) \<Longrightarrow> \<forall>c. Unicode c \<in> set keys \<longrightarrow> scalar_value c \<Longrightarrow> line_ok line \<Longrightarrow> line_ok line'"
proof (induction line echo keys rule: get_line.induct)
  case (3 line echo c keys)
  then have k: "\<forall>c. Unicode c \<in> set keys \<longrightarrow> scalar_value c" "scalar_value c" by auto
  show ?case
  proof (cases "c = 0x08 \<or> c = 0x7F")
    case True
    then show ?thesis
      using "3.IH"(1,2) [OF True] "3.prems" k(1) line_ok_butlast by (cases "line = []") auto
  next
    case False
    then show ?thesis
      using "3.IH"(3,4) [OF False] "3.prems" k line_ok_snoc [of line c] by (auto split: if_splits)
  qed
qed auto

text \<open>C38. What arrives at the serial port, decoded byte by byte into a buffer of four bytes, is what a decoder of the
  whole run of bytes would find. Whatever bytes arrive, in however many interrupts, the key buffer holds exactly the
  characters of the bytes of each interrupt, in order, the first 128 of them. Here a run of bytes is read from the front:
  a well-formed UTF-8 sequence is its character; where none starts, four bytes are passed over, and fewer than four
  at the end of an interrupt are dropped. So well-formed text is never changed by what follows it, all characters are
  Unicode scalar values, and a line read from the buffer holds neither line ends nor editing keys and at most 131 bytes.\<close>

theorem serial_input_decoded:
  assumes "array_queue_spec Q contents capacity" and keys: "keys = contents (fold (receive Q) interrupts (INPUT_BUF_init Q))"
  shows "keys = take 128 (map Unicode (concat (map decode_stream interrupts))) \<and>
    (\<forall>bs rest s. from_utf8 bs = Some s \<longrightarrow> decode_stream (bs @ rest) = s @ decode_stream rest) \<and>
    (\<forall>bs. \<forall>c \<in> set (decode_stream bs). scalar_value c) \<and>
    (\<forall>line echo rest. get_line [] [] keys = Some (line, echo, rest) \<longrightarrow>
      (\<forall>c \<in> set line. scalar_value c \<and> c \<notin> {0x08, 0x7F, 0x0A, 0x0D}) \<and> line_len line < 132)"
proof -
  note init = array_queue_spec.new [OF assms(1), of BUFFER_SIZE, folded INPUT_BUF_init_def]
  have keys': "keys = take 128 (map Unicode (concat (map decode_stream interrupts)))"
    using array_queue_spec.receives_decode [OF assms(1), of "INPUT_BUF_init Q" interrupts] init by (simp add: keys BUFFER_SIZE_def)
  have "\<forall>c. Unicode c \<in> set keys \<longrightarrow> scalar_value c"
    using decode_stream_scalar unfolding keys' by (fastforce dest: in_set_takeD)
  from get_line_typed [OF _ this, of "[]" "[]"] have
    "get_line [] [] keys = Some (line, echo, rest) \<Longrightarrow> line_ok line" for line echo rest
    by (simp add: line_ok_def line_len_def BUFFER_SIZE_def)
  then have "\<forall>line echo rest. get_line [] [] keys = Some (line, echo, rest) \<longrightarrow>
      (\<forall>c \<in> set line. scalar_value c \<and> c \<notin> {0x08, 0x7F, 0x0A, 0x0D}) \<and> line_len line < 132"
    unfolding line_ok_def BUFFER_SIZE_def by force
  then show ?thesis using keys' decode_stream_text decode_stream_scalar by blast
qed

text \<open>A character in two bytes, a bad byte that swallows the three characters after it, and a line end in a
  second interrupt.\<close>

theorem serial_input_decoded_witness:
  "snd (fold (receive ref_queue) [[0xC3, 0xA9, 0xFF, 0x41, 0x42, 0x43, 0x44], [0x0D]] (INPUT_BUF_init ref_queue)) =
     [Unicode 0xE9, Unicode 0x44, Unicode 0x0D]"
proof -
  have "decode_stream [0xC3, 0xA9, 0xFF, 0x41, 0x42, 0x43, 0x44] = [0xE9, 0x44]" "decode_stream [0x0D] = [0x0D]"
    by (simp_all add: decode_stream.simps decode1_def cont_def second3_def second4_def)
  with serial_input_decoded [OF rq.array_queue_spec_axioms refl, of "[[0xC3, 0xA9, 0xFF, 0x41, 0x42, 0x43, 0x44], [0x0D]]"]
  show ?thesis by simp
qed

end
