(* ===== verification/Resource.thy ===== *)
theory Resource
  imports Input "HOL-Library.AList"
begin

text \<open>
  The file descriptors of a process (\<^verbatim>\<open>kernel/src/utils/resource.rs\<close>). The \<^verbatim>\<open>BTreeMap\<close> of handles is
  an association list with distinct keys. Output is recorded as events: the bytes that are converted
  with \<^verbatim>\<open>from_utf8_lossy\<close> and printed, or logged as a warning.
\<close>

datatype StdIO = Stdin | Stdout | Stderr

datatype Resource = Console StdIO | Null

datatype out_event = Print "u8 list" | Warn "u8 list"

record ResourceSet =
  handles :: "(u8 \<times> Resource) list"

definition ResourceSet_open :: "ResourceSet \<Rightarrow> Resource \<Rightarrow> u8 \<times> ResourceSet" where
  "ResourceSet_open rs res =
     (let fd = of_nat (length (handles rs))
      in (fd, rs\<lparr>handles := AList.update fd res (handles rs)\<rparr>))"

definition ResourceSet_close :: "ResourceSet \<Rightarrow> u8 \<Rightarrow> bool \<times> ResourceSet" where
  "ResourceSet_close rs fd =
     (map_of (handles rs) fd \<noteq> None, rs\<lparr>handles := AList.delete fd (handles rs)\<rparr>)"

definition ResourceSet_default :: ResourceSet where
  "ResourceSet_default =
     (let res = \<lparr>handles = []\<rparr>;
          (_, res) = ResourceSet_open res (Console Stdin);
          (_, res) = ResourceSet_open res (Console Stdout);
          (_, res) = ResourceSet_open res (Console Stderr)
      in res)"

text \<open>\<^verbatim>\<open>read\<close> fills the front of the buffer; the result is the count, the buffer and the key
  buffer.\<close>

definition Resource_read :: "'q array_queue \<Rightarrow> Resource \<Rightarrow> u8 list \<Rightarrow> 'q \<Rightarrow> usize option \<times> u8 list \<times> 'q" where
  "Resource_read Q res buf q =
     (case res of
        Console stdio \<Rightarrow>
          (case stdio of
             Stdin \<Rightarrow>
               if length buf < 4 then (Some 0, buf, q)
               else (case try_pop_key Q q of
                       (Some (Unicode key), q') \<Rightarrow>
                         (let s = encode_utf8 key in (Some (of_nat (length s)), s @ drop (length s) buf, q'))
                     | (_, q') \<Rightarrow> (Some 0, buf, q'))
           | _ \<Rightarrow> (None, buf, q))
      | Null \<Rightarrow> (Some 0, buf, q))"

definition Resource_write :: "Resource \<Rightarrow> u8 list \<Rightarrow> usize option \<times> out_event list" where
  "Resource_write res buf =
     (case res of
        Console stdio \<Rightarrow>
          (case stdio of
             Stdin \<Rightarrow> (None, [])
           | Stdout \<Rightarrow> (Some (of_nat (length buf)), [Print buf])
           | Stderr \<Rightarrow> (Some (of_nat (length buf)), [Warn buf]))
      | Null \<Rightarrow> (Some (of_nat (length buf)), []))"

text \<open>The \<^verbatim>\<open>isize\<close> results are kept as 64-bit words; \<open>-1\<close> is \<^term>\<open>- 1 :: isize\<close>.\<close>

definition ResourceSet_read :: "'q array_queue \<Rightarrow> ResourceSet \<Rightarrow> u8 \<Rightarrow> u8 list \<Rightarrow> 'q \<Rightarrow> isize \<times> u8 list \<times> 'q" where
  "ResourceSet_read Q rs fd buf q =
     (case map_of (handles rs) fd of
        None \<Rightarrow> (- 1, buf, q)
      | Some h \<Rightarrow>
          (case Resource_read Q h buf q of
             (Some count, buf', q') \<Rightarrow> (count, buf', q')
           | (None, buf', q') \<Rightarrow> (- 1, buf', q')))"

definition ResourceSet_write :: "ResourceSet \<Rightarrow> u8 \<Rightarrow> u8 list \<Rightarrow> isize \<times> out_event list" where
  "ResourceSet_write rs fd buf =
     (case map_of (handles rs) fd of
        None \<Rightarrow> (- 1, [])
      | Some h \<Rightarrow>
          (case Resource_write h buf of
             (Some count, out) \<Rightarrow> (count, out)
           | (None, out) \<Rightarrow> (- 1, out)))"

section \<open>Facts\<close>

lemma default_handles: "handles ResourceSet_default = [(0, Console Stdin), (1, Console Stdout), (2, Console Stderr)]"
  by (simp add: ResourceSet_default_def ResourceSet_open_def)

definition handles_ok :: "ResourceSet \<Rightarrow> bool" where
  "handles_ok rs \<longleftrightarrow> distinct (map fst (handles rs))"

lemma handles_ok_default: "handles_ok ResourceSet_default"
  by (simp add: handles_ok_def default_handles)

lemma handles_ok_open: "handles_ok rs \<Longrightarrow> handles_ok (snd (ResourceSet_open rs res))"
  by (simp add: handles_ok_def ResourceSet_open_def Let_def AList.distinct_update)

lemma handles_ok_close: "handles_ok rs \<Longrightarrow> handles_ok (snd (ResourceSet_close rs fd))"
  by (simp add: handles_ok_def ResourceSet_close_def AList.distinct_delete)

lemma length_delete:
  "distinct (map fst al) \<Longrightarrow> k \<in> fst ` set al \<Longrightarrow> length (AList.delete k al) = length al - 1"
proof (induction al)
  case (Cons x al)
  show ?case
  proof (cases "fst x = k")
    case True
    then have "AList.delete k al = al" using Cons.prems(1) by (intro AList.delete_id) auto
    then show ?thesis using True by (cases x) auto
  next
    case False
    then have "length (AList.delete k al) = length al - 1" "al \<noteq> []" using Cons by auto
    then show ?thesis using False by (cases x) (auto simp: Suc_le_eq)
  qed
qed simp

lemmas handles_ok_intros [inv_intros] = handles_ok_default handles_ok_open handles_ok_close

text \<open>Reading the standard input repeatedly, with a fresh buffer of 256 zero bytes each time.\<close>

fun stdin_reads :: "'q array_queue \<Rightarrow> nat \<Rightarrow> 'q \<Rightarrow> u8 list list \<times> 'q" where
  "stdin_reads Q 0 q = ([], q)"
| "stdin_reads Q (Suc n) q =
     (case ResourceSet_read Q ResourceSet_default 0 (replicate 256 0) q of
        (count, buf, q') \<Rightarrow>
          (case stdin_reads Q n q' of (rest, q'') \<Rightarrow> (take (unat count) buf # rest, q'')))"

context array_queue_spec
begin

lemma stdin_read_char:
  assumes "contents q = Unicode c # ks" and "4 \<le> length buf"
  shows "\<exists>q'. ResourceSet_read Q ResourceSet_default 0 buf q =
      (of_nat (length (encode_utf8 c)), encode_utf8 c @ drop (length (encode_utf8 c)) buf, q') \<and> contents q' = ks"
  using pop_cons [OF assms(1)] assms(2)
  by (auto simp: ResourceSet_read_def default_handles Resource_read_def try_pop_key_def Let_def)

lemma stdin_read_empty:
  assumes "contents q = []"
  shows "\<exists>q'. ResourceSet_read Q ResourceSet_default 0 buf q = (0, buf, q') \<and> contents q' = []"
  using pop_empty [OF assms] assms
  by (auto simp: ResourceSet_read_def default_handles Resource_read_def try_pop_key_def)

lemma stdin_reads_chars:
  "contents q = map Unicode cs \<Longrightarrow>
   fst (stdin_reads Q (length cs) q) = map encode_utf8 cs \<and> contents (snd (stdin_reads Q (length cs) q)) = []"
proof (induction cs arbitrary: q)
  case (Cons c cs)
  obtain q' where r: "ResourceSet_read Q ResourceSet_default 0 (replicate 256 0) q =
      (of_nat (length (encode_utf8 c)), encode_utf8 c @ drop (length (encode_utf8 c)) (replicate 256 0), q')"
    and k: "contents q' = map Unicode cs"
    using stdin_read_char [of q c "map Unicode cs" "replicate 256 0"] Cons.prems by auto
  have "unat (of_nat (length (encode_utf8 c)) :: usize) = length (encode_utf8 c)"
    using length_encode_utf8(2) [of c] by (simp add: unat_of_nat)
  with Cons.IH [OF k] r show ?case by (auto split: prod.splits)
qed simp

end

section \<open>Properties\<close>

text \<open>C21. From the serial line to a read of descriptor 0: if the UART delivers the UTF-8 encoding of
  some characters in one interrupt and they fit into the empty key buffer, then reading standard
  input that many times with a buffer of 256 bytes returns exactly their encodings, one character per
  read, and a further read returns 0 and leaves its buffer alone.\<close>

theorem serial_to_stdin_roundtrip:
  assumes "array_queue_spec Q contents capacity" and "\<forall>c \<in> set cs. scalar_value c"
    and "contents q = []" and "length cs \<le> capacity q"
  shows "\<exists>q1. stdin_reads Q (length cs) (receive Q (concat (map encode_utf8 cs)) q) = (map encode_utf8 cs, q1) \<and>
    (\<exists>q2. ResourceSet_read Q ResourceSet_default 0 buf q1 = (0, buf, q2))"
proof -
  let ?q = "receive Q (concat (map encode_utf8 cs)) q"
  have "contents ?q = take (capacity q) (map Unicode cs)"
    unfolding receive_def receive_chars [OF assms(2)]
    using array_queue_spec.push_keys_take [OF assms(1), of q "map Unicode cs"] assms(3) by simp
  then have "contents ?q = map Unicode cs" using assms(4) by simp
  from array_queue_spec.stdin_reads_chars [OF assms(1) this]
  obtain q1 where "stdin_reads Q (length cs) ?q = (map encode_utf8 cs, q1)" "contents q1 = []"
    by (cases "stdin_reads Q (length cs) ?q") auto
  with array_queue_spec.stdin_read_empty [OF assms(1)] show ?thesis by blast
qed

theorem serial_to_stdin_roundtrip_witness:
  "fst (stdin_reads ref_queue 2 (receive ref_queue [0xC3, 0xA9, 0x41] (128, []))) = [[0xC3, 0xA9], [0x41]]"
proof -
  have "\<forall>c \<in> set [0xE9, 0x41]. scalar_value c" by (simp add: scalar_value_def)
  moreover have "concat (map encode_utf8 [0xE9, 0x41]) = [0xC3, 0xA9, 0x41]" "map encode_utf8 [0xE9, 0x41] = [[0xC3, 0xA9], [0x41]]"
    by (simp_all add: encode_utf8_def)
  ultimately show ?thesis
    using serial_to_stdin_roundtrip [OF rq.array_queue_spec_axioms, of "[0xE9, 0x41]" "(128, [])" "[]"]
    by (auto simp: numeral_2_eq_2)
qed

text \<open>The standard descriptors of a new process: writing to 1 and 2 accepts the whole buffer and
  emits exactly it; writing to 0, reading from 1 or 2, and any use of a descriptor that is not open
  return \<open>-1\<close> with no output, no change of the buffer and no key consumed; a read of standard input
  into fewer than 4 bytes returns 0 and consumes no key.\<close>

theorem standard_descriptors:
  shows "ResourceSet_write ResourceSet_default 1 buf = (of_nat (length buf), [Print buf]) \<and>
    ResourceSet_write ResourceSet_default 2 buf = (of_nat (length buf), [Warn buf]) \<and>
    ResourceSet_write ResourceSet_default 0 buf = (- 1, []) \<and>
    ResourceSet_read Q ResourceSet_default 1 buf q = (- 1, buf, q) \<and>
    ResourceSet_read Q ResourceSet_default 2 buf q = (- 1, buf, q) \<and>
    (2 < fd \<longrightarrow> ResourceSet_write ResourceSet_default fd buf = (- 1, []) \<and>
                ResourceSet_read Q ResourceSet_default fd buf q = (- 1, buf, q)) \<and>
    (length buf < 4 \<longrightarrow> ResourceSet_read Q ResourceSet_default 0 buf q = (0, buf, q))"
  by (auto simp: ResourceSet_write_def ResourceSet_read_def default_handles Resource_write_def Resource_read_def)

theorem standard_descriptors_witness:
  "ResourceSet_write ResourceSet_default 7 [1] = (- 1, []) \<and>
   ResourceSet_read ref_queue ResourceSet_default 0 [9] (128, [Unicode 65]) = (0, [9], (128, [Unicode 65]))"
  using standard_descriptors [of "[1]" ref_queue "(128, [Unicode 65])" 7]
    standard_descriptors [of "[9]" ref_queue "(128, [Unicode 65])" 7] by simp

text \<open>\<^verbatim>\<open>open\<close> takes the number of open handles as the new descriptor. While the open descriptors
  are exactly \<open>0..n-1\<close> this is a fresh one and the others keep their resources; but after closing a
  descriptor other than the last, the next \<^verbatim>\<open>open\<close> replaces the resource behind a descriptor that
  is still in use.\<close>

theorem open_after_close_clobbers:
  assumes "map fst (handles rs) = map of_nat [0..<Suc (Suc n)]" and "Suc (Suc n) < 256" and "fd \<le> n"
  shows "fst (ResourceSet_open (snd (ResourceSet_close rs (of_nat fd))) res) = of_nat (Suc n) \<and>
    map_of (handles (snd (ResourceSet_close rs (of_nat fd)))) (of_nat (Suc n)) = map_of (handles rs) (of_nat (Suc n)) \<and>
    map_of (handles rs) (of_nat (Suc n)) \<noteq> None \<and>
    map_of (handles (snd (ResourceSet_open (snd (ResourceSet_close rs (of_nat fd))) res))) (of_nat (Suc n)) = Some res \<and>
    fst (ResourceSet_open rs res) \<notin> fst ` set (handles rs)"
proof -
  have inj: "of_nat i = (of_nat j :: u8) \<longleftrightarrow> i = j" if "i < 256" "j < 256" for i j
    using that by (metis unat_byte)
  have keys: "fst ` set (handles rs) = of_nat ` {0..<Suc (Suc n)}"
    using arg_cong [OF assms(1), of set] by (simp del: upt_Suc)
  have ds: "distinct (map fst (handles rs))"
    unfolding assms(1) distinct_map using assms(2) inj
    by (intro conjI distinct_upt inj_onI) (auto simp del: of_nat_Suc upt_Suc)
  have len: "length (handles rs) = Suc (Suc n)" using arg_cong [OF assms(1), of length] by simp
  have mem: "of_nat fd \<in> fst ` set (handles rs)" using keys assms(3) by auto
  have "length (AList.delete (of_nat fd) (handles rs)) = Suc n"
    using length_delete [OF ds mem] len by simp
  moreover have "of_nat (Suc n) \<noteq> (of_nat fd :: u8)" using inj [of "Suc n" fd] assms(2,3) by simp
  moreover have "of_nat (Suc n) \<in> fst ` set (handles rs)" unfolding keys by (rule imageI) simp
  moreover have "of_nat (Suc (Suc n)) \<notin> fst ` set (handles rs)"
  proof
    assume "of_nat (Suc (Suc n)) \<in> fst ` set (handles rs)"
    then obtain i where "i < Suc (Suc n)" "of_nat (Suc (Suc n)) = (of_nat i :: u8)" unfolding keys by (metis atLeastLessThan_iff imageE)
    then show False using inj [of "Suc (Suc n)" i] assms(2) by simp
  qed
  ultimately show ?thesis
    using len by (auto simp: ResourceSet_open_def ResourceSet_close_def Let_def AList.delete_conv' AList.update_conv' map_of_eq_None_iff simp del: of_nat_Suc)
qed

theorem open_after_close_clobbers_witness:
  "map_of (handles (snd (ResourceSet_open (snd (ResourceSet_close ResourceSet_default 0)) Null))) 2 = Some Null \<and>
   map_of (handles ResourceSet_default) 2 \<noteq> None"
proof -
  have "map fst (handles ResourceSet_default) = map of_nat [0..<Suc (Suc 1)]"
    by (simp add: default_handles upt_rec)
  from open_after_close_clobbers [OF this, of 0 Null] show ?thesis by simp
qed

end
