(* ===== verification/Process.thy ===== *)
theory Process
  imports ProcVm Sync Resource
begin

text \<open>
  Processes (\<^verbatim>\<open>kernel/src/proc/context.rs\<close>, \<^verbatim>\<open>data.rs\<close>, \<^verbatim>\<open>process.rs\<close>): the saved register
  context, the data that forked processes share through \<^verbatim>\<open>Arc\<close>s, and \<^verbatim>\<open>ProcessInner\<close> with its
  operations. Shared objects live in the store \<open>shared\<close> and are named by numbers; a process is named
  by its pid. Locks are not modelled: the kernel runs these operations with interrupts off on one
  processor and never asks for a lock that it holds.
\<close>

section \<open>Register contexts\<close>

record RegistersValue =
  r15 :: usize
  r14 :: usize
  r13 :: usize
  r12 :: usize
  r11 :: usize
  r10 :: usize
  r9 :: usize
  r8 :: usize
  rdi :: usize
  rsi :: usize
  rdx :: usize
  rcx :: usize
  rbx :: usize
  rax :: usize
  rbp :: usize

definition RegistersValue_default :: RegistersValue where
  "RegistersValue_default = \<lparr>r15 = 0, r14 = 0, r13 = 0, r12 = 0, r11 = 0, r10 = 0, r9 = 0, r8 = 0,
     rdi = 0, rsi = 0, rdx = 0, rcx = 0, rbx = 0, rax = 0, rbp = 0\<rparr>"

text \<open>The fields of the crate's \<^verbatim>\<open>InterruptStackFrameValue\<close>.\<close>

record InterruptStackFrameValue =
  instruction_pointer :: u64
  code_segment :: u16
  cpu_flags :: u64
  stack_pointer :: u64
  stack_segment :: u16

record ProcessContext =
  ctx_regs :: RegistersValue
  ctx_frame :: InterruptStackFrameValue

definition ProcessContext_default :: ProcessContext where
  "ProcessContext_default = \<lparr>ctx_regs = RegistersValue_default,
     ctx_frame = \<lparr>instruction_pointer = 0x1000, code_segment = 0, cpu_flags = 0, stack_pointer = 0x2000,
       stack_segment = 0\<rparr>\<rparr>"

definition set_rax :: "usize \<Rightarrow> ProcessContext \<Rightarrow> ProcessContext" where
  "set_rax v c = c\<lparr>ctx_regs := (ctx_regs c)\<lparr>rax := v\<rparr>\<rparr>"

text \<open>\<^verbatim>\<open>save\<close> overwrites the stored value with the interrupted context, \<^verbatim>\<open>restore\<close> overwrites the
  context with the stored value.\<close>

definition ProcessContext_save :: "ProcessContext \<Rightarrow> ProcessContext \<Rightarrow> ProcessContext" where
  "ProcessContext_save self context = context"

definition ProcessContext_restore :: "ProcessContext \<Rightarrow> ProcessContext \<Rightarrow> ProcessContext" where
  "ProcessContext_restore self context = self"

text \<open>\<^verbatim>\<open>IOPL_HIGH | IOPL_LOW | INTERRUPT_FLAG\<close>.\<close>

definition INIT_FLAGS :: u64 where
  "INIT_FLAGS = 0x2000 OR 0x1000 OR 0x200"

definition ProcessContext_init_stack_frame :: "('m, 'a) env \<Rightarrow> u64 \<Rightarrow> u64 \<Rightarrow> ProcessContext \<Rightarrow> ProcessContext" where
  "ProcessContext_init_stack_frame E entry stack_top c =
     c\<lparr>ctx_frame := (ctx_frame c)\<lparr>stack_pointer := stack_top, instruction_pointer := entry, cpu_flags := INIT_FLAGS,
         code_segment := env_user_code E, stack_segment := env_user_data E\<rparr>\<rparr>"

definition get_stack_top :: "ProcessContext \<Rightarrow> u64" where
  "get_stack_top c = stack_pointer (ctx_frame c)"

definition update_rsp :: "('m, 'a) env \<Rightarrow> u64 \<Rightarrow> ProcessContext \<Rightarrow> ProcessContext res" where
  "update_rsp E stack_top c =
     rbind (expect Address_panic (va_new (env_x E) stack_top)) (\<lambda>sp.
       Inr (c\<lparr>ctx_frame := (ctx_frame c)\<lparr>stack_pointer := sp\<rparr>\<rparr>))"

section \<open>Shared process data\<close>

record shared =
  sh_env :: "nat \<Rightarrow> string \<rightharpoonup> string"
  sh_resources :: "nat \<Rightarrow> ResourceSet"
  sh_semaphores :: "nat \<Rightarrow> SemaphoreSet"
  sh_next :: nat

record ProcessData =
  pd_env :: nat
  pd_resources :: nat
  pd_semaphores :: nat

definition ProcessData_default :: "shared \<Rightarrow> ProcessData \<times> shared" where
  "ProcessData_default sh =
     (let n = sh_next sh
      in (\<lparr>pd_env = n, pd_resources = n, pd_semaphores = n\<rparr>,
          \<lparr>sh_env = (sh_env sh)(n := Map.empty), sh_resources = (sh_resources sh)(n := ResourceSet_default),
           sh_semaphores = (sh_semaphores sh)(n := SemaphoreSet_default), sh_next = Suc n\<rparr>))"

definition ProcessData_new :: "shared \<Rightarrow> ProcessData \<times> shared" where
  "ProcessData_new sh = ProcessData_default sh"

definition ProcessData_env :: "ProcessData \<Rightarrow> string \<Rightarrow> shared \<Rightarrow> string option" where
  "ProcessData_env d key sh = sh_env sh (pd_env d) key"

definition ProcessData_set_env :: "ProcessData \<Rightarrow> string \<Rightarrow> string \<Rightarrow> shared \<Rightarrow> shared" where
  "ProcessData_set_env d key val sh =
     sh\<lparr>sh_env := (sh_env sh)(pd_env d := (sh_env sh (pd_env d))(key \<mapsto> val))\<rparr>"

definition ProcessData_read :: "'q array_queue \<Rightarrow> ProcessData \<Rightarrow> u8 \<Rightarrow> u8 list \<Rightarrow> shared \<Rightarrow> 'q \<Rightarrow>
    isize \<times> u8 list \<times> 'q" where
  "ProcessData_read Q d fd buf sh q = ResourceSet_read Q (sh_resources sh (pd_resources d)) fd buf q"

definition ProcessData_write :: "ProcessData \<Rightarrow> u8 \<Rightarrow> u8 list \<Rightarrow> shared \<Rightarrow> isize \<times> out_event list" where
  "ProcessData_write d fd buf sh = ResourceSet_write (sh_resources sh (pd_resources d)) fd buf"

definition put_semaphores :: "ProcessData \<Rightarrow> SemaphoreSet \<Rightarrow> shared \<Rightarrow> shared" where
  "put_semaphores d ss sh = sh\<lparr>sh_semaphores := (sh_semaphores sh)(pd_semaphores d := ss)\<rparr>"

definition ProcessData_sem_init :: "ProcessData \<Rightarrow> u32 \<Rightarrow> usize \<Rightarrow> shared \<Rightarrow> bool \<times> shared" where
  "ProcessData_sem_init d key value sh =
     (let (ret, ss) = SemaphoreSet_insert (sh_semaphores sh (pd_semaphores d)) key value
      in (ret, put_semaphores d ss sh))"

definition ProcessData_sem_remove :: "ProcessData \<Rightarrow> u32 \<Rightarrow> shared \<Rightarrow> bool \<times> shared" where
  "ProcessData_sem_remove d key sh =
     (let (ret, ss) = SemaphoreSet_remove (sh_semaphores sh (pd_semaphores d)) key
      in (ret, put_semaphores d ss sh))"

definition ProcessData_sem_wait :: "ProcessData \<Rightarrow> u32 \<Rightarrow> ProcessId \<Rightarrow> shared \<Rightarrow> SemaphoreResult \<times> shared" where
  "ProcessData_sem_wait d key pid sh =
     (let (ret, ss) = SemaphoreSet_wait (sh_semaphores sh (pd_semaphores d)) key pid
      in (ret, put_semaphores d ss sh))"

definition ProcessData_sem_signal :: "ProcessData \<Rightarrow> u32 \<Rightarrow> shared \<Rightarrow> SemaphoreResult \<times> shared" where
  "ProcessData_sem_signal d key sh =
     (let (ret, ss) = SemaphoreSet_signal (sh_semaphores sh (pd_semaphores d)) key
      in (ret, put_semaphores d ss sh))"

section \<open>Processes\<close>

datatype ProgramStatus = Running | Ready | Blocked | Dead

record ProcessInner =
  pi_name :: string
  pi_parent :: "ProcessId option"
  pi_children :: "ProcessId list"
  pi_ticks :: usize
  pi_status :: ProgramStatus
  pi_context :: ProcessContext
  pi_exit_code :: "isize option"
  pi_data :: "ProcessData option"
  pi_vm :: "ProcessVm option"

definition to_ascii_lowercase :: "string \<Rightarrow> string" where
  "to_ascii_lowercase s =
     map (\<lambda>c. let n = of_char c :: nat in if 65 \<le> n \<and> n \<le> 90 then char_of (n + 32) else c) s"

definition tick :: "ProcessInner \<Rightarrow> ProcessInner" where
  "tick p = p\<lparr>pi_ticks := pi_ticks p + 1\<rparr>"

definition pause :: "ProcessInner \<Rightarrow> ProcessInner" where
  "pause p = p\<lparr>pi_status := Ready\<rparr>"

definition resume :: "ProcessInner \<Rightarrow> ProcessInner" where
  "resume p = p\<lparr>pi_status := Running\<rparr>"

definition block :: "ProcessInner \<Rightarrow> ProcessInner" where
  "block p = p\<lparr>pi_status := Blocked\<rparr>"

definition is_ready :: "ProcessInner \<Rightarrow> bool" where
  "is_ready p \<longleftrightarrow> pi_status p = Ready"

definition is_dead :: "ProcessInner \<Rightarrow> bool" where
  "is_dead p \<longleftrightarrow> pi_status p = Dead"

definition ProcessInner_set_rax :: "usize \<Rightarrow> ProcessInner \<Rightarrow> ProcessInner" where
  "ProcessInner_set_rax ret p = p\<lparr>pi_context := set_rax ret (pi_context p)\<rparr>"

text \<open>\<^verbatim>\<open>vm()\<close>/\<^verbatim>\<open>vm_mut()\<close> unwrap, the \<^verbatim>\<open>Deref\<close> to the data expects.\<close>

definition vm_of :: "ProcessInner \<Rightarrow> ProcessVm res" where
  "vm_of p = expect Unwrap_failed (pi_vm p)"

definition data_of :: "ProcessInner \<Rightarrow> ProcessData res" where
  "data_of p = expect (Expect_failed ''Process data empty. The process may be killed.'') (pi_data p)"

definition clone_page_table :: "('m, 'a) env \<Rightarrow> ProcessInner \<Rightarrow> ('m, 'a) machine \<Rightarrow>
    (PageTableContext \<times> ('m, 'a) machine) res" where
  "clone_page_table E p mc = rbind (vm_of p) (\<lambda>vm. clone_level_4 E (vm_page_table vm) mc)"

definition ProcessInner_handle_page_fault :: "('m, 'a) env \<Rightarrow> u64 \<Rightarrow> ProcessInner \<Rightarrow> ('m, 'a) machine \<Rightarrow>
    (bool \<times> ProcessInner \<times> ('m, 'a) machine) res" where
  "ProcessInner_handle_page_fault E addr p mc =
     rbind (vm_of p) (\<lambda>vm.
     rbind (ProcessVm_handle_page_fault E addr vm mc) (\<lambda>(handled, vm', mc').
       Inr (handled, p\<lparr>pi_vm := Some vm'\<rparr>, mc')))"

definition ProcessInner_save :: "ProcessContext \<Rightarrow> ProcessInner \<Rightarrow> ProcessInner" where
  "ProcessInner_save context p =
     (if is_dead p then p
      else pause (p\<lparr>pi_context := ProcessContext_save (pi_context p) context\<rparr>))"

definition ProcessInner_restore :: "ProcessInner \<Rightarrow> ProcessContext \<Rightarrow> ('m, 'a) machine \<Rightarrow>
    (ProcessInner \<times> ProcessContext \<times> ('m, 'a) machine) res" where
  "ProcessInner_restore p context mc =
     (let context' = ProcessContext_restore (pi_context p) context
      in rbind (vm_of p) (\<lambda>vm. Inr (resume p, context', PageTableContext_load (vm_page_table vm) mc)))"

text \<open>\<^verbatim>\<open>kill\<close>: taking the address space drops it.\<close>

definition ProcessInner_kill :: "('m, 'a) env \<Rightarrow> isize \<Rightarrow> ProcessInner \<Rightarrow> ('m, 'a) machine \<Rightarrow>
    (ProcessInner \<times> ('m, 'a) machine) res" where
  "ProcessInner_kill E ret p mc =
     (let p' = p\<lparr>pi_exit_code := Some ret, pi_status := Dead, pi_data := None, pi_vm := None\<rparr>
      in case pi_vm p of
           None \<Rightarrow> Inr (p', mc)
         | Some vm \<Rightarrow> rbind (ProcessVm_drop E vm mc) (\<lambda>mc'. Inr (p', mc')))"

definition ProcessInner_init_stack_frame :: "('m, 'a) env \<Rightarrow> u64 \<Rightarrow> u64 \<Rightarrow> ProcessInner \<Rightarrow> ProcessInner" where
  "ProcessInner_init_stack_frame E entry stack_top p =
     p\<lparr>pi_context := ProcessContext_init_stack_frame E entry stack_top (pi_context p)\<rparr>"

definition ProcessInner_load_elf :: "('m, 'a) env \<Rightarrow> ElfFile \<Rightarrow> ProcessInner \<Rightarrow> ('m, 'a) machine \<Rightarrow>
    (ProcessInner \<times> ('m, 'a) machine) res" where
  "ProcessInner_load_elf E elf p mc =
     rbind (vm_of p) (\<lambda>vm.
     rbind (ProcessVm_load_elf E elf vm mc) (\<lambda>(vm', mc'). Inr (p\<lparr>pi_vm := Some vm'\<rparr>, mc')))"

definition alloc_init_stack :: "('m, 'a) env \<Rightarrow> ProcessId \<Rightarrow> ProcessInner \<Rightarrow> ('m, 'a) machine \<Rightarrow>
    (u64 \<times> ProcessInner \<times> ('m, 'a) machine) res" where
  "alloc_init_stack E pid p mc =
     rbind (vm_of p) (\<lambda>vm.
     rbind (init_proc_stack E pid vm mc) (\<lambda>(top_addr, vm', mc').
       Inr (top_addr, p\<lparr>pi_vm := Some vm'\<rparr>, mc')))"

text \<open>\<^verbatim>\<open>ProcessInner::fork\<close>.\<close>

definition child_rsp :: "u64 \<Rightarrow> u64 \<Rightarrow> u64" where
  "child_rsp sp child_start = (sp AND 0xFFFFFFFF) OR (child_start AND STACK_START_MASK)"

definition ProcessInner_fork :: "('m, 'a) env \<Rightarrow> ProcessId \<Rightarrow> ProcessInner \<Rightarrow> ('m, 'a) machine \<Rightarrow>
    (ProcessInner \<times> ('m, 'a) machine) res option" where
  "ProcessInner_fork E parent p mc =
     (let read_stack_offset = of_nat (length (pi_children p) + 1) * STACK_MAX_PAGES
      in obind (lift (vm_of p)) (\<lambda>vm.
         obind (ProcessVm_fork E read_stack_offset vm mc) (\<lambda>(child_vm, mc').
         obind (lift (update_rsp E (child_rsp (get_stack_top (pi_context p)) (stack_start child_vm)) (pi_context p)))
           (\<lambda>child_context.
             lift (Inr (\<lparr>pi_name = pi_name p, pi_parent = Some parent, pi_children = [], pi_ticks = 0,
                         pi_status = Ready, pi_context = set_rax 0 child_context, pi_exit_code = None,
                         pi_data = pi_data p, pi_vm = Some child_vm\<rparr>, mc'))))))"

text \<open>\<^verbatim>\<open>proc_data.as_mut().unwrap()\<close> of the semaphore operations.\<close>

definition sem_data_of :: "ProcessInner \<Rightarrow> ProcessData res" where
  "sem_data_of p = expect Unwrap_failed (pi_data p)"

definition ProcessInner_sem_init :: "ProcessInner \<Rightarrow> u32 \<Rightarrow> usize \<Rightarrow> shared \<Rightarrow> (bool \<times> shared) res" where
  "ProcessInner_sem_init p key value sh = rbind (sem_data_of p) (\<lambda>d. Inr (ProcessData_sem_init d key value sh))"

definition ProcessInner_sem_remove :: "ProcessInner \<Rightarrow> u32 \<Rightarrow> shared \<Rightarrow> (bool \<times> shared) res" where
  "ProcessInner_sem_remove p key sh = rbind (sem_data_of p) (\<lambda>d. Inr (ProcessData_sem_remove d key sh))"

definition ProcessInner_sem_wait :: "ProcessInner \<Rightarrow> u32 \<Rightarrow> ProcessId \<Rightarrow> shared \<Rightarrow> (SemaphoreResult \<times> shared) res" where
  "ProcessInner_sem_wait p key pid sh = rbind (sem_data_of p) (\<lambda>d. Inr (ProcessData_sem_wait d key pid sh))"

definition ProcessInner_sem_signal :: "ProcessInner \<Rightarrow> u32 \<Rightarrow> shared \<Rightarrow> (SemaphoreResult \<times> shared) res" where
  "ProcessInner_sem_signal p key sh = rbind (sem_data_of p) (\<lambda>d. Inr (ProcessData_sem_signal d key sh))"

definition ProcessInner_brk :: "('m, 'a) env \<Rightarrow> Processor \<Rightarrow> u64 option \<Rightarrow> ProcessInner \<Rightarrow> ('m, 'a) machine \<Rightarrow>
    (u64 option \<times> ('m, 'a) machine) res" where
  "ProcessInner_brk E cpu addr p mc = rbind (vm_of p) (\<lambda>vm. ProcessVm_brk E cpu addr vm mc)"

lemmas inner_defs = tick_def pause_def resume_def block_def is_ready_def is_dead_def ProcessInner_set_rax_def
  ProcessInner_save_def ProcessContext_save_def ProcessContext_restore_def

end
