(* ===== verification/Manager.thy ===== *)
theory Manager
  imports Process
begin

text \<open>
  The process manager (\<^verbatim>\<open>kernel/src/proc/manager.rs\<close>, parts of \<^verbatim>\<open>process.rs\<close>) and the process API
  of the kernel (\<^verbatim>\<open>kernel/src/proc/mod.rs\<close>). The record \<open>kernel\<close> holds all state these functions
  touch: the memory side, the shared objects, the pid counter, the processor cell, the process table,
  the ready queue, the wait queue, the application list, the key buffer and the console output. Every
  handler is a function from the state and the interrupted context to the new ones; a panic is a left
  value, and not returning is \<^term>\<open>None\<close>. A \<^verbatim>\<open>BTreeSet\<close> of pids is its sorted list.
\<close>

section \<open>Kernel state\<close>

record App =
  app_name :: string
  app_elf :: ElfFile

record ('m, 'a, 'q) kernel =
  k_machine :: "('m, 'a) machine"
  k_shared :: shared
  k_counter :: u16
  k_cpu :: Processor
  k_procs :: "ProcessId \<rightharpoonup> ProcessInner"
  k_ready :: "ProcessId list"
  k_wait :: "ProcessId \<rightharpoonup> ProcessId list"
  k_apps :: "App list option"
  k_input :: 'q
  k_out :: "out_event list"

definition put_proc :: "ProcessId \<Rightarrow> ProcessInner \<Rightarrow> ('m, 'a, 'q) kernel \<Rightarrow> ('m, 'a, 'q) kernel" where
  "put_proc pid p k = k\<lparr>k_procs := (k_procs k)(pid \<mapsto> p)\<rparr>"

section \<open>The manager\<close>

definition push_ready :: "ProcessId \<Rightarrow> ('m, 'a, 'q) kernel \<Rightarrow> ('m, 'a, 'q) kernel" where
  "push_ready pid k = k\<lparr>k_ready := k_ready k @ [pid]\<rparr>"

definition add_proc :: "ProcessId \<Rightarrow> ProcessInner \<Rightarrow> ('m, 'a, 'q) kernel \<Rightarrow> ('m, 'a, 'q) kernel" where
  "add_proc pid p k = put_proc pid p k"

definition get_proc :: "ProcessId \<Rightarrow> ('m, 'a, 'q) kernel \<Rightarrow> ProcessInner option" where
  "get_proc pid k = k_procs k pid"

definition pop_ready :: "('m, 'a, 'q) kernel \<Rightarrow> ProcessId \<times> ('m, 'a, 'q) kernel" where
  "pop_ready k = (case k_ready k of pid # rest \<Rightarrow> (pid, k\<lparr>k_ready := rest\<rparr>) | [] \<Rightarrow> (KERNEL_PID, k))"

definition current :: "('m, 'a, 'q) kernel \<Rightarrow> (ProcessId \<times> ProcessInner) res" where
  "current k =
     rbind (get_pid (k_cpu k)) (\<lambda>pid.
     rbind (expect (Expect_failed ''No current process'') (get_proc pid k)) (\<lambda>p. Inr (pid, p)))"

definition save_current :: "ProcessContext \<Rightarrow> ('m, 'a, 'q) kernel \<Rightarrow> ('m, 'a, 'q) kernel res" where
  "save_current context k =
     rbind (current k) (\<lambda>(pid, p). Inr (put_proc pid (ProcessInner_save context (tick p)) k))"

partial_function (option) switch_next :: "('m, 'a, 'q) kernel \<Rightarrow> ProcessContext \<Rightarrow>
    (ProcessId \<times> ProcessContext \<times> ('m, 'a, 'q) kernel) res option" where
  "switch_next k context =
     (let (next_pid, k1) = pop_ready k
      in case get_proc next_pid k1 of
           None \<Rightarrow> switch_next k1 context
         | Some next_proc \<Rightarrow>
             if is_ready next_proc
             then Some (rbind (ProcessInner_restore next_proc context (k_machine k1)) (\<lambda>(p', context', mc').
                    Inr (next_pid, context',
                      (put_proc next_pid p' k1)\<lparr>k_machine := mc', k_cpu := Processor_set_pid (k_cpu k1) next_pid\<rparr>)))
             else switch_next k1 context)"

definition wake_up :: "ProcessId \<Rightarrow> isize option \<Rightarrow> ('m, 'a, 'q) kernel \<Rightarrow> ('m, 'a, 'q) kernel" where
  "wake_up pid ret k =
     (case get_proc pid k of
        None \<Rightarrow> k
      | Some p \<Rightarrow>
          (let p1 = (case ret of Some r \<Rightarrow> ProcessInner_set_rax r p | None \<Rightarrow> p)
           in push_ready pid (put_proc pid (pause p1) k)))"

definition kill :: "('m, 'a) env \<Rightarrow> ProcessId \<Rightarrow> isize \<Rightarrow> ('m, 'a, 'q) kernel \<Rightarrow> ('m, 'a, 'q) kernel res" where
  "kill E pid ret k =
     (case get_proc pid k of
        None \<Rightarrow> Inr k
      | Some _ \<Rightarrow>
          (let k1 = (case k_wait k pid of
                       Some pids \<Rightarrow> fold (\<lambda>p. wake_up p (Some ret)) pids (k\<lparr>k_wait := (k_wait k)(pid := None)\<rparr>)
                     | None \<Rightarrow> k)
           in rbind (expect Unwrap_failed (get_proc pid k1)) (\<lambda>proc.
                if pi_status proc = Dead then Inr k1
                else rbind (ProcessInner_kill E ret proc (k_machine k1)) (\<lambda>(proc', mc').
                       Inr ((put_proc pid proc' k1)\<lparr>k_machine := mc'\<rparr>)))))"

definition kill_current :: "('m, 'a) env \<Rightarrow> isize \<Rightarrow> ('m, 'a, 'q) kernel \<Rightarrow> ('m, 'a, 'q) kernel res" where
  "kill_current E ret k = rbind (get_pid (k_cpu k)) (\<lambda>pid. kill E pid ret k)"

definition manager_handle_page_fault :: "('m, 'a) env \<Rightarrow> u64 \<Rightarrow> bool \<Rightarrow> ('m, 'a, 'q) kernel \<Rightarrow>
    (bool \<times> ('m, 'a, 'q) kernel) res" where
  "manager_handle_page_fault E addr caused_by_write k =
     (if \<not> caused_by_write then Inr (False, k)
      else rbind (current k) (\<lambda>(pid, p).
           rbind (ProcessInner_handle_page_fault E addr p (k_machine k)) (\<lambda>(handled, p', mc').
             Inr (handled, (put_proc pid p' k)\<lparr>k_machine := mc'\<rparr>))))"

definition manager_block :: "ProcessId \<Rightarrow> ('m, 'a, 'q) kernel \<Rightarrow> ('m, 'a, 'q) kernel" where
  "manager_block pid k = (case get_proc pid k of None \<Rightarrow> k | Some p \<Rightarrow> put_proc pid (block p) k)"

definition manager_wait_pid :: "ProcessId \<Rightarrow> ('m, 'a, 'q) kernel \<Rightarrow> ('m, 'a, 'q) kernel res" where
  "manager_wait_pid pid k =
     rbind (get_pid (k_cpu k)) (\<lambda>me.
       Inr (k\<lparr>k_wait := (k_wait k)(pid \<mapsto>
         insort_insert me (case k_wait k pid of Some pids \<Rightarrow> pids | None \<Rightarrow> []))\<rparr>))"

definition get_exit_code :: "ProcessId \<Rightarrow> ('m, 'a, 'q) kernel \<Rightarrow> isize option" where
  "get_exit_code pid k =
     (case get_proc pid k of
        Some p \<Rightarrow> if is_dead p then pi_exit_code p else None
      | None \<Rightarrow> None)"

text \<open>\<^verbatim>\<open>Process::new\<close>: the new process is not in the process table yet.\<close>

definition Process_new :: "('m, 'a) env \<Rightarrow> string \<Rightarrow> ProcessId option \<Rightarrow> ProcessVm option \<Rightarrow> ProcessData option \<Rightarrow>
    ('m, 'a, 'q) kernel \<Rightarrow> ProcessId \<times> ProcessInner \<times> ('m, 'a, 'q) kernel" where
  "Process_new E name parent proc_vm proc_data k =
     (let (pid, counter) = ProcessId_new (k_counter k);
          (vm, mc) = (case proc_vm of
                        Some vm \<Rightarrow> (vm, k_machine k)
                      | None \<Rightarrow> (let (pt, mc) = PageTableContext_new (k_machine k) in ProcessVm_new E pt mc));
          (data, sh) = (case proc_data of
                          Some d \<Rightarrow> (d, k_shared k)
                        | None \<Rightarrow> ProcessData_default (k_shared k))
      in (pid,
          \<lparr>pi_name = to_ascii_lowercase name, pi_parent = parent, pi_children = [], pi_ticks = 0, pi_status = Ready,
           pi_context = ProcessContext_default, pi_exit_code = None, pi_data = Some data, pi_vm = Some vm\<rparr>,
          k\<lparr>k_counter := counter, k_machine := mc, k_shared := sh\<rparr>))"

definition manager_spawn :: "('m, 'a) env \<Rightarrow> ElfFile \<Rightarrow> string \<Rightarrow> ProcessId option \<Rightarrow> ProcessData option \<Rightarrow>
    ('m, 'a, 'q) kernel \<Rightarrow> (ProcessId \<times> ('m, 'a, 'q) kernel) res" where
  "manager_spawn E elf name parent proc_data k =
     rbind (expect Unwrap_failed (get_proc KERNEL_PID k)) (\<lambda>kproc.
     rbind (clone_page_table E kproc (k_machine k)) (\<lambda>(page_table, mc1).
       let (vm, mc2) = ProcessVm_new E page_table mc1;
           (pid, proc, k3) = Process_new E name parent (Some vm) proc_data (k\<lparr>k_machine := mc2\<rparr>)
       in rbind (ProcessInner_load_elf E elf proc (k_machine k3)) (\<lambda>(proc4, mc4).
          rbind (alloc_init_stack E pid proc4 mc4) (\<lambda>(stack_top, proc5, mc5).
          rbind (expect Address_panic (va_new (env_x E) (elf_entry elf))) (\<lambda>entry.
            let proc6 = pause (ProcessInner_init_stack_frame E entry stack_top proc5)
            in Inr (pid, push_ready pid (add_proc pid proc6 (k3\<lparr>k_machine := mc5\<rparr>))))))))"

text \<open>\<^verbatim>\<open>Process::fork\<close> of the process \<open>pid\<close> and \<^verbatim>\<open>ProcessManager::fork\<close>.\<close>

definition Process_fork :: "('m, 'a) env \<Rightarrow> ProcessId \<Rightarrow> ProcessInner \<Rightarrow> ('m, 'a, 'q) kernel \<Rightarrow>
    (ProcessId \<times> ProcessInner \<times> ('m, 'a, 'q) kernel) res option" where
  "Process_fork E pid inner k =
     obind (ProcessInner_fork E pid inner (k_machine k)) (\<lambda>(child_inner, mc').
       let (child_pid, counter) = ProcessId_new (k_counter k);
           inner' = inner\<lparr>pi_children := pi_children inner @ [child_pid],
                          pi_context := set_rax (ucast (pid_raw child_pid)) (pi_context inner)\<rparr>
       in lift (Inr (child_pid, pause child_inner,
                     (put_proc pid inner' k)\<lparr>k_counter := counter, k_machine := mc'\<rparr>)))"

definition manager_fork :: "('m, 'a) env \<Rightarrow> ('m, 'a, 'q) kernel \<Rightarrow> (ProcessId \<times> ('m, 'a, 'q) kernel) res option" where
  "manager_fork E k =
     obind (lift (current k)) (\<lambda>(pid, p).
     obind (Process_fork E pid p k) (\<lambda>(child_pid, child, k').
       lift (Inr (child_pid, add_proc child_pid child k'))))"

definition manager_read :: "'q array_queue \<Rightarrow> u8 \<Rightarrow> u8 list \<Rightarrow> ('m, 'a, 'q) kernel \<Rightarrow>
    (isize \<times> u8 list \<times> ('m, 'a, 'q) kernel) res" where
  "manager_read Q fd buf k =
     rbind (current k) (\<lambda>(pid, p).
     rbind (data_of p) (\<lambda>d.
       let (ret, buf', q') = ProcessData_read Q d fd buf (k_shared k) (k_input k)
       in Inr (ret, buf', k\<lparr>k_input := q'\<rparr>)))"

definition manager_write :: "u8 \<Rightarrow> u8 list \<Rightarrow> ('m, 'a, 'q) kernel \<Rightarrow> (isize \<times> ('m, 'a, 'q) kernel) res" where
  "manager_write fd buf k =
     rbind (current k) (\<lambda>(pid, p).
     rbind (data_of p) (\<lambda>d.
       let (ret, out) = ProcessData_write d fd buf (k_shared k)
       in Inr (ret, k\<lparr>k_out := k_out k @ out\<rparr>)))"

text \<open>The rows of \<^verbatim>\<open>print_process_list\<close>: pid, parent, name, ticks and status of the processes that are
  not dead, in pid order.\<close>

definition print_process_list :: "('m, 'a, 'q) kernel \<Rightarrow>
    (ProcessId \<times> ProcessId option \<times> string \<times> usize \<times> ProgramStatus) list" where
  "print_process_list k =
     [(pid, pi_parent p, pi_name p, pi_ticks p, pi_status p).
        pid \<leftarrow> map ProcessId (map of_nat [0..<65536]),
        p \<leftarrow> (case get_proc pid k of Some p \<Rightarrow> [p] | None \<Rightarrow> []), pi_status p \<noteq> Dead]"

section \<open>Initialisation\<close>

text \<open>\<^verbatim>\<open>manager::init\<close> and \<^verbatim>\<open>proc::init\<close>, from a state without processes.\<close>

definition manager_init :: "ProcessId \<Rightarrow> ProcessInner \<Rightarrow> App list option \<Rightarrow> ('m, 'a, 'q) kernel \<Rightarrow> ('m, 'a, 'q) kernel" where
  "manager_init pid proc apps k =
     k\<lparr>k_cpu := Processor_set_pid (k_cpu k) pid, k_procs := [pid \<mapsto> resume proc], k_ready := [], k_wait := Map.empty,
       k_apps := apps\<rparr>"

definition proc_init :: "('m, 'a) env \<Rightarrow> (page \<times> page) list \<Rightarrow> App list option \<Rightarrow> ('m, 'a, 'q) kernel \<Rightarrow> ('m, 'a, 'q) kernel" where
  "proc_init E kernel_pages apps k =
     (let (pt, mc1) = PageTableContext_new (k_machine k);
          (vm, mc2) = ProcessVm_new E pt mc1;
          proc_vm = init_kernel_vm E kernel_pages vm;
          (data, sh) = ProcessData_new (k_shared k);
          (pid, kproc, k3) = Process_new E ''kernel'' None (Some proc_vm) (Some data)
                               (k\<lparr>k_machine := mc2, k_shared := sh\<rparr>)
      in manager_init pid (resume kproc) apps k3)"

section \<open>The process API\<close>

type_synonym ('m, 'a, 'q) handled = "(ProcessContext \<times> ('m, 'a, 'q) kernel) res option"

definition do_switch_next :: "ProcessContext \<Rightarrow> ('m, 'a, 'q) kernel \<Rightarrow> ('m, 'a, 'q) handled" where
  "do_switch_next context k = obind (switch_next k context) (\<lambda>(_, context', k'). lift (Inr (context', k')))"

definition switch :: "ProcessContext \<Rightarrow> ('m, 'a, 'q) kernel \<Rightarrow> ('m, 'a, 'q) handled" where
  "switch context k =
     obind (lift (save_current context k)) (\<lambda>k1.
     obind (lift (get_pid (k_cpu k1))) (\<lambda>pid.
       do_switch_next context (push_ready pid k1)))"

definition proc_env :: "string \<Rightarrow> ('m, 'a, 'q) kernel \<Rightarrow> string option res" where
  "proc_env key k = rbind (current k) (\<lambda>(pid, p). rbind (data_of p) (\<lambda>d. Inr (ProcessData_env d key (k_shared k))))"

definition process_exit :: "('m, 'a) env \<Rightarrow> isize \<Rightarrow> ProcessContext \<Rightarrow> ('m, 'a, 'q) kernel \<Rightarrow> ('m, 'a, 'q) handled" where
  "process_exit E ret context k = obind (lift (kill_current E ret k)) (\<lambda>k1. do_switch_next context k1)"

definition proc_handle_page_fault :: "('m, 'a) env \<Rightarrow> u64 \<Rightarrow> bool \<Rightarrow> ('m, 'a, 'q) kernel \<Rightarrow>
    (bool \<times> ('m, 'a, 'q) kernel) res" where
  "proc_handle_page_fault E addr caused_by_write k = manager_handle_page_fault E addr caused_by_write k"

definition elf_spawn :: "('m, 'a) env \<Rightarrow> string \<Rightarrow> ElfFile \<Rightarrow> ('m, 'a, 'q) kernel \<Rightarrow>
    (ProcessId option \<times> ('m, 'a, 'q) kernel) res" where
  "elf_spawn E name elf k =
     rbind (current k) (\<lambda>(me, _).
     rbind (manager_spawn E elf name (Some me) None k) (\<lambda>(pid, k'). Inr (Some pid, k')))"

definition spawn :: "('m, 'a) env \<Rightarrow> string \<Rightarrow> ('m, 'a, 'q) kernel \<Rightarrow> (ProcessId option \<times> ('m, 'a, 'q) kernel) res" where
  "spawn E name k =
     (case k_apps k of
        None \<Rightarrow> Inr (None, k)
      | Some apps \<Rightarrow>
          (case find (\<lambda>app. app_name app = name) apps of
             None \<Rightarrow> Inr (None, k)
           | Some app \<Rightarrow> elf_spawn E name (app_elf app) k))"

definition still_alive :: "ProcessId \<Rightarrow> ('m, 'a, 'q) kernel \<Rightarrow> bool" where
  "still_alive pid k = (case get_proc pid k of Some p \<Rightarrow> \<not> is_dead p | None \<Rightarrow> False)"

definition wait_pid :: "ProcessId \<Rightarrow> ProcessContext \<Rightarrow> ('m, 'a, 'q) kernel \<Rightarrow> ('m, 'a, 'q) handled" where
  "wait_pid pid context k =
     (case get_exit_code pid k of
        Some ret \<Rightarrow> lift (Inr (set_rax ret context, k))
      | None \<Rightarrow>
          obind (lift (manager_wait_pid pid k)) (\<lambda>k1.
          obind (lift (save_current context k1)) (\<lambda>k2.
          obind (lift (current k2)) (\<lambda>(me, p).
            do_switch_next context (put_proc me (block p) k2)))))"

definition fork :: "('m, 'a) env \<Rightarrow> ProcessContext \<Rightarrow> ('m, 'a, 'q) kernel \<Rightarrow> ('m, 'a, 'q) handled" where
  "fork E context k =
     obind (lift (save_current context k)) (\<lambda>k1.
     obind (manager_fork E k1) (\<lambda>(child, k2).
     obind (lift (current k2)) (\<lambda>(me, _).
       do_switch_next context (push_ready child (push_ready me k2)))))"

definition sem_init :: "u32 \<Rightarrow> usize \<Rightarrow> ('m, 'a, 'q) kernel \<Rightarrow> (usize \<times> ('m, 'a, 'q) kernel) res" where
  "sem_init key val k =
     rbind (current k) (\<lambda>(pid, p).
     rbind (ProcessInner_sem_init p key val (k_shared k)) (\<lambda>(ret, sh').
       Inr (of_bool ret, k\<lparr>k_shared := sh'\<rparr>)))"

definition sem_remove :: "u32 \<Rightarrow> ('m, 'a, 'q) kernel \<Rightarrow> (usize \<times> ('m, 'a, 'q) kernel) res" where
  "sem_remove key k =
     rbind (current k) (\<lambda>(pid, p).
     rbind (ProcessInner_sem_remove p key (k_shared k)) (\<lambda>(ret, sh').
       Inr (of_bool ret, k\<lparr>k_shared := sh'\<rparr>)))"

definition sem_wait :: "u32 \<Rightarrow> ProcessContext \<Rightarrow> ('m, 'a, 'q) kernel \<Rightarrow> ('m, 'a, 'q) handled" where
  "sem_wait key context k =
     obind (lift (get_pid (k_cpu k))) (\<lambda>pid.
     obind (lift (current k)) (\<lambda>(_, p).
     obind (lift (ProcessInner_sem_wait p key pid (k_shared k))) (\<lambda>(ret, sh').
       let k1 = k\<lparr>k_shared := sh'\<rparr>
       in case ret of
            SemOk \<Rightarrow> lift (Inr (set_rax 0 context, k1))
          | NotExist \<Rightarrow> lift (Inr (set_rax 1 context, k1))
          | Block pid \<Rightarrow>
              obind (lift (save_current context k1)) (\<lambda>k2. do_switch_next context (manager_block pid k2))
          | WakeUp _ \<Rightarrow> lift (Inl Unreachable))))"

definition sem_signal :: "u32 \<Rightarrow> ProcessContext \<Rightarrow> ('m, 'a, 'q) kernel \<Rightarrow> ('m, 'a, 'q) handled" where
  "sem_signal key context k =
     obind (lift (current k)) (\<lambda>(_, p).
     obind (lift (ProcessInner_sem_signal p key (k_shared k))) (\<lambda>(ret, sh').
       let k1 = k\<lparr>k_shared := sh'\<rparr>
       in case ret of
            SemOk \<Rightarrow> lift (Inr (set_rax 0 context, k1))
          | NotExist \<Rightarrow> lift (Inr (set_rax 1 context, k1))
          | WakeUp pid \<Rightarrow> lift (Inr (context, wake_up pid None k1))
          | Block _ \<Rightarrow> lift (Inl Unreachable)))"

definition brk :: "('m, 'a) env \<Rightarrow> u64 option \<Rightarrow> ('m, 'a, 'q) kernel \<Rightarrow> (u64 option \<times> ('m, 'a, 'q) kernel) res" where
  "brk E addr k =
     rbind (current k) (\<lambda>(pid, p).
     rbind (ProcessInner_brk E (k_cpu k) addr p (k_machine k)) (\<lambda>(ret, mc').
       Inr (ret, k\<lparr>k_machine := mc'\<rparr>)))"

end
