(* ===== verification/Scheduler.thy ===== *)
theory Scheduler
  imports Manager
begin

text \<open>
  Scheduling: an abstract scheduler that knows only statuses, queues and waiting places, the
  abstraction of the kernel state to it, and the proof that every kernel entry of
  \<^verbatim>\<open>kernel/src/proc/mod.rs\<close> is one of its steps.
\<close>

section \<open>The abstract scheduler\<close>

text \<open>A process waits either for another process to exit or for a unit of a semaphore of a shared
  semaphore set.\<close>

datatype place = Exit_of ProcessId | Unit_of nat SemaphoreId

record sched =
  sc_cur :: ProcessId
  sc_stat :: "ProcessId \<rightharpoonup> ProgramStatus"
  sc_ready :: "ProcessId list"
  sc_waiters :: "place \<Rightarrow> ProcessId list"

definition put_stat :: "ProcessId \<Rightarrow> ProgramStatus \<Rightarrow> sched \<Rightarrow> sched" where
  "put_stat p st s = s\<lparr>sc_stat := (sc_stat s)(p \<mapsto> st)\<rparr>"

definition put_waiters :: "place \<Rightarrow> ProcessId list \<Rightarrow> sched \<Rightarrow> sched" where
  "put_waiters l ps s = s\<lparr>sc_waiters := (sc_waiters s)(l := ps)\<rparr>"

text \<open>Make a process ready, and give the processor to the first ready process.\<close>

definition enqueue :: "ProcessId \<Rightarrow> sched \<Rightarrow> sched" where
  "enqueue p s = (put_stat p Ready s)\<lparr>sc_ready := sc_ready s @ [p]\<rparr>"

definition dispatch :: "sched \<Rightarrow> sched" where
  "dispatch s = (put_stat (hd (sc_ready s)) Running s)\<lparr>sc_cur := hd (sc_ready s), sc_ready := tl (sc_ready s)\<rparr>"

inductive sched_step :: "sched \<Rightarrow> sched \<Rightarrow> bool" where
  Stay: "sched_step s s"
| Yield: "sched_step s (dispatch (enqueue (sc_cur s) s))"
| Exit: "sc_cur s \<noteq> KERNEL_PID \<Longrightarrow> sched_step s (dispatch (put_stat (sc_cur s) Dead
    (fold enqueue (sc_waiters s (Exit_of (sc_cur s))) (put_waiters (Exit_of (sc_cur s)) [] s))))"
| Wait: "sc_cur s \<noteq> KERNEL_PID \<Longrightarrow> set ps = insert (sc_cur s) (set (sc_waiters s l)) \<Longrightarrow> distinct ps \<Longrightarrow>
    sched_step s (dispatch (put_stat (sc_cur s) Blocked (put_waiters l ps s)))"
| Wake: "sc_waiters s l = p # ps \<Longrightarrow> sched_step s (enqueue p (put_waiters l ps s))"
| Abandon: "(\<And>l. w l = sc_waiters s l \<or> w l = []) \<Longrightarrow> sched_step s (s\<lparr>sc_waiters := w\<rparr>)"
| Create: "sc_stat s p = None \<Longrightarrow> (\<And>l. w l = sc_waiters s l \<or> w l = []) \<Longrightarrow>
    sched_step s (enqueue p (s\<lparr>sc_waiters := w\<rparr>))"
| Fork: "sc_stat s p = None \<Longrightarrow> sched_step s (dispatch (enqueue p (enqueue (sc_cur s) s)))"

section \<open>Its invariant\<close>

definition waiting_ok :: "sched \<Rightarrow> bool" where
  "waiting_ok s \<longleftrightarrow>
     (\<forall>l. distinct (sc_waiters s l) \<and> (\<forall>p \<in> set (sc_waiters s l). sc_stat s p = Some Blocked)) \<and>
     (\<forall>l l'. l \<noteq> l' \<longrightarrow> set (sc_waiters s l) \<inter> set (sc_waiters s l') = {})"

definition ready_ok :: "sched \<Rightarrow> bool" where
  "ready_ok s \<longleftrightarrow> distinct (sc_ready s) \<and> (\<forall>p. p \<in> set (sc_ready s) \<longleftrightarrow> sc_stat s p = Some Ready)"

definition kernel_alive :: "sched \<Rightarrow> bool" where
  "kernel_alive s \<longleftrightarrow> sc_stat s KERNEL_PID = Some Ready \<or> sc_stat s KERNEL_PID = Some Running"

definition sched_inv :: "sched \<Rightarrow> bool" where
  "sched_inv s \<longleftrightarrow> ready_ok s \<and> waiting_ok s \<and> kernel_alive s \<and>
     (\<forall>p. sc_stat s p = Some Running \<longleftrightarrow> p = sc_cur s)"

text \<open>Between giving up the processor and the dispatch of the next process no process runs.\<close>

definition idle_inv :: "sched \<Rightarrow> bool" where
  "idle_inv s \<longleftrightarrow> ready_ok s \<and> waiting_ok s \<and> kernel_alive s \<and> (\<forall>p. sc_stat s p \<noteq> Some Running)"

lemmas sched_defs = put_stat_def put_waiters_def enqueue_def dispatch_def
lemmas sched_inv_defs = sched_inv_def idle_inv_def ready_ok_def waiting_ok_def kernel_alive_def

lemma idle_ready_ne: "idle_inv s \<Longrightarrow> sc_ready s \<noteq> []"
  by (fastforce simp: sched_inv_defs)

lemma sched_simps [simp]:
  "sc_cur (put_stat p st s) = sc_cur s" "sc_ready (put_stat p st s) = sc_ready s"
  "sc_waiters (put_stat p st s) = sc_waiters s" "sc_stat (put_stat p st s) = (sc_stat s)(p \<mapsto> st)"
  "sc_cur (put_waiters l ps s) = sc_cur s" "sc_ready (put_waiters l ps s) = sc_ready s"
  "sc_waiters (put_waiters l ps s) = (sc_waiters s)(l := ps)" "sc_stat (put_waiters l ps s) = sc_stat s"
  "sc_cur (enqueue p s) = sc_cur s" "sc_ready (enqueue p s) = sc_ready s @ [p]"
  "sc_waiters (enqueue p s) = sc_waiters s" "sc_stat (enqueue p s) = (sc_stat s)(p \<mapsto> Ready)"
  by (simp_all add: sched_defs)

lemma waiting_ok_stat:
  assumes "waiting_ok s" and "sc_waiters s' = sc_waiters s"
    and "\<And>q. sc_stat s q = Some Blocked \<Longrightarrow> sc_stat s' q = Some Blocked"
  shows "waiting_ok s'"
  using assms by (auto simp: waiting_ok_def)

lemma waiting_ok_remove:
  assumes "waiting_ok s" and "sc_waiters s l = p # ps"
  shows "waiting_ok (enqueue p (put_waiters l ps s))"
proof -
  have "p \<notin> set (sc_waiters s l')" if "l' \<noteq> l" for l'
    using assms that unfolding waiting_ok_def by (metis IntI emptyE list.set_intros(1))
  moreover have "set (sc_waiters s l') \<inter> set ps = {}" if "l' \<noteq> l" for l'
  proof -
    have "set (sc_waiters s l') \<inter> set (sc_waiters s l) = {}" using assms(1) that unfolding waiting_ok_def by blast
    with assms(2) show ?thesis by auto
  qed
  moreover have "distinct (p # ps)" "\<forall>q \<in> set (p # ps). sc_stat s q = Some Blocked"
    using assms unfolding waiting_ok_def by metis+
  ultimately show ?thesis using assms(1) unfolding waiting_ok_def by (auto simp: Int_commute)
qed

lemma waiting_ok_shrink:
  assumes "waiting_ok s" and "\<And>l. w l = sc_waiters s l \<or> w l = []"
  shows "waiting_ok (s\<lparr>sc_waiters := w\<rparr>)"
proof -
  have sub: "set (w l) \<subseteq> set (sc_waiters s l)" and "distinct (w l)" for l
    using assms(1) assms(2) [of l] by (auto simp: waiting_ok_def)
  moreover have "set (w l) \<inter> set (w l') = {}" if "l \<noteq> l'" for l l'
    using assms(1) that sub [of l] sub [of l'] unfolding waiting_ok_def by blast
  moreover have "sc_stat s p = Some Blocked" if "p \<in> set (w l)" for p l
    using assms(1) that sub [of l] unfolding waiting_ok_def by blast
  ultimately show ?thesis by (simp add: waiting_ok_def)
qed

text \<open>Adding a process that waits nowhere to one place, with status Blocked.\<close>

lemma waiting_ok_add:
  assumes "waiting_ok s" and "sc_stat s p \<noteq> Some Blocked"
    and "set ps = insert p (set (sc_waiters s l))" and "distinct ps"
  shows "waiting_ok (put_stat p Blocked (put_waiters l ps s))"
proof -
  let ?w = "\<lambda>l'. if l' = l then ps else sc_waiters s l'"
  have no: "p \<notin> set (sc_waiters s l')" for l' using assms(1,2) by (auto simp: waiting_ok_def)
  have old: "distinct (sc_waiters s l')" "\<And>q. q \<in> set (sc_waiters s l') \<Longrightarrow> sc_stat s q = Some Blocked"
    "\<And>l''. l' \<noteq> l'' \<Longrightarrow> set (sc_waiters s l') \<inter> set (sc_waiters s l'') = {}" for l'
    using assms(1) unfolding waiting_ok_def by blast+
  have "set (sc_waiters s l') \<inter> set ps = {}" if "l' \<noteq> l" for l'
    using old(3) [OF that] no [of l'] assms(3) by auto
  then have "set (?w l1) \<inter> set (?w l2) = {}" if "l1 \<noteq> l2" for l1 l2
    using that old(3) [OF that] by (auto simp: Int_commute)
  moreover have "distinct (?w l')" for l' using old(1) assms(4) by simp
  moreover have "((sc_stat s)(p \<mapsto> Blocked)) q = Some Blocked" if "q \<in> set (?w l')" for q l'
    using that old(2) [of q l] old(2) [of q l'] assms(3) by (auto split: if_splits)
  ultimately show ?thesis unfolding waiting_ok_def by (simp only: sched_simps fun_upd_def simp_thms) blast
qed

lemma waiting_ok_enqueue: "waiting_ok s \<Longrightarrow> sc_stat s p \<noteq> Some Blocked \<Longrightarrow> waiting_ok (enqueue p s)"
  by (rule waiting_ok_stat) auto

lemma ready_ok_enqueue: "ready_ok s \<Longrightarrow> sc_stat s p \<noteq> Some Ready \<Longrightarrow> ready_ok (enqueue p s)"
  by (auto simp: ready_ok_def)

lemma ready_ok_stat:
  "ready_ok s \<Longrightarrow> sc_stat s p \<noteq> Some Ready \<Longrightarrow> st \<noteq> Ready \<Longrightarrow> ready_ok (put_stat p st s)"
  by (auto simp: ready_ok_def)

lemma ready_ok_waiters [simp]:
  "ready_ok (put_waiters l ps s) = ready_ok s" "ready_ok (s\<lparr>sc_waiters := w\<rparr>) = ready_ok s"
  by (simp_all add: ready_ok_def)

lemma kernel_alive_simps [simp]:
  "kernel_alive (put_waiters l ps s) = kernel_alive s" "kernel_alive (s\<lparr>sc_waiters := w\<rparr>) = kernel_alive s"
  "kernel_alive s \<Longrightarrow> kernel_alive (enqueue p s)"
  "kernel_alive s \<Longrightarrow> p \<noteq> KERNEL_PID \<Longrightarrow> kernel_alive (put_stat p st s)"
  by (auto simp: kernel_alive_def)

text \<open>The invariant with the running process taken out of the way.\<close>

lemma sched_inv_cases:
  assumes "sched_inv s"
  shows "ready_ok s" "waiting_ok s" "kernel_alive s" "sc_stat s (sc_cur s) = Some Running"
    "\<And>p. sc_stat s p = Some Running \<Longrightarrow> p = sc_cur s"
  using assms by (auto simp: sched_inv_def)

lemma sched_invI:
  assumes "ready_ok s" "waiting_ok s" "kernel_alive s" "sc_stat s (sc_cur s) = Some Running"
    and "\<And>p. sc_stat s p = Some Running \<Longrightarrow> p = sc_cur s"
  shows "sched_inv s"
  using assms unfolding sched_inv_def by blast

lemma sched_inv_waiters: "sched_inv s \<Longrightarrow> waiting_ok (s\<lparr>sc_waiters := w\<rparr>) \<Longrightarrow> sched_inv (s\<lparr>sc_waiters := w\<rparr>)"
  by (simp add: sched_inv_def)

lemma enqueue_sched_inv:
  assumes "ready_ok (enqueue p s)" "waiting_ok (enqueue p s)" "kernel_alive s" "sc_stat s p \<noteq> Some Running"
    and "\<forall>q. sc_stat s q = Some Running \<longleftrightarrow> q = sc_cur s"
  shows "sched_inv (enqueue p s)"
  using assms by (auto simp: sched_inv_def)

lemma sched_inv_enqueue: "sched_inv s \<Longrightarrow> sc_stat s p = None \<Longrightarrow> sched_inv (enqueue p s)"
  by (rule enqueue_sched_inv) (auto simp: sched_inv_def intro!: ready_ok_enqueue waiting_ok_enqueue)

lemma idle_enqueue:
  assumes "ready_ok s" "waiting_ok s" "kernel_alive s" "sc_stat s p = Some Running \<or> sc_stat s p = None"
    "\<And>q. sc_stat s q = Some Running \<Longrightarrow> q = p"
  shows "idle_inv (enqueue p s)"
  using assms by (auto simp: idle_inv_def intro!: ready_ok_enqueue waiting_ok_enqueue)

lemma dispatch_inv:
  assumes "idle_inv s"
  shows "sched_inv (dispatch s)"
proof -
  obtain p ps where r: "sc_ready s = p # ps" using idle_ready_ne [OF assms] by (cases "sc_ready s") auto
  have eq: "sc_stat s q = Some Ready \<longleftrightarrow> q \<in> set (p # ps)" for q using assms r by (auto simp: sched_inv_defs)
  then have st: "sc_stat s p = Some Ready" by simp
  have "distinct (p # ps)" using assms r by (auto simp: sched_inv_defs)
  with eq have "ready_ok (dispatch s)" by (auto simp: ready_ok_def dispatch_def r)
  moreover have "waiting_ok (dispatch s)"
    by (rule waiting_ok_stat [of s]) (use assms st in \<open>auto simp: idle_inv_def dispatch_def r\<close>)
  moreover have "kernel_alive (dispatch s)" using assms by (auto simp: idle_inv_def kernel_alive_def dispatch_def r)
  ultimately show ?thesis using assms by (auto simp: sched_inv_def idle_inv_def dispatch_def r)
qed

text \<open>Waking all waiters of a place.\<close>

lemma fold_enqueue:
  "sc_cur (fold enqueue ps s) = sc_cur s \<and> sc_waiters (fold enqueue ps s) = sc_waiters s \<and>
   sc_ready (fold enqueue ps s) = sc_ready s @ ps \<and>
   sc_stat (fold enqueue ps s) = (\<lambda>q. if q \<in> set ps then Some Ready else sc_stat s q)"
  by (induction ps arbitrary: s) auto

lemma wake_all:
  fixes s l
  assumes "ready_ok s" "waiting_ok s" "kernel_alive s"
  defines "s' \<equiv> fold enqueue (sc_waiters s l) (put_waiters l [] s)"
  shows "ready_ok s'" "waiting_ok s'" "kernel_alive s'"
proof -
  have ws: "distinct (sc_waiters s l)" "\<And>q. q \<in> set (sc_waiters s l) \<Longrightarrow> sc_stat s q = Some Blocked"
    using assms(2) by (auto simp: waiting_ok_def)
  show "ready_ok s'" unfolding s'_def using assms(1) ws by (auto simp: ready_ok_def fold_enqueue)
  have "q \<notin> set (sc_waiters s l)" if "q \<in> set (sc_waiters s l')" "l' \<noteq> l" for q l'
    using assms(2) that unfolding waiting_ok_def by blast
  then show "waiting_ok s'" unfolding s'_def using assms(2) by (fastforce simp: waiting_ok_def fold_enqueue)
  show "kernel_alive s'" unfolding s'_def using assms(3) by (auto simp: kernel_alive_def fold_enqueue)
qed

lemma exit_idle:
  assumes "sched_inv s" and "sc_cur s \<noteq> KERNEL_PID"
  shows "idle_inv (put_stat (sc_cur s) Dead
    (fold enqueue (sc_waiters s (Exit_of (sc_cur s))) (put_waiters (Exit_of (sc_cur s)) [] s)))"
    (is "idle_inv (put_stat ?p Dead ?w)")
proof -
  note s = sched_inv_cases [OF assms(1)]
  note w = wake_all [OF s(1-3), of "Exit_of ?p"]
  have "?p \<notin> set (sc_waiters s (Exit_of ?p))" using s(2,4) by (auto simp: waiting_ok_def)
  then have st: "sc_stat ?w ?p = Some Running" using s(4) by (simp add: fold_enqueue)
  have "waiting_ok (put_stat ?p Dead ?w)" by (rule waiting_ok_stat [OF w(2)]) (use st in auto)
  moreover have "ready_ok (put_stat ?p Dead ?w)" by (rule ready_ok_stat [OF w(1)]) (use st in auto)
  moreover have "kernel_alive (put_stat ?p Dead ?w)" using w(3) assms(2) by (rule kernel_alive_simps)
  moreover have "sc_stat (put_stat ?p Dead ?w) q \<noteq> Some Running" for q using s(5) [of q] by (auto simp: fold_enqueue)
  ultimately show ?thesis by (simp only: idle_inv_def simp_thms)
qed

lemma sched_step_inv: "sched_step s s' \<Longrightarrow> sched_inv s \<Longrightarrow> sched_inv s'"
proof (induction rule: sched_step.induct)
  case (Stay s)
  then show ?case .
next
  case (Yield s)
  note s = sched_inv_cases [OF Yield]
  have "idle_inv (enqueue (sc_cur s) s)" by (rule idle_enqueue [OF s(1-3) _ s(5)]) (simp_all add: s(4))
  then show ?case by (rule dispatch_inv)
next
  case (Exit s)
  then show ?case by (intro dispatch_inv exit_idle)
next
  case (Wait s ps l)
  note s = sched_inv_cases [OF Wait.prems]
  have "ready_ok (put_stat (sc_cur s) Blocked (put_waiters l ps s))"
    by (rule ready_ok_stat) (simp_all add: s(1,4))
  moreover have "waiting_ok (put_stat (sc_cur s) Blocked (put_waiters l ps s))"
    by (rule waiting_ok_add [OF s(2) _ Wait.hyps(2,3)]) (simp add: s(4))
  moreover have "sc_stat (put_stat (sc_cur s) Blocked (put_waiters l ps s)) q \<noteq> Some Running" for q
    using s(5) [of q] by auto
  moreover have "kernel_alive (put_stat (sc_cur s) Blocked (put_waiters l ps s))"
    using s(3) Wait.hyps(1) by simp
  ultimately have "idle_inv (put_stat (sc_cur s) Blocked (put_waiters l ps s))"
    by (simp only: idle_inv_def simp_thms)
  then show ?case by (rule dispatch_inv)
next
  case (Wake s l p ps)
  note s = sched_inv_cases [OF Wake.prems]
  have b: "sc_stat s p = Some Blocked" using s(2) Wake.hyps unfolding waiting_ok_def by (metis list.set_intros(1))
  have "ready_ok (enqueue p (put_waiters l ps s))" by (rule ready_ok_enqueue) (simp_all add: s(1) b)
  moreover have "waiting_ok (enqueue p (put_waiters l ps s))" by (rule waiting_ok_remove [OF s(2) Wake.hyps])
  ultimately show ?case by (rule enqueue_sched_inv) (use Wake.prems b in \<open>simp_all add: sched_inv_def\<close>)
next
  case (Abandon w s)
  note s = sched_inv_cases [OF Abandon.prems]
  have "waiting_ok (s\<lparr>sc_waiters := w\<rparr>)" using s(2) Abandon.hyps by (rule waiting_ok_shrink)
  then show ?case by (rule sched_inv_waiters [OF Abandon.prems])
next
  case (Create s p w)
  note s = sched_inv_cases [OF Create.prems]
  have "waiting_ok (s\<lparr>sc_waiters := w\<rparr>)" using s(2) Create.hyps(2) by (rule waiting_ok_shrink)
  then have "sched_inv (s\<lparr>sc_waiters := w\<rparr>)" by (rule sched_inv_waiters [OF Create.prems])
  then show ?case by (rule sched_inv_enqueue) (simp_all add: Create.hyps(1))
next
  case (Fork s p)
  note s = sched_inv_cases [OF Fork.prems]
  have "idle_inv (enqueue (sc_cur s) s)" by (rule idle_enqueue [OF s(1-3) _ s(5)]) (simp_all add: s(4))
  then have "idle_inv (enqueue p (enqueue (sc_cur s) s))"
    by (intro idle_enqueue) (use Fork.hyps s(4) in \<open>auto simp: idle_inv_def\<close>)
  then show ?case by (rule dispatch_inv)
qed

section \<open>The abstraction of the kernel state\<close>

fun waiters_at :: "('m, 'a, 'q) kernel \<Rightarrow> place \<Rightarrow> ProcessId list" where
  "waiters_at k (Exit_of pid) = (case k_wait k pid of Some pids \<Rightarrow> pids | None \<Rightarrow> [])"
| "waiters_at k (Unit_of n sid) =
     (case sems (sh_semaphores (k_shared k) n) sid of Some s \<Rightarrow> sem_wait_queue s | None \<Rightarrow> [])"

definition cur_pid :: "('m, 'a, 'q) kernel \<Rightarrow> ProcessId" where
  "cur_pid k = ProcessId (processor_pid (k_cpu k))"

definition sched_of :: "('m, 'a, 'q) kernel \<Rightarrow> sched" where
  "sched_of k = \<lparr>sc_cur = cur_pid k, sc_stat = (\<lambda>p. map_option pi_status (k_procs k p)), sc_ready = k_ready k,
     sc_waiters = waiters_at k\<rparr>"

text \<open>A dead process has an exit code and no resources, a live one has resources and no exit code;
  identifiers are nonzero and below the counter.\<close>

definition proc_ok :: "ProcessInner \<Rightarrow> bool" where
  "proc_ok p \<longleftrightarrow>
     (if pi_status p = Dead then pi_exit_code p \<noteq> None \<and> pi_data p = None \<and> pi_vm p = None
      else pi_exit_code p = None \<and> pi_data p \<noteq> None \<and> pi_vm p \<noteq> None)"

definition procs_ok :: "('m, 'a, 'q) kernel \<Rightarrow> bool" where
  "procs_ok k \<longleftrightarrow>
     (\<forall>pid p. k_procs k pid = Some p \<longrightarrow> proc_ok p \<and> pid_raw pid \<noteq> 0 \<and> pid_raw pid < k_counter k)"

definition kernel_inv :: "('m, 'a, 'q) kernel \<Rightarrow> bool" where
  "kernel_inv k \<longleftrightarrow> sched_inv (sched_of k) \<and> procs_ok k"

lemma sched_of_simps [simp]:
  "sc_cur (sched_of k) = cur_pid k" "sc_ready (sched_of k) = k_ready k" "sc_waiters (sched_of k) = waiters_at k"
  "sc_stat (sched_of k) p = map_option pi_status (k_procs k p)"
  by (simp_all add: sched_of_def)

text \<open>Updates that the scheduler does not see.\<close>

lemma waiters_at_frame [simp]:
  "waiters_at (k\<lparr>k_machine := mc\<rparr>) = waiters_at k" "waiters_at (k\<lparr>k_counter := c\<rparr>) = waiters_at k"
  "waiters_at (k\<lparr>k_cpu := cpu\<rparr>) = waiters_at k" "waiters_at (k\<lparr>k_procs := ps\<rparr>) = waiters_at k"
  "waiters_at (k\<lparr>k_ready := r\<rparr>) = waiters_at k" "waiters_at (k\<lparr>k_input := q\<rparr>) = waiters_at k"
  "waiters_at (k\<lparr>k_out := os\<rparr>) = waiters_at k"
  "waiters_at (k\<lparr>k_counter := c, k_shared := sh\<rparr>) = waiters_at (k\<lparr>k_shared := sh\<rparr>)"
  by (rule ext, rename_tac l, case_tac l, simp_all)+

declare waiters_at.simps [simp del]

lemma sched_of_frame [abs_simps]:
  "sched_of (k\<lparr>k_machine := mc\<rparr>) = sched_of k" "sched_of (k\<lparr>k_counter := c\<rparr>) = sched_of k"
  "sched_of (k\<lparr>k_input := q\<rparr>) = sched_of k" "sched_of (k\<lparr>k_out := os\<rparr>) = sched_of k"
  "sched_of (put_proc pid p k) = put_stat pid (pi_status p) (sched_of k)"
  "sched_of (push_ready pid k) = (sched_of k)\<lparr>sc_ready := k_ready k @ [pid]\<rparr>"
  by (auto simp: sched_of_def cur_pid_def put_proc_def push_ready_def put_stat_def)

lemma put_proc_simps [simp]:
  "k_procs (put_proc pid p k) = (k_procs k)(pid \<mapsto> p)" "k_ready (put_proc pid p k) = k_ready k"
  "k_machine (put_proc pid p k) = k_machine k" "k_shared (put_proc pid p k) = k_shared k"
  "k_counter (put_proc pid p k) = k_counter k" "k_cpu (put_proc pid p k) = k_cpu k"
  "k_wait (put_proc pid p k) = k_wait k" "k_apps (put_proc pid p k) = k_apps k"
  "k_input (put_proc pid p k) = k_input k" "k_out (put_proc pid p k) = k_out k"
  "cur_pid (put_proc pid p k) = cur_pid k"
  by (simp_all add: put_proc_def cur_pid_def)

lemma put_proc_twice: "put_proc pid p (put_proc pid p' k) = put_proc pid p k"
  by (simp add: put_proc_def)

lemma put_proc_commute:
  "(put_proc pid p k)\<lparr>k_counter := cn, k_machine := mc\<rparr> = put_proc pid p (k\<lparr>k_counter := cn, k_machine := mc\<rparr>)"
  by (simp add: put_proc_def)

lemma push_ready_simps [simp]:
  "k_procs (push_ready pid k) = k_procs k" "k_ready (push_ready pid k) = k_ready k @ [pid]"
  "k_machine (push_ready pid k) = k_machine k" "k_shared (push_ready pid k) = k_shared k"
  "k_counter (push_ready pid k) = k_counter k" "k_cpu (push_ready pid k) = k_cpu k"
  "k_wait (push_ready pid k) = k_wait k" "cur_pid (push_ready pid k) = cur_pid k"
  by (simp_all add: push_ready_def cur_pid_def)

lemma proc_ok_live: "pi_status p \<noteq> Dead \<Longrightarrow>
    proc_ok p \<longleftrightarrow> pi_exit_code p = None \<and> pi_data p \<noteq> None \<and> pi_vm p \<noteq> None"
  by (simp add: proc_ok_def)

lemma put_stat_twice [abs_simps]: "put_stat p a (put_stat p b s) = put_stat p a s"
  by (simp add: put_stat_def)

lemma put_stat_same: "sc_stat s p = Some st \<Longrightarrow> put_stat p st s = s"
  by (simp add: put_stat_def fun_upd_idem)

lemma procs_ok_frame [simp]:
  "procs_ok (k\<lparr>k_machine := mc\<rparr>) = procs_ok k" "procs_ok (k\<lparr>k_cpu := cpu\<rparr>) = procs_ok k"
  "procs_ok (k\<lparr>k_ready := r\<rparr>) = procs_ok k" "procs_ok (k\<lparr>k_input := q\<rparr>) = procs_ok k"
  "procs_ok (k\<lparr>k_out := os\<rparr>) = procs_ok k" "procs_ok (k\<lparr>k_shared := sh\<rparr>) = procs_ok k"
  "procs_ok (k\<lparr>k_wait := w\<rparr>) = procs_ok k" "procs_ok (push_ready pid k) = procs_ok k"
  by (simp_all add: procs_ok_def push_ready_def)

lemma procs_ok_put: "procs_ok k \<Longrightarrow> k_procs k pid \<noteq> None \<Longrightarrow> proc_ok p \<Longrightarrow> procs_ok (put_proc pid p k)"
  by (auto simp: procs_ok_def put_proc_def)

lemma procs_ok_add:
  assumes "procs_ok k" and "k_counter k \<noteq> 0" and "k_counter k \<noteq> - 1" and "proc_ok p"
  shows "procs_ok (put_proc (ProcessId (k_counter k)) p k\<lparr>k_counter := k_counter k + 1\<rparr>)"
proof -
  have "k_counter k < k_counter k + 1" using assms(3) by (simp add: not_le [symmetric] inc_less_eq_self_iff_eq)
  with assms show ?thesis by (fastforce simp: procs_ok_def put_proc_def dest: less_trans)
qed

section \<open>The running process\<close>

lemma cur_running:
  assumes "sched_inv (sched_of k)"
  obtains p where "k_procs k (cur_pid k) = Some p" and "pi_status p = Running"
  using sched_inv_cases(4) [OF assms] by auto

lemma cur_pid_ok:
  assumes "procs_ok k" and "k_procs k (cur_pid k) = Some p"
  shows "get_pid (k_cpu k) = Inr (cur_pid k)" and "current k = Inr (cur_pid k, p)"
proof -
  have "pid_raw (cur_pid k) \<noteq> 0" using assms by (auto simp: procs_ok_def)
  then show "get_pid (k_cpu k) = Inr (cur_pid k)" by (simp add: get_pid_eq_Inr cur_pid_def)
  with assms(2) show "current k = Inr (cur_pid k, p)" by (simp add: current_def get_proc_def)
qed

text \<open>What \<^verbatim>\<open>save_current\<close> stores for a live process.\<close>

definition saved :: "ProcessContext \<Rightarrow> ProcessInner \<Rightarrow> ProcessInner" where
  "saved c p = (tick p)\<lparr>pi_context := c, pi_status := Ready\<rparr>"

lemma saved_simps [simp]:
  "pi_status (saved c p) = Ready" "pi_context (saved c p) = c" "pi_vm (saved c p) = pi_vm p"
  "pi_data (saved c p) = pi_data p" "pi_exit_code (saved c p) = pi_exit_code p" "pi_children (saved c p) = pi_children p"
  by (simp_all add: saved_def tick_def)

lemma saved_ok: "proc_ok p \<Longrightarrow> pi_status p \<noteq> Dead \<Longrightarrow> proc_ok (saved c p)"
  by (simp add: proc_ok_def)

lemma block_ok: "proc_ok p \<Longrightarrow> pi_status p \<noteq> Dead \<Longrightarrow> proc_ok (block p)"
  by (simp add: proc_ok_def block_def)

lemma save_current_ok:
  assumes "procs_ok k" and "k_procs k (cur_pid k) = Some p" and "pi_status p \<noteq> Dead"
  shows "save_current c k = Inr (put_proc (cur_pid k) (saved c p) k)"
  using cur_pid_ok [OF assms(1,2)] assms(3)
  by (simp add: save_current_def inner_defs saved_def)

text \<open>\<^verbatim>\<open>switch_next\<close> ends in its first iteration when the first ready process really is ready.\<close>

lemma switch_next_head:
  assumes "k_ready k = pid # rest" and "k_procs k pid = Some p" and "pi_status p = Ready" and "pi_vm p = Some vm"
  shows "switch_next k c = Some (Inr (pid, pi_context p,
    (put_proc pid (resume p) k)\<lparr>k_ready := rest, k_machine := PageTableContext_load (vm_page_table vm) (k_machine k),
      k_cpu := Processor_set_pid (k_cpu k) pid\<rparr>))"
  using assms by (subst switch_next.simps)
    (simp add: pop_ready_def get_proc_def is_ready_def ProcessInner_restore_def vm_of_def ProcessContext_restore_def put_proc_def)

lemma do_switch_next_ok:
  assumes "idle_inv (sched_of k)" and "procs_ok k"
  obtains pid p k' where "pid = hd (k_ready k)" "k_procs k pid = Some p" "pi_status p = Ready"
    and "do_switch_next c k = Some (Inr (pi_context p, k'))"
    and "sched_of k' = dispatch (sched_of k)" and "procs_ok k'" and "k_procs k' = (k_procs k)(pid \<mapsto> resume p)"
    and "k_shared k' = k_shared k" "k_wait k' = k_wait k" "k_counter k' = k_counter k"
proof -
  obtain pid rest where r: "k_ready k = pid # rest" using idle_ready_ne [OF assms(1)] by (cases "k_ready k") auto
  have "sc_stat (sched_of k) pid = Some Ready" using assms(1) r by (auto simp: idle_inv_def ready_ok_def)
  then obtain p where p: "k_procs k pid = Some p" "pi_status p = Ready" by auto
  with assms(2) have ok: "proc_ok p" by (auto simp: procs_ok_def)
  then obtain vm where vm: "pi_vm p = Some vm" using p(2) by (auto simp: proc_ok_def)
  note sw = switch_next_head [OF r p vm, of c]
  let ?k = "(put_proc pid (resume p) k)\<lparr>k_ready := rest, k_machine := PageTableContext_load (vm_page_table vm) (k_machine k),
      k_cpu := Processor_set_pid (k_cpu k) pid\<rparr>"
  have ok': "proc_ok (resume p)" using ok p(2) by (simp add: proc_ok_def resume_def)
  show thesis
  proof
    show "do_switch_next c k = Some (Inr (pi_context p, ?k))" using sw by (simp add: do_switch_next_def lift_def)
    show "procs_ok ?k" using procs_ok_put [OF assms(2) _ ok', of pid] p(1) by simp
    show "sched_of ?k = dispatch (sched_of k)"
      by (simp add: sched_of_def dispatch_def r put_stat_def put_proc_def cur_pid_def Processor_set_pid_def resume_def fun_eq_iff)
  qed (use p r in \<open>simp_all add: put_proc_def\<close>)
qed

section \<open>Every kernel entry is a step of the scheduler\<close>

text \<open>The state after the running process gave up the processor is idle, so the dispatch succeeds.\<close>

lemma yield_idle:
  assumes "sched_inv (sched_of k)"
  shows "idle_inv (enqueue (cur_pid k) (sched_of k))"
proof -
  note s = sched_inv_cases [OF assms]
  show ?thesis
  proof (rule idle_enqueue [OF s(1-3)])
    show "sc_stat (sched_of k) (cur_pid k) = Some Running \<or> sc_stat (sched_of k) (cur_pid k) = None"
      using s(4) by simp
    show "q = cur_pid k" if "sc_stat (sched_of k) q = Some Running" for q using s(5) [OF that] by simp
  qed
qed

lemma switch_refines:
  assumes "kernel_inv k"
  obtains c' k' where "switch c k = Some (Inr (c', k'))" and "procs_ok k'"
    and "sched_of k' = dispatch (enqueue (cur_pid k) (sched_of k))"
proof -
  have inv: "sched_inv (sched_of k)" and ok: "procs_ok k" using assms by (auto simp: kernel_inv_def)
  obtain p where p: "k_procs k (cur_pid k) = Some p" "pi_status p = Running" using cur_running [OF inv] .
  let ?k1 = "put_proc (cur_pid k) (saved c p) k"
  have pok: "proc_ok p" using ok p by (auto simp: procs_ok_def)
  have save: "save_current c k = Inr ?k1" using save_current_ok [OF ok p(1)] p(2) by simp
  have ok1: "procs_ok ?k1" by (rule procs_ok_put [OF ok]) (use p pok in \<open>auto intro: saved_ok\<close>)
  have "get_pid (k_cpu ?k1) = Inr (cur_pid k)" using cur_pid_ok(1) [OF ok p(1)] by simp
  then have sw: "switch c k = do_switch_next c (push_ready (cur_pid k) ?k1)" by (simp add: switch_def save)
  have abs: "sched_of (push_ready (cur_pid k) ?k1) = enqueue (cur_pid k) (sched_of k)"
    by (simp add: abs_simps enqueue_def)
  note s = sched_inv_cases [OF inv]
  have "idle_inv (sched_of (push_ready (cur_pid k) ?k1))" unfolding abs by (rule yield_idle [OF inv])
  moreover have "procs_ok (push_ready (cur_pid k) ?k1)" using ok1 by simp
  ultimately show thesis
    by (rule do_switch_next_ok [where c = c]) (use that sw abs in simp)
qed

lemma wake_up_refines:
  assumes "k_procs k pid \<noteq> None"
  shows "sched_of (wake_up pid ret k) = enqueue pid (sched_of k)"
  using assms by (auto simp: wake_up_def get_proc_def abs_simps enqueue_def inner_defs Let_def split: option.splits)

lemma wake_up_frame [simp]:
  "k_shared (wake_up pid ret k) = k_shared k" "k_wait (wake_up pid ret k) = k_wait k"
  "k_machine (wake_up pid ret k) = k_machine k" "k_cpu (wake_up pid ret k) = k_cpu k"
  "k_counter (wake_up pid ret k) = k_counter k"
  by (auto simp: wake_up_def Let_def split: option.splits)

lemma wake_up_procs:
  "k_procs (wake_up pid ret k) = (\<lambda>q. if q = pid then
     map_option (\<lambda>p. pause (case ret of Some r \<Rightarrow> ProcessInner_set_rax r p | None \<Rightarrow> p)) (k_procs k q) else k_procs k q)"
  by (auto simp: wake_up_def get_proc_def Let_def fun_eq_iff split: option.splits)

lemma wake_up_procs_ok:
  assumes "procs_ok k" and "\<And>p. k_procs k pid = Some p \<Longrightarrow> pi_status p \<noteq> Dead"
  shows "procs_ok (wake_up pid ret k)"
proof (cases "k_procs k pid")
  case (Some p)
  with assms have p: "proc_ok p" "pi_status p \<noteq> Dead" by (auto simp: procs_ok_def)
  let ?p = "pause (case ret of Some r \<Rightarrow> ProcessInner_set_rax r p | None \<Rightarrow> p)"
  have "proc_ok ?p" using p by (auto simp: proc_ok_live inner_defs split: option.splits)
  then have "procs_ok (push_ready pid (put_proc pid ?p k))" using procs_ok_put [OF assms(1), of pid ?p] Some by simp
  with Some show ?thesis by (simp add: wake_up_def get_proc_def Let_def)
qed (use assms(1) in \<open>simp add: wake_up_def get_proc_def\<close>)

lemma fold_wake_up:
  assumes "procs_ok k" and "\<And>q. q \<in> set ps \<Longrightarrow> map_option pi_status (k_procs k q) = Some Blocked" and "distinct ps"
  shows "sched_of (fold (\<lambda>p. wake_up p ret) ps k) = fold enqueue ps (sched_of k) \<and>
    procs_ok (fold (\<lambda>p. wake_up p ret) ps k) \<and>
    (\<forall>q. q \<notin> set ps \<longrightarrow> k_procs (fold (\<lambda>p. wake_up p ret) ps k) q = k_procs k q) \<and>
    k_cpu (fold (\<lambda>p. wake_up p ret) ps k) = k_cpu k \<and> k_machine (fold (\<lambda>p. wake_up p ret) ps k) = k_machine k"
  using assms
proof (induction ps arbitrary: k)
  case (Cons p ps)
  have p: "map_option pi_status (k_procs k p) = Some Blocked" using Cons.prems(2) by simp
  then have ref: "sched_of (wake_up p ret k) = enqueue p (sched_of k)" by (intro wake_up_refines) auto
  have "procs_ok (wake_up p ret k)" using p by (intro wake_up_procs_ok Cons.prems(1)) auto
  moreover have "map_option pi_status (k_procs (wake_up p ret k) q) = Some Blocked" if "q \<in> set ps" for q
    using Cons.prems(2) [of q] Cons.prems(3) that by (auto simp: wake_up_procs)
  ultimately have "sched_of (fold (\<lambda>p. wake_up p ret) ps (wake_up p ret k)) = fold enqueue ps (sched_of (wake_up p ret k)) \<and>
    procs_ok (fold (\<lambda>p. wake_up p ret) ps (wake_up p ret k)) \<and>
    (\<forall>q. q \<notin> set ps \<longrightarrow> k_procs (fold (\<lambda>p. wake_up p ret) ps (wake_up p ret k)) q = k_procs (wake_up p ret k) q) \<and>
    k_cpu (fold (\<lambda>p. wake_up p ret) ps (wake_up p ret k)) = k_cpu (wake_up p ret k) \<and>
    k_machine (fold (\<lambda>p. wake_up p ret) ps (wake_up p ret k)) = k_machine (wake_up p ret k)"
    by (intro Cons.IH) (use Cons.prems(3) in auto)
  then show ?case by (auto simp: ref wake_up_procs)
qed simp

lemma sched_of_wait:
  "sched_of (k\<lparr>k_wait := (k_wait k)(pid := w)\<rparr>) = put_waiters (Exit_of pid) (case w of Some ps \<Rightarrow> ps | None \<Rightarrow> []) (sched_of k)"
proof -
  have "waiters_at (k\<lparr>k_wait := (k_wait k)(pid := w)\<rparr>) l =
      ((waiters_at k)(Exit_of pid := (case w of Some ps \<Rightarrow> ps | None \<Rightarrow> []))) l" for l
    by (cases l) (auto simp: waiters_at.simps)
  then show ?thesis by (simp add: sched_of_def cur_pid_def put_waiters_def fun_eq_iff)
qed

text \<open>The state after the waiters of the exiting process were woken.\<close>

definition woken :: "isize \<Rightarrow> ('m, 'a, 'q) kernel \<Rightarrow> ('m, 'a, 'q) kernel" where
  "woken ret k = fold (\<lambda>p. wake_up p (Some ret)) (waiters_at k (Exit_of (cur_pid k))) (k\<lparr>k_wait := (k_wait k)(cur_pid k := None)\<rparr>)"

lemma woken_state:
  assumes "kernel_inv k" and p: "k_procs k (cur_pid k) = Some p"
  shows "kill_current E ret k = rbind (ProcessInner_kill E ret p (k_machine k))
      (\<lambda>(p', mc'). Inr ((put_proc (cur_pid k) p' (woken ret k))\<lparr>k_machine := mc'\<rparr>))"
    and "sched_of (woken ret k) = fold enqueue (waiters_at k (Exit_of (cur_pid k))) (put_waiters (Exit_of (cur_pid k)) [] (sched_of k))"
    and "procs_ok (woken ret k)" and "k_procs (woken ret k) (cur_pid k) = Some p"
proof -
  have inv: "sched_inv (sched_of k)" and ok: "procs_ok k" using assms by (auto simp: kernel_inv_def)
  note s = sched_inv_cases [OF inv]
  let ?me = "cur_pid k"
  let ?ps = "waiters_at k (Exit_of ?me)"
  let ?k0 = "k\<lparr>k_wait := (k_wait k)(?me := None)\<rparr>"
  have ws: "map_option pi_status (k_procs k q) = Some Blocked" if "q \<in> set ?ps" for q
    using s(2) that unfolding waiting_ok_def by (metis sched_of_simps(3,4))
  have "distinct ?ps" using s(2) unfolding waiting_ok_def by (metis sched_of_simps(3))
  with ws ok have w: "sched_of (woken ret k) = fold enqueue ?ps (sched_of ?k0)" "procs_ok (woken ret k)"
      "\<forall>q. q \<notin> set ?ps \<longrightarrow> k_procs (woken ret k) q = k_procs k q" "k_machine (woken ret k) = k_machine k"
    using fold_wake_up [of ?k0 ?ps "Some ret"] by (auto simp: woken_def)
  show "sched_of (woken ret k) = fold enqueue ?ps (put_waiters (Exit_of ?me) [] (sched_of k))"
    using w(1) by (simp add: sched_of_wait)
  show "procs_ok (woken ret k)" by (rule w(2))
  have "?me \<notin> set ?ps" using ws [of ?me] s(4) by auto
  with w(3) p(1) show me: "k_procs (woken ret k) ?me = Some p" by simp
  have k1: "(case k_wait k ?me of Some pids \<Rightarrow> fold (\<lambda>p. wake_up p (Some ret)) pids ?k0 | None \<Rightarrow> k) = woken ret k"
    by (cases "k_wait k ?me") (simp_all add: fun_upd_idem waiters_at.simps woken_def)
  have "pi_status p \<noteq> Dead" using s(4) p by auto
  then show "kill_current E ret k = rbind (ProcessInner_kill E ret p (k_machine k))
      (\<lambda>(p', mc'). Inr ((put_proc ?me p' (woken ret k))\<lparr>k_machine := mc'\<rparr>))"
    by (simp add: kill_current_def cur_pid_ok(1) [OF ok p] kill_def get_proc_def p k1 me Let_def w(4))
qed

lemma killed_idle:
  assumes "kernel_inv k" and "cur_pid k \<noteq> KERNEL_PID" and p: "k_procs k (cur_pid k) = Some p"
    and kill: "ProcessInner_kill E ret p mc = Inr (p', mc')"
  defines "k2 \<equiv> (put_proc (cur_pid k) p' (woken ret k))\<lparr>k_machine := mc'\<rparr>"
  shows "pi_status p' = Dead" and "pi_exit_code p' = Some ret" and "procs_ok k2" and "idle_inv (sched_of k2)"
    and "sched_of k2 = put_stat (cur_pid k) Dead
      (fold enqueue (waiters_at k (Exit_of (cur_pid k))) (put_waiters (Exit_of (cur_pid k)) [] (sched_of k)))"
proof -
  have inv: "sched_inv (sched_of k)" using assms by (auto simp: kernel_inv_def)
  note w = woken_state(2-4) [OF assms(1,3), of ret]
  show p': "pi_status p' = Dead" and "pi_exit_code p' = Some ret"
    using kill by (auto simp: ProcessInner_kill_def Let_def split: option.splits)
  have ok': "proc_ok p'" using kill by (auto simp: ProcessInner_kill_def Let_def proc_ok_def split: option.splits)
  show abs: "sched_of k2 = put_stat (cur_pid k) Dead
      (fold enqueue (waiters_at k (Exit_of (cur_pid k))) (put_waiters (Exit_of (cur_pid k)) [] (sched_of k)))"
    by (simp add: k2_def abs_simps p' w(1))
  show "idle_inv (sched_of k2)" unfolding abs using exit_idle [OF inv] assms(2) by simp
  show "procs_ok k2" using procs_ok_put [OF w(2) _ ok', of "cur_pid k"] w(3) by (simp add: k2_def)
qed

lemma process_exit_refines:
  assumes "kernel_inv k" and "cur_pid k \<noteq> KERNEL_PID" and "process_exit E ret c k = Some (Inr (c', k'))"
  shows "procs_ok k'" and "sched_of k' = dispatch (put_stat (cur_pid k) Dead
    (fold enqueue (waiters_at k (Exit_of (cur_pid k))) (put_waiters (Exit_of (cur_pid k)) [] (sched_of k))))"
proof -
  have inv: "sched_inv (sched_of k)" using assms by (auto simp: kernel_inv_def)
  obtain p where p: "k_procs k (cur_pid k) = Some p" using cur_running [OF inv] .
  from assms(3) obtain p' mc' where kill: "ProcessInner_kill E ret p (k_machine k) = Inr (p', mc')"
    and sw: "do_switch_next c ((put_proc (cur_pid k) p' (woken ret k))\<lparr>k_machine := mc'\<rparr>) = Some (Inr (c', k'))"
    by (auto simp: process_exit_def woken_state(1) [OF assms(1) p])
  note ki = killed_idle [OF assms(1,2) p kill]
  from ki(4,3) sw ki(5) show "procs_ok k'" and "sched_of k' = dispatch (put_stat (cur_pid k) Dead
    (fold enqueue (waiters_at k (Exit_of (cur_pid k))) (put_waiters (Exit_of (cur_pid k)) [] (sched_of k))))"
    by (elim do_switch_next_ok [where c = c]; simp)+
qed

text \<open>Blocking the running process at a place.\<close>

lemma block_idle:
  assumes "sched_inv (sched_of k)" and "cur_pid k \<noteq> KERNEL_PID"
    and "set ps = insert (cur_pid k) (set (waiters_at k l))" and "distinct ps"
  shows "idle_inv (put_stat (cur_pid k) Blocked (put_waiters l ps (sched_of k)))"
proof -
  note s = sched_inv_cases [OF assms(1)]
  have "ready_ok (put_stat (cur_pid k) Blocked (put_waiters l ps (sched_of k)))"
    by (rule ready_ok_stat) (use s(1,4) in auto)
  moreover have "waiting_ok (put_stat (cur_pid k) Blocked (put_waiters l ps (sched_of k)))"
    by (rule waiting_ok_add [OF s(2)]) (use s(4) assms(3,4) in auto)
  moreover have "sc_stat (put_stat (cur_pid k) Blocked (put_waiters l ps (sched_of k))) q \<noteq> Some Running" for q
    using s(5) [of q] by auto
  moreover have "kernel_alive (put_stat (cur_pid k) Blocked (put_waiters l ps (sched_of k)))"
    using s(3) assms(2) by simp
  ultimately show ?thesis by (simp only: idle_inv_def simp_thms)
qed

lemma save_block_switch:
  assumes "kernel_inv k" and "cur_pid k \<noteq> KERNEL_PID"
    and "set ps = insert (cur_pid k) (set (waiters_at k l))" and "distinct ps"
    and "sched_of k1 = put_waiters l ps (sched_of k)" and "k_procs k1 = k_procs k" and "k_cpu k1 = k_cpu k"
    and "k_counter k1 = k_counter k" and p: "k_procs k (cur_pid k) = Some p"
  shows "save_current c k1 = Inr (put_proc (cur_pid k) (saved c p) k1)"
    and "current (put_proc (cur_pid k) (saved c p) k1) = Inr (cur_pid k, saved c p)"
    and "\<exists>c' k'. do_switch_next c (put_proc (cur_pid k) (block (saved c p)) (put_proc (cur_pid k) (saved c p) k1)) = Some (Inr (c', k')) \<and>
      procs_ok k' \<and> sched_of k' = dispatch (put_stat (cur_pid k) Blocked (put_waiters l ps (sched_of k)))"
proof -
  have inv: "sched_inv (sched_of k)" and ok: "procs_ok k" using assms(1) by (auto simp: kernel_inv_def)
  have live: "proc_ok p" "pi_status p \<noteq> Dead" using ok p sched_inv_cases(4) [OF inv] by (auto simp: procs_ok_def)
  have ok1: "procs_ok k1" using ok assms(6,8) by (simp add: procs_ok_def)
  have cur1: "cur_pid k1 = cur_pid k" using assms(7) by (simp add: cur_pid_def)
  have p1: "k_procs k1 (cur_pid k1) = Some p" using p assms(6) cur1 by simp
  show "save_current c k1 = Inr (put_proc (cur_pid k) (saved c p) k1)"
    using save_current_ok [OF ok1 p1 live(2)] cur1 by simp
  let ?k2 = "put_proc (cur_pid k) (saved c p) k1"
  let ?k3 = "put_proc (cur_pid k) (block (saved c p)) ?k2"
  have ok2: "procs_ok ?k2" by (rule procs_ok_put [OF ok1]) (use p1 cur1 live saved_ok in auto)
  then show "current ?k2 = Inr (cur_pid k, saved c p)" using cur_pid_ok(2) [of ?k2] cur1 by simp
  have ok3: "procs_ok ?k3" by (rule procs_ok_put [OF ok2]) (use live in \<open>auto intro!: block_ok saved_ok\<close>)
  have abs: "sched_of ?k3 = put_stat (cur_pid k) Blocked (put_waiters l ps (sched_of k))"
    by (simp add: abs_simps assms(5) block_def)
  have "idle_inv (sched_of ?k3)" unfolding abs using block_idle [OF inv assms(2-4)] .
  then show "\<exists>c' k'. do_switch_next c ?k3 = Some (Inr (c', k')) \<and> procs_ok k' \<and>
      sched_of k' = dispatch (put_stat (cur_pid k) Blocked (put_waiters l ps (sched_of k)))"
    using ok3 by (rule do_switch_next_ok [where c = c]) (simp add: abs)
qed

lemma distinct_waiters: "sched_inv (sched_of k) \<Longrightarrow> distinct (waiters_at k l)"
  by (metis sched_inv_cases(2) sched_of_simps(3) waiting_ok_def)

lemma cur_not_waiting: "sched_inv (sched_of k) \<Longrightarrow> cur_pid k \<notin> set (waiters_at k l)"
  using sched_inv_cases(2,4) [of "sched_of k"] unfolding waiting_ok_def by fastforce

lemma wait_pid_refines:
  assumes "kernel_inv k" and "cur_pid k \<noteq> KERNEL_PID" and "get_exit_code pid k = None"
  obtains c' k' ps where "wait_pid pid c k = Some (Inr (c', k'))" and "procs_ok k'"
    and "set ps = insert (cur_pid k) (set (waiters_at k (Exit_of pid)))" and "distinct ps"
    and "sched_of k' = dispatch (put_stat (cur_pid k) Blocked (put_waiters (Exit_of pid) ps (sched_of k)))"
proof -
  have inv: "sched_inv (sched_of k)" and ok: "procs_ok k" using assms(1) by (auto simp: kernel_inv_def)
  let ?ps = "insort_insert (cur_pid k) (waiters_at k (Exit_of pid))"
  let ?k1 = "k\<lparr>k_wait := (k_wait k)(pid \<mapsto> ?ps)\<rparr>"
  obtain p where p: "k_procs k (cur_pid k) = Some p" using cur_running [OF inv] .
  have reg: "manager_wait_pid pid k = Inr ?k1"
    by (simp add: manager_wait_pid_def cur_pid_ok(1) [OF ok p] waiters_at.simps)
  have "sched_of ?k1 = put_waiters (Exit_of pid) ?ps (sched_of k)" by (simp add: sched_of_wait)
  moreover have set: "set ?ps = insert (cur_pid k) (set (waiters_at k (Exit_of pid)))" by (simp add: set_insort_insert)
  moreover have dist: "distinct ?ps" using distinct_waiters [OF inv] by (simp add: distinct_insort_insert)
  ultimately have sw: "save_current c ?k1 = Inr (put_proc (cur_pid k) (saved c p) ?k1)"
      "current (put_proc (cur_pid k) (saved c p) ?k1) = Inr (cur_pid k, saved c p)"
      "\<exists>c' k'. do_switch_next c (put_proc (cur_pid k) (block (saved c p)) (put_proc (cur_pid k) (saved c p) ?k1)) = Some (Inr (c', k')) \<and>
        procs_ok k' \<and> sched_of k' = dispatch (put_stat (cur_pid k) Blocked (put_waiters (Exit_of pid) ?ps (sched_of k)))"
    by (intro save_block_switch [OF assms(1,2) _ _ _ _ _ _ p, of ?ps]; simp)+
  then show thesis using that [OF _ _ set dist]
    by (auto simp: wait_pid_def assms(3) reg)
qed

section \<open>Semaphore calls\<close>

text \<open>Each operation on a semaphore set replaces the entry of one key.\<close>

lemma sched_of_sem_upd:
  "sched_of (k\<lparr>k_shared := put_semaphores d
     ((sh_semaphores (k_shared k) (pd_semaphores d))\<lparr>sems := (sems (sh_semaphores (k_shared k) (pd_semaphores d)))(sid := x)\<rparr>)
     (k_shared k)\<rparr>) =
   put_waiters (Unit_of (pd_semaphores d) sid) (case x of Some s \<Rightarrow> sem_wait_queue s | None \<Rightarrow> []) (sched_of k)"
  (is "sched_of ?k = put_waiters ?l ?ps _")
proof -
  have "waiters_at ?k l = ((waiters_at k)(?l := ?ps)) l" for l
    by (cases l) (auto simp: waiters_at.simps put_semaphores_def)
  then show ?thesis by (simp add: sched_of_def cur_pid_def put_waiters_def fun_eq_iff)
qed

lemma put_waiters_same: "sc_waiters s l = ps \<Longrightarrow> put_waiters l ps s = s"
  by (auto simp: put_waiters_def)

lemma put_semaphores_same: "put_semaphores d (sh_semaphores sh (pd_semaphores d)) sh = sh"
  by (simp add: put_semaphores_def)

lemma cur_data:
  assumes "kernel_inv k"
  obtains p d where "k_procs k (cur_pid k) = Some p" and "pi_status p = Running" and "pi_data p = Some d"
proof -
  obtain p where p: "k_procs k (cur_pid k) = Some p" "pi_status p = Running"
    using cur_running assms by (auto simp: kernel_inv_def)
  moreover have "proc_ok p" using assms p by (auto simp: kernel_inv_def procs_ok_def)
  ultimately show thesis using that by (auto simp: proc_ok_def)
qed

text \<open>The semaphore that the running process names with a key.\<close>

definition cur_sem :: "ProcessData \<Rightarrow> u32 \<Rightarrow> ('m, 'a, 'q) kernel \<Rightarrow> Semaphore option" where
  "cur_sem d key k = sems (sh_semaphores (k_shared k) (pd_semaphores d)) (SemaphoreId_new key)"

lemma waiters_at_cur_sem:
  "waiters_at k (Unit_of (pd_semaphores d) (SemaphoreId_new key)) =
     (case cur_sem d key k of Some s \<Rightarrow> sem_wait_queue s | None \<Rightarrow> [])"
  by (simp add: waiters_at.simps cur_sem_def)

lemma sem_wait_refines:
  assumes "kernel_inv k" and "cur_pid k \<noteq> KERNEL_PID"
  obtains c' k' where "sem_wait key c k = Some (Inr (c', k'))" and "procs_ok k'"
    and "sched_step (sched_of k) (sched_of k')"
proof -
  have inv: "sched_inv (sched_of k)" and ok: "procs_ok k" using assms(1) by (auto simp: kernel_inv_def)
  obtain p d where p: "k_procs k (cur_pid k) = Some p" "pi_data p = Some d" using cur_data [OF assms(1)] .
  let ?sid = "SemaphoreId_new key" let ?ss = "sh_semaphores (k_shared k) (pd_semaphores d)"
  let ?l = "Unit_of (pd_semaphores d) ?sid"
  note run = sem_wait_def cur_pid_ok [OF ok p(1)] ProcessInner_sem_wait_def sem_data_of_def p(2) ProcessData_sem_wait_def
    SemaphoreSet_wait_def Let_def cur_sem_def [symmetric]
  show thesis
  proof (cases "cur_sem d key k")
    case None
    then have "sem_wait key c k = Some (Inr (set_rax 1 c, k))" by (simp add: run put_semaphores_same)
    then show thesis using ok sched_step.Stay by (rule that)
  next
    case (Some s)
    let ?k1 = "\<lambda>s'. k\<lparr>k_shared := put_semaphores d (?ss\<lparr>sems := (sems ?ss)(?sid \<mapsto> s')\<rparr>) (k_shared k)\<rparr>"
    have q: "waiters_at k ?l = sem_wait_queue s" using Some by (simp add: waiters_at_cur_sem)
    show thesis
    proof (cases "sem_count s = 0")
      case False
      let ?s' = "s\<lparr>sem_count := sem_count s - 1\<rparr>"
      have "sem_wait key c k = Some (Inr (set_rax 0 c, ?k1 ?s'))"
        using Some False by (simp add: run Semaphore_wait_def)
      moreover have "sched_of (?k1 ?s') = sched_of k" using q by (simp add: sched_of_sem_upd put_waiters_same)
      ultimately show thesis using that [of "set_rax 0 c" "?k1 ?s'"] ok sched_step.Stay [of "sched_of k"] by simp
    next
      case True
      let ?s' = "s\<lparr>sem_wait_queue := sem_wait_queue s @ [cur_pid k]\<rparr>"
      let ?ps = "waiters_at k ?l @ [cur_pid k]"
      have abs: "sched_of (?k1 ?s') = put_waiters ?l ?ps (sched_of k)" using q by (simp add: sched_of_sem_upd)
      have ps: "set ?ps = insert (cur_pid k) (set (waiters_at k ?l))" "distinct ?ps"
        using distinct_waiters [OF inv] cur_not_waiting [OF inv] by auto
      note sw = save_block_switch [OF assms ps abs _ _ _ p(1), where c = c, simplified]
      from sw(3) obtain c' k' where res: "do_switch_next c (put_proc (cur_pid k) (block (saved c p))
          (put_proc (cur_pid k) (saved c p) (?k1 ?s'))) = Some (Inr (c', k'))" "procs_ok k'"
        "sched_of k' = dispatch (put_stat (cur_pid k) Blocked (put_waiters ?l ?ps (sched_of k)))" by blast
      have "sem_wait key c k = Some (Inr (c', k'))"
        using Some True res(1) by (simp add: run Semaphore_wait_def sw(1) manager_block_def get_proc_def)
      moreover have "sched_step (sched_of k) (sched_of k')"
        using sched_step.Wait [of "sched_of k" ?ps ?l] assms(2) ps res(3) by simp
      ultimately show thesis using res(2) that by blast
    qed
  qed
qed

lemma sem_signal_refines:
  assumes "kernel_inv k"
  obtains c' k' where "sem_signal key c k = Some (Inr (c', k'))" and "procs_ok k'"
    and "sched_step (sched_of k) (sched_of k')"
proof -
  have inv: "sched_inv (sched_of k)" and ok: "procs_ok k" using assms(1) by (auto simp: kernel_inv_def)
  obtain p d where p: "k_procs k (cur_pid k) = Some p" "pi_data p = Some d" using cur_data [OF assms(1)] .
  let ?sid = "SemaphoreId_new key" let ?ss = "sh_semaphores (k_shared k) (pd_semaphores d)"
  let ?l = "Unit_of (pd_semaphores d) ?sid"
  let ?k1 = "\<lambda>s'. k\<lparr>k_shared := put_semaphores d (?ss\<lparr>sems := (sems ?ss)(?sid \<mapsto> s')\<rparr>) (k_shared k)\<rparr>"
  note run = sem_signal_def cur_pid_ok [OF ok p(1)] ProcessInner_sem_signal_def sem_data_of_def p(2)
    ProcessData_sem_signal_def SemaphoreSet_signal_def Let_def cur_sem_def [symmetric]
  show thesis
  proof (cases "cur_sem d key k")
    case None
    then have "sem_signal key c k = Some (Inr (set_rax 1 c, k))" by (simp add: run put_semaphores_same)
    then show thesis using ok sched_step.Stay by (rule that)
  next
    case (Some s)
    have q: "waiters_at k ?l = sem_wait_queue s" using Some by (simp add: waiters_at_cur_sem)
    show thesis
    proof (cases "sem_wait_queue s")
      case Nil
      let ?s' = "s\<lparr>sem_count := sem_count s + 1\<rparr>"
      have "sem_signal key c k = Some (Inr (set_rax 0 c, ?k1 ?s'))"
        using Some Nil by (simp add: run Semaphore_signal_def)
      moreover have "sched_of (?k1 ?s') = sched_of k" using q by (simp add: sched_of_sem_upd put_waiters_same)
      ultimately show thesis using that [of "set_rax 0 c" "?k1 ?s'"] ok sched_step.Stay [of "sched_of k"] by simp
    next
      case (Cons w ws)
      let ?s' = "s\<lparr>sem_wait_queue := ws\<rparr>"
      have "sem_signal key c k = Some (Inr (c, wake_up w None (?k1 ?s')))"
        using Some Cons by (simp add: run Semaphore_signal_def)
      moreover have wst: "map_option pi_status (k_procs k w) = Some Blocked"
        using sched_inv_cases(2) [OF inv] q Cons unfolding waiting_ok_def by (metis list.set_intros(1) sched_of_simps(3,4))
      moreover have "sched_of (wake_up w None (?k1 ?s')) = enqueue w (put_waiters ?l ws (sched_of k))"
        using wst by (subst wake_up_refines) (auto simp: sched_of_sem_upd)
      moreover have "procs_ok (wake_up w None (?k1 ?s'))" by (rule wake_up_procs_ok) (use ok wst in auto)
      ultimately show thesis using that sched_step.Wake [of "sched_of k" ?l w ws] q Cons by simp
    qed
  qed
qed

lemma abandon_step:
  "sched_step (sched_of k) (put_waiters l [] (sched_of k))"
  unfolding put_waiters_def by (rule sched_step.Abandon) simp

lemma sem_init_refines:
  assumes "kernel_inv k" and "sem_init key val k = Inr (ret, k')"
  shows "procs_ok k'" and "sched_step (sched_of k) (sched_of k')"
proof -
  have ok: "procs_ok k" using assms(1) by (auto simp: kernel_inv_def)
  obtain p d where p: "k_procs k (cur_pid k) = Some p" "pi_data p = Some d" using cur_data [OF assms(1)] .
  let ?sid = "SemaphoreId_new key" let ?ss = "sh_semaphores (k_shared k) (pd_semaphores d)"
  have k': "k' = k\<lparr>k_shared := put_semaphores d (?ss\<lparr>sems := (sems ?ss)(?sid \<mapsto> Semaphore_new val)\<rparr>) (k_shared k)\<rparr>"
    using assms(2) by (simp add: sem_init_def cur_pid_ok [OF ok p(1)] ProcessInner_sem_init_def sem_data_of_def p(2)
        ProcessData_sem_init_def SemaphoreSet_insert_def Let_def)
  then show "procs_ok k'" using ok by simp
  show "sched_step (sched_of k) (sched_of k')"
    unfolding k' sched_of_sem_upd using abandon_step by (simp add: Semaphore_new_def)
qed

lemma sem_remove_refines:
  assumes "kernel_inv k" and "sem_remove key k = Inr (ret, k')"
  shows "procs_ok k'" and "sched_step (sched_of k) (sched_of k')"
proof -
  have ok: "procs_ok k" using assms(1) by (auto simp: kernel_inv_def)
  obtain p d where p: "k_procs k (cur_pid k) = Some p" "pi_data p = Some d" using cur_data [OF assms(1)] .
  let ?sid = "SemaphoreId_new key" let ?ss = "sh_semaphores (k_shared k) (pd_semaphores d)"
  have k': "k' = k\<lparr>k_shared := put_semaphores d (?ss\<lparr>sems := (sems ?ss)(?sid := None)\<rparr>) (k_shared k)\<rparr>"
    using assms(2) by (simp add: sem_remove_def cur_pid_ok [OF ok p(1)] ProcessInner_sem_remove_def sem_data_of_def p(2)
        ProcessData_sem_remove_def SemaphoreSet_remove_def Let_def)
  then show "procs_ok k'" using ok by simp
  show "sched_step (sched_of k) (sched_of k')"
    unfolding k' sched_of_sem_upd using abandon_step by simp
qed

section \<open>Fork and spawn\<close>

lemma fresh_pid: "procs_ok k \<Longrightarrow> k_procs k (ProcessId (k_counter k)) = None"
  unfolding procs_ok_def by (metis ProcessId.sel less_irrefl not_Some_eq)

lemma inner_fork_result:
  assumes "ProcessInner_fork E pid p mc = Some (Inr (child, mc'))"
  shows "pi_status child = Ready" "pi_exit_code child = None" "pi_data child = pi_data p" "pi_vm child \<noteq> None"
    "rax (ctx_regs (pi_context child)) = 0" "pi_parent child = Some pid" "pi_children child = []" "pi_name child = pi_name p"
  using assms by (auto simp: ProcessInner_fork_def Let_def set_rax_def)

text \<open>The state in which \<^verbatim>\<open>fork\<close> calls \<^verbatim>\<open>switch_next\<close>.\<close>

definition fork_parent :: "ProcessId \<Rightarrow> ProcessContext \<Rightarrow> ProcessInner \<Rightarrow> ProcessInner" where
  "fork_parent child c p = (saved c p)\<lparr>pi_children := pi_children p @ [child], pi_context := set_rax (ucast (pid_raw child)) c\<rparr>"

definition forked :: "ProcessContext \<Rightarrow> ProcessInner \<Rightarrow> ProcessInner \<Rightarrow> ('m, 'a) machine \<Rightarrow> ('m, 'a, 'q) kernel \<Rightarrow> ('m, 'a, 'q) kernel" where
  "forked c p child mc k = push_ready (ProcessId (k_counter k)) (push_ready (cur_pid k)
     (put_proc (ProcessId (k_counter k)) child (put_proc (cur_pid k) (fork_parent (ProcessId (k_counter k)) c p)
       (k\<lparr>k_counter := k_counter k + 1, k_machine := mc\<rparr>))))"

lemma fork_eq:
  assumes "kernel_inv k" and p: "k_procs k (cur_pid k) = Some p"
  shows "fork E c k = obind (ProcessInner_fork E (cur_pid k) (saved c p) (k_machine k))
    (\<lambda>(child, mc). do_switch_next c (forked c p child mc k))"
proof -
  have inv: "sched_inv (sched_of k)" and ok: "procs_ok k" using assms(1) by (auto simp: kernel_inv_def)
  let ?me = "cur_pid k" let ?c = "ProcessId (k_counter k)"
  have live: "proc_ok p" "pi_status p \<noteq> Dead" using ok p sched_inv_cases(4) [OF inv] by (auto simp: procs_ok_def)
  let ?k1 = "put_proc ?me (saved c p) k"
  have save: "save_current c k = Inr ?k1" by (rule save_current_ok [OF ok p live(2)])
  have ok1: "procs_ok ?k1" by (rule procs_ok_put [OF ok]) (use p live saved_ok in auto)
  have cur1: "current ?k1 = Inr (?me, saved c p)" using cur_pid_ok(2) [OF ok1] by simp
  have ne: "?me \<noteq> ?c" using p fresh_pid [OF ok] by auto
  let ?k2 = "\<lambda>child mc. put_proc ?c child (put_proc ?me (fork_parent ?c c p) (k\<lparr>k_counter := k_counter k + 1, k_machine := mc\<rparr>))"
  have "get_pid (k_cpu (?k2 child mc)) = Inr ?me" for child mc using cur_pid_ok(1) [OF ok p] by simp
  then have cur2: "current (?k2 child mc) = Inr (?me, fork_parent ?c c p)" for child mc
    using ne by (simp add: current_def get_proc_def)
  have mf: "manager_fork E ?k1 = Some (Inr (?c, ?k2 child mc))"
    if f: "ProcessInner_fork E ?me (saved c p) (k_machine k) = Some (Inr (child, mc))" for child mc
  proof -
    have "pause child = child" using inner_fork_result(1) [OF f] by (simp add: pause_def)
    then show ?thesis
      by (simp add: manager_fork_def cur1 Process_fork_def f ProcessId_new_def add_proc_def lift_def [of "Inr _"] fork_parent_def
          put_proc_twice put_proc_commute)
  qed
  show ?thesis
  proof (cases "ProcessInner_fork E ?me (saved c p) (k_machine k)")
    case (Some r)
    then show ?thesis
    proof (cases r)
      case (Inr x)
      with Some mf [of "fst x" "snd x"] cur2 [of "fst x" "snd x"] show ?thesis
        by (simp add: fork_def save forked_def split: prod.splits)
    qed (use Some in \<open>simp add: fork_def save manager_fork_def cur1 Process_fork_def\<close>)
  qed (simp add: fork_def save manager_fork_def cur1 Process_fork_def)
qed

lemma fork_result:
  assumes "kernel_inv k" and "k_procs k (cur_pid k) = Some p" and "fork E c k = Some (Inr (c', k'))"
  obtains child mc where "ProcessInner_fork E (cur_pid k) (saved c p) (k_machine k) = Some (Inr (child, mc))"
    and "do_switch_next c (forked c p child mc k) = Some (Inr (c', k'))"
  using assms(3) that unfolding fork_eq [OF assms(1,2)] by auto

lemma fork_idle:
  assumes "kernel_inv k" and p: "k_procs k (cur_pid k) = Some p"
    and f: "ProcessInner_fork E (cur_pid k) (saved c p) (k_machine k) = Some (Inr (child, mc))" and "k_counter k \<noteq> - 1"
  shows "idle_inv (sched_of (forked c p child mc k))" and "procs_ok (forked c p child mc k)"
    and "sched_of (forked c p child mc k) = enqueue (ProcessId (k_counter k)) (enqueue (cur_pid k) (sched_of k))"
proof -
  have inv: "sched_inv (sched_of k)" and ok: "procs_ok k" using assms(1) by (auto simp: kernel_inv_def)
  let ?me = "cur_pid k" let ?c = "ProcessId (k_counter k)"
  have live: "proc_ok p" "pi_status p \<noteq> Dead" using ok p sched_inv_cases(4) [OF inv] by (auto simp: procs_ok_def)
  note ch = inner_fork_result [OF f]
  let ?k1 = "put_proc ?me (fork_parent ?c c p) k"
  have fp: "proc_ok (fork_parent ?c c p)" "pi_status (fork_parent ?c c p) = Ready"
    using live by (simp_all add: fork_parent_def proc_ok_def)
  have ok1: "procs_ok ?k1" by (rule procs_ok_put [OF ok]) (use p fp in auto)
  have "k_counter k \<noteq> 0" using ok p by (force simp: procs_ok_def)
  moreover have "proc_ok child" using ch live by (simp add: proc_ok_def)
  ultimately have "procs_ok (put_proc ?c child ?k1\<lparr>k_counter := k_counter k + 1\<rparr>)"
    using procs_ok_add [OF ok1, of child] assms(4) by simp
  then show "procs_ok (forked c p child mc k)" by (simp add: procs_ok_def forked_def)
  show abs: "sched_of (forked c p child mc k) = enqueue ?c (enqueue ?me (sched_of k))"
    by (simp add: forked_def abs_simps enqueue_def fp ch put_stat_def)
  show "idle_inv (sched_of (forked c p child mc k))" unfolding abs
  proof (rule idle_enqueue)
    show "sc_stat (enqueue ?me (sched_of k)) ?c = Some Running \<or> sc_stat (enqueue ?me (sched_of k)) ?c = None"
      using fresh_pid [OF ok] p by auto
    show "q = ?c" if "sc_stat (enqueue ?me (sched_of k)) q = Some Running" for q
      using that yield_idle [OF inv] unfolding idle_inv_def by blast
  qed (use yield_idle [OF inv] in \<open>auto simp: idle_inv_def\<close>)
qed

lemma fork_refines:
  assumes "kernel_inv k" and "fork E c k = Some (Inr (c', k'))" and "k_counter k \<noteq> - 1"
  shows "procs_ok k'"
    and "sched_of k' = dispatch (enqueue (ProcessId (k_counter k)) (enqueue (cur_pid k) (sched_of k)))"
proof -
  obtain p where p: "k_procs k (cur_pid k) = Some p" using cur_running assms(1) by (auto simp: kernel_inv_def)
  obtain child mc where f: "ProcessInner_fork E (cur_pid k) (saved c p) (k_machine k) = Some (Inr (child, mc))"
    and sw: "do_switch_next c (forked c p child mc k) = Some (Inr (c', k'))"
    by (rule fork_result [OF assms(1) p assms(2)])
  note i = fork_idle [OF assms(1) p f assms(3)]
  from i(1,2) sw i(3) show "procs_ok k'"
    and "sched_of k' = dispatch (enqueue (ProcessId (k_counter k)) (enqueue (cur_pid k) (sched_of k)))"
    by (elim do_switch_next_ok [where c = c]; simp)+
qed

lemma load_elf_frame:
  "ProcessInner_load_elf E elf p mc = Inr (p', mc') \<Longrightarrow> \<exists>vm. p' = p\<lparr>pi_vm := Some vm\<rparr>"
  by (auto simp: ProcessInner_load_elf_def)

lemma alloc_init_stack_frame:
  "alloc_init_stack E pid p mc = Inr (sp, p', mc') \<Longrightarrow> \<exists>vm. p' = p\<lparr>pi_vm := Some vm\<rparr>"
  by (auto simp: alloc_init_stack_def)

lemma manager_spawn_result:
  assumes "manager_spawn E elf name parent None k = Inr (pid, k')"
  obtains p mc where "pid = ProcessId (k_counter k)" and "pi_status p = Ready" and "proc_ok p"
    and "k' = push_ready pid (put_proc pid p
      (k\<lparr>k_counter := k_counter k + 1, k_shared := snd (ProcessData_default (k_shared k)), k_machine := mc\<rparr>))"
proof -
  obtain d sh where d: "ProcessData_default (k_shared k) = (d, sh)" by fastforce
  from assms obtain vm p1 mc1 p2 mc2 sp mc3 entry where
    l: "ProcessInner_load_elf E elf \<lparr>pi_name = to_ascii_lowercase name, pi_parent = parent, pi_children = [], pi_ticks = 0,
         pi_status = Ready, pi_context = ProcessContext_default, pi_exit_code = None, pi_data = Some d, pi_vm = Some vm\<rparr> mc1 =
       Inr (p1, mc2)"
    and a: "alloc_init_stack E (ProcessId (k_counter k)) p1 mc2 = Inr (sp, p2, mc3)"
    and k': "pid = ProcessId (k_counter k)" "k' = push_ready pid (put_proc pid (pause (ProcessInner_init_stack_frame E entry sp p2))
       (k\<lparr>k_counter := k_counter k + 1, k_shared := sh, k_machine := mc3\<rparr>))"
    by (auto simp: manager_spawn_def Let_def Process_new_def ProcessId_new_def d add_proc_def split: prod.splits)
  have "proc_ok (pause (ProcessInner_init_stack_frame E entry sp p2))"
    using load_elf_frame [OF l] alloc_init_stack_frame [OF a]
    by (auto simp: proc_ok_def pause_def ProcessInner_init_stack_frame_def)
  with k' that [of "pause (ProcessInner_init_stack_frame E entry sp p2)" mc3] d show thesis by (simp add: pause_def)
qed

lemma default_waiters:
  "waiters_at (k\<lparr>k_shared := snd (ProcessData_default (k_shared k))\<rparr>) l = waiters_at k l \<or>
   waiters_at (k\<lparr>k_shared := snd (ProcessData_default (k_shared k))\<rparr>) l = []"
  by (cases l) (auto simp: waiters_at.simps ProcessData_default_def SemaphoreSet_default_def Let_def)

lemma spawn_refines:
  assumes "kernel_inv k" and "manager_spawn E elf name parent None k = Inr (pid, k')" and "k_counter k \<noteq> - 1"
  shows "procs_ok k'" and "sched_step (sched_of k) (sched_of k')"
proof -
  have inv: "sched_inv (sched_of k)" and ok: "procs_ok k" using assms(1) by (auto simp: kernel_inv_def)
  obtain p mc where r: "pid = ProcessId (k_counter k)" "pi_status p = Ready" "proc_ok p"
    and k': "k' = push_ready pid (put_proc pid p
      (k\<lparr>k_counter := k_counter k + 1, k_shared := snd (ProcessData_default (k_shared k)), k_machine := mc\<rparr>))"
    by (rule manager_spawn_result [OF assms(2)])
  obtain q where "k_procs k (cur_pid k) = Some q" using cur_running [OF inv] .
  then have "k_counter k \<noteq> 0" using ok by (force simp: procs_ok_def)
  then have "procs_ok (put_proc pid p k\<lparr>k_counter := k_counter k + 1\<rparr>)"
    using procs_ok_add [OF ok _ assms(3) r(3)] r(1) by simp
  then show "procs_ok k'" unfolding k' by (simp add: procs_ok_def)
  let ?w = "waiters_at (k\<lparr>k_shared := snd (ProcessData_default (k_shared k))\<rparr>)"
  have "sched_of k' = enqueue pid (sched_of k\<lparr>sc_waiters := ?w\<rparr>)"
    unfolding k' by (simp add: abs_simps enqueue_def r(2) put_stat_def) (simp add: sched_of_def cur_pid_def)
  moreover have "?w l = sc_waiters (sched_of k) l \<or> ?w l = []" for l using default_waiters [of k l] by simp
  moreover have "sc_stat (sched_of k) pid = None" using fresh_pid [OF ok] r(1) by simp
  ultimately show "sched_step (sched_of k) (sched_of k')" using sched_step.Create [of "sched_of k" pid ?w] by metis
qed

section \<open>The step relation of the kernel\<close>

text \<open>One rule per kernel entry: the timer interrupt, the system calls, page faults and the serial
  interrupt. The interrupted context is arbitrary, because user code runs in between. The blocking
  calls and \<^verbatim>\<open>exit\<close> are made by user processes: the kernel process only runs the idle loop of
  \<^verbatim>\<open>kernel/src/main.rs\<close>. Fork and spawn are restricted to the pids before the 16-bit counter wraps.\<close>

inductive kernel_step :: "('m, 'a) env \<Rightarrow> 'q array_queue \<Rightarrow> ('m, 'a, 'q) kernel \<Rightarrow> ('m, 'a, 'q) kernel \<Rightarrow> bool"
  for E Q where
  Timer: "switch c k = Some (Inr (c', k')) \<Longrightarrow> kernel_step E Q k k'"
| Sys_exit: "cur_pid k \<noteq> KERNEL_PID \<Longrightarrow> process_exit E ret c k = Some (Inr (c', k')) \<Longrightarrow> kernel_step E Q k k'"
| Sys_wait_pid: "cur_pid k \<noteq> KERNEL_PID \<Longrightarrow> wait_pid pid c k = Some (Inr (c', k')) \<Longrightarrow> kernel_step E Q k k'"
| Sys_fork: "k_counter k \<noteq> - 1 \<Longrightarrow> fork E c k = Some (Inr (c', k')) \<Longrightarrow> kernel_step E Q k k'"
| Sys_spawn: "k_counter k \<noteq> - 1 \<Longrightarrow> spawn E name k = Inr (ret, k') \<Longrightarrow> kernel_step E Q k k'"
| Sys_sem_init: "sem_init key val k = Inr (r, k') \<Longrightarrow> kernel_step E Q k k'"
| Sys_sem_remove: "sem_remove key k = Inr (r, k') \<Longrightarrow> kernel_step E Q k k'"
| Sys_sem_wait: "cur_pid k \<noteq> KERNEL_PID \<Longrightarrow> sem_wait key c k = Some (Inr (c', k')) \<Longrightarrow> kernel_step E Q k k'"
| Sys_sem_signal: "sem_signal key c k = Some (Inr (c', k')) \<Longrightarrow> kernel_step E Q k k'"
| Sys_read: "manager_read Q fd buf k = Inr (n, buf', k') \<Longrightarrow> kernel_step E Q k k'"
| Sys_write: "manager_write fd buf k = Inr (n, k') \<Longrightarrow> kernel_step E Q k k'"
| Sys_brk: "brk E addr k = Inr (r', k') \<Longrightarrow> kernel_step E Q k k'"
| Fault: "proc_handle_page_fault E va w k = Inr (b, k') \<Longrightarrow> kernel_step E Q k k'"
| Serial: "kernel_step E Q k (k\<lparr>k_input := receive Q bytes (k_input k)\<rparr>)"

lemma stay_refines:
  assumes "kernel_inv k" and "sched_of k' = sched_of k" and "procs_ok k'"
  shows "sched_step (sched_of k) (sched_of k') \<and> procs_ok k'"
  using assms sched_step.Stay [of "sched_of k"] by simp

lemma fault_refines:
  assumes "kernel_inv k" and "proc_handle_page_fault E va w k = Inr (b, k')"
  shows "sched_of k' = sched_of k" and "procs_ok k'"
proof -
  have ok: "procs_ok k" using assms(1) by (auto simp: kernel_inv_def)
  obtain p d where p: "k_procs k (cur_pid k) = Some p" "pi_status p = Running" "pi_data p = Some d" using cur_data [OF assms(1)] .
  have live: "proc_ok p" using ok p by (auto simp: procs_ok_def)
  consider "k' = k" | vm mc where "k' = (put_proc (cur_pid k) (p\<lparr>pi_vm := Some vm\<rparr>) k)\<lparr>k_machine := mc\<rparr>"
    using assms(2) by (auto simp: proc_handle_page_fault_def manager_handle_page_fault_def cur_pid_ok [OF ok p(1)]
        ProcessInner_handle_page_fault_def split: if_splits)
  then have "sched_of k' = sched_of k \<and> procs_ok k'"
  proof cases
    case 2
    have "procs_ok (put_proc (cur_pid k) (p\<lparr>pi_vm := Some vm\<rparr>) k)"
      by (rule procs_ok_put [OF ok]) (use p live in \<open>auto simp: proc_ok_def\<close>)
    moreover have "put_stat (cur_pid k) Running (sched_of k) = sched_of k" by (rule put_stat_same) (simp add: p)
    ultimately show ?thesis using p by (simp add: 2 abs_simps)
  qed (use ok in simp)
  then show "sched_of k' = sched_of k" "procs_ok k'" by auto
qed

lemma kernel_step_refines:
  assumes "kernel_step E Q k k'" and "kernel_inv k"
  shows "sched_step (sched_of k) (sched_of k') \<and> procs_ok k'"
  using assms
proof (induction rule: kernel_step.induct)
  case (Timer c k c' k')
  obtain c2 k2 where "switch c k = Some (Inr (c2, k2))" "procs_ok k2"
    "sched_of k2 = dispatch (enqueue (cur_pid k) (sched_of k))" by (rule switch_refines [OF Timer.prems])
  with Timer.hyps sched_step.Yield [of "sched_of k"] show ?case by simp
next
  case (Sys_exit k ret c c' k')
  from process_exit_refines [OF Sys_exit.prems Sys_exit.hyps] Sys_exit.hyps(1) sched_step.Exit [of "sched_of k"] show ?case by auto
next
  case (Sys_wait_pid k pid c c' k')
  show ?case
  proof (cases "get_exit_code pid k")
    case None
    from wait_pid_refines [OF Sys_wait_pid.prems Sys_wait_pid.hyps(1) None, of c] obtain c2 k2 ps where
      "wait_pid pid c k = Some (Inr (c2, k2))" "procs_ok k2"
      "set ps = insert (cur_pid k) (set (waiters_at k (Exit_of pid)))" "distinct ps"
      "sched_of k2 = dispatch (put_stat (cur_pid k) Blocked (put_waiters (Exit_of pid) ps (sched_of k)))" .
    with Sys_wait_pid.hyps sched_step.Wait [of "sched_of k" ps "Exit_of pid"] show ?thesis by auto
  next
    case (Some r)
    with Sys_wait_pid show ?thesis by (auto simp: wait_pid_def kernel_inv_def intro: sched_step.Stay)
  qed
next
  case (Sys_fork k c c' k')
  have "sc_stat (sched_of k) (ProcessId (k_counter k)) = None"
    using fresh_pid Sys_fork.prems by (auto simp: kernel_inv_def)
  with fork_refines [OF Sys_fork.prems Sys_fork.hyps(2,1)] sched_step.Fork [of "sched_of k" "ProcessId (k_counter k)"]
  show ?case by simp
next
  case (Sys_spawn k name ret k')
  from Sys_spawn.hyps(2) consider "k' = k" | elf parent pid where "manager_spawn E elf name parent None k = Inr (pid, k')"
    by (auto simp: spawn_def elf_spawn_def split: option.splits)
  then show ?case using Sys_spawn.prems spawn_refines [OF Sys_spawn.prems _ Sys_spawn.hyps(1)]
    by cases (auto simp: kernel_inv_def intro: sched_step.Stay)
next
  case (Sys_sem_init key val k r k')
  from sem_init_refines [OF Sys_sem_init.prems Sys_sem_init.hyps] show ?case by simp
next
  case (Sys_sem_remove key k r k')
  from sem_remove_refines [OF Sys_sem_remove.prems Sys_sem_remove.hyps] show ?case by simp
next
  case (Sys_sem_wait k key c c' k')
  from sem_wait_refines [OF Sys_sem_wait.prems Sys_sem_wait.hyps(1), of key c] Sys_sem_wait.hyps(2) show ?case by auto
next
  case (Sys_sem_signal key c k c' k')
  from sem_signal_refines [OF Sys_sem_signal.prems, of key c] Sys_sem_signal.hyps show ?case by auto
next
  case (Sys_read fd buf k n buf' k')
  then have "\<exists>q. k' = k\<lparr>k_input := q\<rparr>" by (auto simp: manager_read_def split: prod.splits)
  with Sys_read show ?case by (intro stay_refines) (auto simp: abs_simps kernel_inv_def)
next
  case (Sys_write fd buf k n k')
  then have "\<exists>os. k' = k\<lparr>k_out := os\<rparr>" by (auto simp: manager_write_def split: prod.splits)
  with Sys_write show ?case by (intro stay_refines) (auto simp: abs_simps kernel_inv_def)
next
  case (Sys_brk addr k r' k')
  then have "\<exists>mc. k' = k\<lparr>k_machine := mc\<rparr>" by (auto simp: brk_def)
  with Sys_brk show ?case by (intro stay_refines) (auto simp: abs_simps kernel_inv_def)
next
  case (Fault va w k b k')
  from fault_refines [OF Fault.prems Fault.hyps] Fault.prems show ?case by (intro stay_refines)
next
  case (Serial k bytes)
  then show ?case by (intro stay_refines) (auto simp: abs_simps kernel_inv_def)
qed

lemma kernel_step_inv: "kernel_step E Q k k' \<Longrightarrow> kernel_inv k \<Longrightarrow> kernel_inv k'"
  using kernel_step_refines [of E Q k k'] sched_step_inv by (auto simp: kernel_inv_def)

section \<open>Reachable states\<close>

text \<open>The kernel state before \<^verbatim>\<open>proc::init\<close>: no process, no shared object, an empty key buffer.\<close>

definition boot_state :: "'q array_queue \<Rightarrow> ('m, 'a) machine \<Rightarrow> ('m, 'a, 'q) kernel" where
  "boot_state Q mc =
     \<lparr>k_machine = mc,
      k_shared = \<lparr>sh_env = (\<lambda>_. Map.empty), sh_resources = (\<lambda>_. ResourceSet_default), sh_semaphores = (\<lambda>_. SemaphoreSet_default),
        sh_next = 0\<rparr>,
      k_counter = COUNTER_init, k_cpu = Processor_new, k_procs = Map.empty, k_ready = [], k_wait = Map.empty,
      k_apps = None, k_input = INPUT_BUF_init Q, k_out = []\<rparr>"

inductive kernel_reachable :: "('m, 'a) env \<Rightarrow> 'q array_queue \<Rightarrow> ('m, 'a, 'q) kernel \<Rightarrow> bool" for E Q where
  Boot: "kernel_reachable E Q (proc_init E pages apps (boot_state Q mc))"
| Step: "kernel_reachable E Q k \<Longrightarrow> kernel_step E Q k k' \<Longrightarrow> kernel_reachable E Q k'"

lemma init_inv: "kernel_inv (proc_init E pages apps (boot_state Q mc))"
proof -
  obtain pt mc1 where pt: "PageTableContext_new mc = (pt, mc1)" by fastforce
  obtain vm mc2 where vm: "ProcessVm_new E pt mc1 = (vm, mc2)" by fastforce
  let ?k = "proc_init E pages apps (boot_state Q mc)"
  let ?p = "\<lparr>pi_name = to_ascii_lowercase ''kernel'', pi_parent = None, pi_children = [], pi_ticks = 0, pi_status = Running,
    pi_context = ProcessContext_default, pi_exit_code = None,
    pi_data = Some \<lparr>pd_env = 0, pd_resources = 0, pd_semaphores = 0\<rparr>, pi_vm = Some (init_kernel_vm E pages vm)\<rparr>"
  have "\<exists>sh. ?k = (boot_state Q mc)\<lparr>k_machine := mc2, k_shared := sh, k_counter := 2,
      k_cpu := Processor 1, k_procs := [KERNEL_PID \<mapsto> ?p], k_apps := apps\<rparr> \<and> (\<forall>n. sems (sh_semaphores sh n) = Map.empty)"
    by (auto simp: proc_init_def pt vm boot_state_def manager_init_def Process_new_def ProcessId_new_def
        ProcessData_new_def ProcessData_default_def SemaphoreSet_default_def COUNTER_init_def KERNEL_PID_def
        Processor_set_pid_def resume_def proc_ok_def Let_def)
  moreover have "pi_status ?p = Running" "proc_ok ?p" by (simp_all add: proc_ok_def)
  ultimately obtain sh p where k: "?k = (boot_state Q mc)\<lparr>k_machine := mc2, k_shared := sh, k_counter := 2,
      k_cpu := Processor 1, k_procs := [KERNEL_PID \<mapsto> p], k_apps := apps\<rparr>"
    and sh: "\<forall>n. sems (sh_semaphores sh n) = Map.empty" and p: "pi_status p = Running" "proc_ok p" by blast
  have w: "waiters_at ?k l = []" for l unfolding k by (cases l) (simp_all add: waiters_at.simps sh boot_state_def)
  have "sched_of ?k = \<lparr>sc_cur = KERNEL_PID, sc_stat = [KERNEL_PID \<mapsto> Running], sc_ready = [], sc_waiters = (\<lambda>_. [])\<rparr>"
    using w unfolding k by (auto simp: sched_of_def cur_pid_def fun_eq_iff p(1) boot_state_def KERNEL_PID_def)
  then have "sched_inv (sched_of ?k)" by (auto simp: sched_inv_defs)
  moreover have "procs_ok ?k" unfolding k using p by (auto simp: procs_ok_def boot_state_def KERNEL_PID_def)
  ultimately show ?thesis by (simp add: kernel_inv_def)
qed

lemma reachable_inv: "kernel_reachable E Q k \<Longrightarrow> kernel_inv k"
  by (induction rule: kernel_reachable.induct) (auto intro: init_inv kernel_step_inv)

section \<open>When the search for the next process ends\<close>

definition runnable :: "('m, 'a, 'q) kernel \<Rightarrow> ProcessId \<Rightarrow> bool" where
  "runnable k pid \<longleftrightarrow> (\<exists>p. k_procs k pid = Some p \<and> is_ready p)"

lemma switch_next_unfold:
  "switch_next k c =
     (let (pid, k1) = pop_ready k
      in if runnable k pid
         then Some (rbind (ProcessInner_restore (the (k_procs k pid)) c (k_machine k1)) (\<lambda>(p', context', mc').
                Inr (pid, context', (put_proc pid p' k1)\<lparr>k_machine := mc', k_cpu := Processor_set_pid (k_cpu k1) pid\<rparr>)))
         else switch_next k1 c)"
proof -
  have "k_procs (snd (pop_ready k)) = k_procs k" by (simp add: pop_ready_def split: list.splits)
  then show ?thesis
    by (subst switch_next.simps) (auto simp: Let_def get_proc_def runnable_def split: option.splits prod.splits)
qed

lemma switch_next_spins:
  assumes "k_ready k = []" and "\<not> runnable k KERNEL_PID"
  shows "switch_next k c = None"
proof (rule ccontr)
  assume "switch_next k c \<noteq> None"
  then obtain r where r: "switch_next k c = Some r" by auto
  have "k_ready k = [] \<longrightarrow> runnable k KERNEL_PID"
  proof (rule switch_next.raw_induct [OF _ r], intro impI, rule ccontr)
    fix sn :: "('a, 'b, 'c) kernel \<Rightarrow> ProcessContext \<Rightarrow> (ProcessId \<times> ProcessContext \<times> ('a, 'b, 'c) kernel) res option"
      and k :: "('a, 'b, 'c) kernel" and c r
    assume ih: "\<And>k c r. sn k c = Some r \<Longrightarrow> k_ready k = [] \<longrightarrow> runnable k KERNEL_PID"
      and body: "(let (next_pid, k1) = pop_ready k
        in case get_proc next_pid k1 of None \<Rightarrow> sn k1 c
           | Some next_proc \<Rightarrow>
               if is_ready next_proc
               then Some (rbind (ProcessInner_restore next_proc c (k_machine k1)) (\<lambda>(p', context', mc').
                      Inr (next_pid, context', (put_proc next_pid p' k1)\<lparr>k_machine := mc',
                        k_cpu := Processor_set_pid (k_cpu k1) next_pid\<rparr>)))
               else sn k1 c) = Some r"
      and e: "k_ready k = []" and n: "\<not> runnable k KERNEL_PID"
    from body e n have "sn k c = Some r"
      by (auto simp: pop_ready_def get_proc_def runnable_def split: option.splits)
    with ih [of k c r] e n show False by blast
  qed
  with assms show False by simp
qed

lemma switch_next_ends_iff:
  "switch_next k c \<noteq> None \<longleftrightarrow> (\<exists>pid \<in> set (k_ready k). runnable k pid) \<or> runnable k KERNEL_PID"
proof (induction "k_ready k" arbitrary: k)
  case Nil
  show ?case
  proof (cases "runnable k KERNEL_PID")
    case True
    with Nil show ?thesis by (subst switch_next_unfold) (simp add: pop_ready_def Nil [symmetric])
  next
    case False
    with switch_next_spins [of k c] Nil show ?thesis by simp
  qed
next
  case (Cons pid rest)
  let ?k1 = "k\<lparr>k_ready := rest\<rparr>"
  have eq: "runnable ?k1 = runnable k" by (simp add: runnable_def fun_eq_iff)
  have "switch_next ?k1 c \<noteq> None \<longleftrightarrow> (\<exists>pid \<in> set rest. runnable k pid) \<or> runnable k KERNEL_PID"
    using Cons.hyps(1) [of ?k1] by (simp add: eq)
  then show ?case
    by (subst switch_next_unfold) (auto simp: pop_ready_def Cons.hyps(2) [symmetric])
qed

end
