(* ===== verification/Scheduling.thy ===== *)
theory Scheduling
  imports Scheduler
begin

text \<open>
  The scheduling properties of the kernel: the invariant of all reachable states, the refinement of
  the abstract scheduler, when the search for the next process ends, round-robin progress under the
  timer, the results of fork, and the delivery of exit codes.
\<close>

section \<open>Timer ticks\<close>

lemma switch_exact:
  assumes "kernel_inv k" and p: "k_procs k (cur_pid k) = Some p"
  obtains q k' where "((k_procs k)(cur_pid k \<mapsto> saved c p)) (hd (k_ready k @ [cur_pid k])) = Some q"
    and "switch c k = Some (Inr (pi_context q, k'))" and "kernel_inv k'"
    and "cur_pid k' = hd (k_ready k @ [cur_pid k])" and "k_ready k' = tl (k_ready k @ [cur_pid k])"
    and "k_procs k' = (k_procs k)(cur_pid k \<mapsto> saved c p, hd (k_ready k @ [cur_pid k]) \<mapsto> resume q)"
proof -
  have inv: "sched_inv (sched_of k)" and ok: "procs_ok k" using assms(1) by (auto simp: kernel_inv_def)
  let ?me = "cur_pid k"
  have live: "proc_ok p" "pi_status p \<noteq> Dead" using ok p sched_inv_cases(4) [OF inv] by (auto simp: procs_ok_def)
  let ?k1 = "put_proc ?me (saved c p) k"
  have save: "save_current c k = Inr ?k1" by (rule save_current_ok [OF ok p live(2)])
  have "procs_ok ?k1" by (rule procs_ok_put [OF ok]) (use p live saved_ok in auto)
  then have ok2: "procs_ok (push_ready ?me ?k1)" by simp
  have "get_pid (k_cpu ?k1) = Inr ?me" using cur_pid_ok(1) [OF ok p] by simp
  then have sw: "switch c k = do_switch_next c (push_ready ?me ?k1)" by (simp add: switch_def save)
  have abs: "sched_of (push_ready ?me ?k1) = enqueue ?me (sched_of k)" by (simp add: abs_simps enqueue_def)
  have idle: "idle_inv (sched_of (push_ready ?me ?k1))" unfolding abs by (rule yield_idle [OF inv])
  obtain q k' where q: "k_procs (push_ready ?me ?k1) (hd (k_ready (push_ready ?me ?k1))) = Some q" "pi_status q = Ready"
    and r: "do_switch_next c (push_ready ?me ?k1) = Some (Inr (pi_context q, k'))"
      "sched_of k' = dispatch (sched_of (push_ready ?me ?k1))" "procs_ok k'"
      "k_procs k' = (k_procs (push_ready ?me ?k1))(hd (k_ready (push_ready ?me ?k1)) \<mapsto> resume q)"
    using do_switch_next_ok [OF idle ok2, of c] by metis
  have "sched_inv (sched_of k')" using dispatch_inv [OF idle] r(2) by simp
  moreover have "cur_pid k' = hd (k_ready k @ [?me])" "k_ready k' = tl (k_ready k @ [?me])"
    using arg_cong [OF r(2), of sc_cur] arg_cong [OF r(2), of sc_ready] abs by (simp_all add: dispatch_def)
  ultimately show thesis using that [of q k'] q r sw by (simp add: kernel_inv_def)
qed

text \<open>A run of timer interrupts: each list element is the context that the interrupt finds; the result is
  the context that the last one resumes.\<close>

fun ticks :: "ProcessContext list \<Rightarrow> ProcessContext \<Rightarrow> ('m, 'a, 'q) kernel \<Rightarrow> ('m, 'a, 'q) handled" where
  "ticks [] c k = lift (Inr (c, k))"
| "ticks (c # cs) _ k = obind (switch c k) (\<lambda>(c', k'). ticks cs c' k')"

lemma ticks_round:
  assumes "kernel_inv k" and "k_procs k (cur_pid k) = Some p" and "n < length (k_ready k @ [cur_pid k])"
    and "length cs = Suc n"
  shows "\<exists>q k'. ticks cs c0 k = Some (Inr (pi_context q, k')) \<and> kernel_inv k' \<and>
    cur_pid k' = (k_ready k @ [cur_pid k]) ! n \<and>
    ((k_procs k)(cur_pid k \<mapsto> saved (hd cs) p)) ((k_ready k @ [cur_pid k]) ! n) = Some q"
  using assms
proof (induction n arbitrary: k p cs c0)
  case 0
  then obtain c where cs: "cs = [c]" by (cases cs) auto
  obtain q k' where "((k_procs k)(cur_pid k \<mapsto> saved c p)) (hd (k_ready k @ [cur_pid k])) = Some q"
    "switch c k = Some (Inr (pi_context q, k'))" "kernel_inv k'" "cur_pid k' = hd (k_ready k @ [cur_pid k])"
    by (rule switch_exact [OF "0.prems"(1,2)])
  with cs show ?case by (auto simp: hd_conv_nth lift_def)
next
  case (Suc n)
  then obtain c cs' where cs: "cs = c # cs'" by (cases cs) auto
  let ?r = "k_ready k @ [cur_pid k]"
  obtain q k1 where q: "((k_procs k)(cur_pid k \<mapsto> saved c p)) (hd ?r) = Some q"
    and sw: "switch c k = Some (Inr (pi_context q, k1))" and inv1: "kernel_inv k1"
    and k1: "cur_pid k1 = hd ?r" "k_ready k1 = tl ?r"
      "k_procs k1 = (k_procs k)(cur_pid k \<mapsto> saved c p, hd ?r \<mapsto> resume q)"
    by (rule switch_exact [OF Suc.prems(1,2)])
  let ?x = "?r ! Suc n"
  have nth: "(k_ready k1 @ [cur_pid k1]) ! n = ?x"
    using Suc.prems(3) by (simp add: k1 nth_append nth_tl)
  have p1: "k_procs k1 (cur_pid k1) = Some (resume q)" by (simp add: k1)
  obtain q' k' where r: "ticks cs' (pi_context q) k1 = Some (Inr (pi_context q', k'))" "kernel_inv k'" "cur_pid k' = ?x"
      "((k_procs k1)(cur_pid k1 \<mapsto> saved (hd cs') (resume q))) ?x = Some q'"
    using Suc.IH [OF inv1 p1, of cs' "pi_context q", unfolded nth] Suc.prems(3,4) cs k1(2) by auto
  have "cur_pid k \<notin> set (k_ready k)" "distinct (k_ready k)"
    using Suc.prems(1) sched_inv_cases(1,4) [of "sched_of k"] by (auto simp: kernel_inv_def ready_ok_def)
  then have "distinct ?r" by simp
  then have "?x \<noteq> hd ?r" using Suc.prems(3) by (auto simp: hd_conv_nth nth_eq_iff_index_eq)
  with r(4) have "((k_procs k)(cur_pid k \<mapsto> saved c p)) ?x = Some q'" by (simp add: k1)
  with r sw cs show ?case by auto
qed

section \<open>Properties\<close>

abbreviation wit_kernel :: "(ref_tables, BootInfoFrameAllocator, nat \<times> DecodedKey list) kernel" where
  "wit_kernel \<equiv> proc_init wit_env [] None (boot_state ref_queue (wit_machine (\<lambda>_ _. None)))"

text \<open>C1. In every state the kernel can reach after \<^verbatim>\<open>proc::init\<close> through timer interrupts, system
  calls, page faults and serial interrupts: exactly one process is running and it is the one in the
  processor cell; the ready queue lists exactly the ready processes, each once; a process that waits
  for an exit or a semaphore is blocked and waits in one place only, once; a dead process has its exit
  code and has given up its address space and data, and any other process has both and no exit code.\<close>

theorem scheduler_invariant:
  assumes "kernel_reachable E Q k"
  shows "(\<forall>pid. map_option pi_status (k_procs k pid) = Some Running \<longleftrightarrow> get_pid (k_cpu k) = Inr pid) \<and>
    distinct (k_ready k) \<and>
    (\<forall>pid. pid \<in> set (k_ready k) \<longleftrightarrow> map_option pi_status (k_procs k pid) = Some Ready) \<and>
    (\<forall>l. distinct (waiters_at k l)) \<and>
    (\<forall>l pid. pid \<in> set (waiters_at k l) \<longrightarrow> map_option pi_status (k_procs k pid) = Some Blocked \<and>
       (\<forall>l'. pid \<in> set (waiters_at k l') \<longrightarrow> l' = l)) \<and>
    (\<forall>pid p. k_procs k pid = Some p \<longrightarrow>
       (pi_status p = Dead \<longrightarrow> pi_exit_code p \<noteq> None \<and> pi_vm p = None \<and> pi_data p = None) \<and>
       (pi_status p \<noteq> Dead \<longrightarrow> pi_exit_code p = None \<and> pi_vm p \<noteq> None \<and> pi_data p \<noteq> None))"
proof -
  have inv: "sched_inv (sched_of k)" and ok: "procs_ok k" using reachable_inv [OF assms] by (auto simp: kernel_inv_def)
  note s = sched_inv_cases [OF inv]
  obtain p where p: "k_procs k (cur_pid k) = Some p" using cur_running [OF inv] .
  have "map_option pi_status (k_procs k pid) = Some Running \<longleftrightarrow> pid = cur_pid k" for pid
    using inv unfolding sched_inv_def by (metis sched_of_simps(1,4))
  then have 1: "\<forall>pid. map_option pi_status (k_procs k pid) = Some Running \<longleftrightarrow> get_pid (k_cpu k) = Inr pid"
    using cur_pid_ok(1) [OF ok p] by auto
  have 2: "distinct (k_ready k)" "\<forall>pid. pid \<in> set (k_ready k) \<longleftrightarrow> map_option pi_status (k_procs k pid) = Some Ready"
    using s(1) by (auto simp: ready_ok_def)
  have 3: "\<forall>l. distinct (waiters_at k l)" using distinct_waiters [OF inv] by blast
  have 4: "map_option pi_status (k_procs k pid) = Some Blocked \<and> (\<forall>l'. pid \<in> set (waiters_at k l') \<longrightarrow> l' = l)"
    if "pid \<in> set (waiters_at k l)" for l pid
    using s(2) that unfolding waiting_ok_def by (metis IntI empty_iff sched_of_simps(3,4))
  have 5: "(pi_status p = Dead \<longrightarrow> pi_exit_code p \<noteq> None \<and> pi_vm p = None \<and> pi_data p = None) \<and>
       (pi_status p \<noteq> Dead \<longrightarrow> pi_exit_code p = None \<and> pi_vm p \<noteq> None \<and> pi_data p \<noteq> None)"
    if "k_procs k pid = Some p" for pid p
    using ok that by (auto simp: procs_ok_def proc_ok_def split: if_splits)
  from 1 2 3 4 5 show ?thesis by blast
qed

theorem scheduler_invariant_witness:
  "kernel_reachable wit_env ref_queue wit_kernel \<and> distinct (k_ready wit_kernel) \<and>
   (\<forall>pid. map_option pi_status (k_procs wit_kernel pid) = Some Running \<longleftrightarrow> get_pid (k_cpu wit_kernel) = Inr pid)"
proof -
  have "kernel_reachable wit_env ref_queue wit_kernel" by (rule kernel_reachable.Boot)
  with scheduler_invariant [OF this] show ?thesis by blast
qed

text \<open>C2. Refinement: every kernel entry, seen through the statuses, the ready queue and the places
  where processes wait, is one step of the abstract scheduler: stay, yield to the first ready process,
  exit and wake the processes that wait for it, block at a place and dispatch, wake the first waiter of
  a place, drop the waiters of places, create a ready process, or fork.\<close>

theorem kernel_refines_scheduler:
  assumes "kernel_reachable E Q k" and "kernel_step E Q k k'"
  shows "sched_step (sched_of k) (sched_of k')"
  using kernel_step_refines [OF assms(2) reachable_inv [OF assms(1)]] by simp

text \<open>A timer interrupt, then a character from the serial port.\<close>

theorem kernel_refines_scheduler_witness:
  "\<exists>c' k'. switch ProcessContext_default wit_kernel = Some (Inr (c', k')) \<and> sched_step (sched_of wit_kernel) (sched_of k') \<and>
     sched_step (sched_of k') (sched_of (k'\<lparr>k_input := receive ref_queue [65] (k_input k')\<rparr>))"
proof -
  have boot: "kernel_reachable wit_env ref_queue wit_kernel" by (rule kernel_reachable.Boot)
  obtain c' k' where sw: "switch ProcessContext_default wit_kernel = Some (Inr (c', k'))"
    using switch_refines [OF reachable_inv [OF boot], of ProcessContext_default] by metis
  then have tick: "kernel_step wit_env ref_queue wit_kernel k'" by (rule kernel_step.Timer)
  from kernel_refines_scheduler [OF boot tick] kernel_refines_scheduler [OF kernel_reachable.Step [OF boot tick] kernel_step.Serial] sw
  show ?thesis by blast
qed

text \<open>C3. The loop of \<^verbatim>\<open>switch_next\<close> ends exactly when some process in the ready queue, or the kernel
  process, is ready; otherwise it spins forever with interrupts disabled. In every reachable state it
  ends: the timer interrupt, and for a user process \<^verbatim>\<open>wait_pid\<close> on a process without exit code,
  \<^verbatim>\<open>sem_wait\<close> and \<^verbatim>\<open>sem_signal\<close>, return without a panic.\<close>

theorem switch_next_terminates:
  "(switch_next k c \<noteq> None \<longleftrightarrow> (\<exists>pid \<in> set (k_ready k). runnable k pid) \<or> runnable k KERNEL_PID) \<and>
   (kernel_reachable E Q k \<longrightarrow> (\<exists>c' k'. switch c k = Some (Inr (c', k'))) \<and>
      (\<exists>c' k'. sem_signal key c k = Some (Inr (c', k'))) \<and>
      (cur_pid k \<noteq> KERNEL_PID \<longrightarrow>
         (\<exists>c' k'. wait_pid pid c k = Some (Inr (c', k'))) \<and> (\<exists>c' k'. sem_wait key c k = Some (Inr (c', k')))))"
proof -
  have "\<exists>c' k'. switch c k = Some (Inr (c', k'))" if "kernel_inv k" using switch_refines [OF that, of c] by metis
  moreover have "\<exists>c' k'. sem_signal key c k = Some (Inr (c', k'))" if "kernel_inv k"
    using sem_signal_refines [OF that, of key c] by metis
  moreover have "\<exists>c' k'. sem_wait key c k = Some (Inr (c', k'))" if "kernel_inv k" "cur_pid k \<noteq> KERNEL_PID"
    using sem_wait_refines [OF that, of key c] by metis
  moreover have "\<exists>c' k'. wait_pid pid c k = Some (Inr (c', k'))" if "kernel_inv k" "cur_pid k \<noteq> KERNEL_PID"
  proof (cases "get_exit_code pid k")
    case None
    then show ?thesis using wait_pid_refines [OF that, of pid c] by metis
  qed (simp add: wait_pid_def lift_def)
  ultimately show ?thesis using switch_next_ends_iff [of k c] reachable_inv [of E Q k] by blast
qed

theorem switch_next_terminates_witness:
  "(\<exists>c' k'. switch ProcessContext_default wit_kernel = Some (Inr (c', k')))"
  using switch_next_terminates [of wit_kernel ProcessContext_default wit_env ref_queue 0 KERNEL_PID] kernel_reachable.Boot by blast

text \<open>C4. Round robin: from a reachable state, whatever the processes do in user mode between timer
  interrupts, the \<open>i\<close>-th process of the ready queue is running after \<open>i + 1\<close> ticks and resumes with
  exactly the context it was saved with; and after one tick more than there are ready processes the
  process that was interrupted first runs again, with exactly the context of that interrupt.\<close>

theorem timer_round_robin:
  assumes "kernel_reachable E Q k"
  shows "(\<forall>i cs. i < length (k_ready k) \<longrightarrow> length cs = Suc i \<longrightarrow>
       (\<exists>q k'. ticks cs c k = Some (Inr (pi_context q, k')) \<and> cur_pid k' = k_ready k ! i \<and> k_procs k (k_ready k ! i) = Some q)) \<and>
    (\<forall>cs. length cs = Suc (length (k_ready k)) \<longrightarrow>
       (\<exists>k'. ticks cs c k = Some (Inr (hd cs, k')) \<and> cur_pid k' = cur_pid k))"
proof -
  have kinv: "kernel_inv k" by (rule reachable_inv [OF assms])
  then have inv: "sched_inv (sched_of k)" by (simp add: kernel_inv_def)
  obtain p where p: "k_procs k (cur_pid k) = Some p" "pi_status p = Running" using cur_running [OF inv] .
  have no: "k_ready k ! i \<noteq> cur_pid k" if "i < length (k_ready k)" for i
    using sched_inv_cases(1) [OF inv] p that nth_mem [OF that] by (auto simp: ready_ok_def)
  have "\<exists>q k'. ticks cs c k = Some (Inr (pi_context q, k')) \<and> cur_pid k' = k_ready k ! i \<and> k_procs k (k_ready k ! i) = Some q"
    if "i < length (k_ready k)" "length cs = Suc i" for i cs
    using ticks_round [OF kinv p(1) _ that(2), of c] that(1) no [OF that(1)] by (auto simp: nth_append)
  moreover have "\<exists>k'. ticks cs c k = Some (Inr (hd cs, k')) \<and> cur_pid k' = cur_pid k"
    if "length cs = Suc (length (k_ready k))" for cs
    using ticks_round [OF kinv p(1) _ that, of c] by auto
  ultimately show ?thesis by blast
qed

text \<open>A reachable state of the witness machine: the kernel alone, whose queue is empty.\<close>

lemma wit_kernel_ready: "k_ready wit_kernel = []"
  by (simp add: proc_init_def manager_init_def boot_state_def Process_new_def ProcessId_new_def Let_def split: prod.splits)

theorem timer_round_robin_witness:
  "\<exists>k'. ticks [ProcessContext_default] ProcessContext_default wit_kernel = Some (Inr (ProcessContext_default, k')) \<and> cur_pid k' = cur_pid wit_kernel"
  using timer_round_robin [OF kernel_reachable.Boot, of wit_env "[]" None ref_queue "wit_machine (\<lambda>_ _. None)" ProcessContext_default] wit_kernel_ready
  by (auto dest!: spec [of _ "[ProcessContext_default]"])

section \<open>Exit codes\<close>

lemma fold_wake_up_procs:
  "distinct ps \<Longrightarrow> k_procs (fold (\<lambda>p. wake_up p (Some ret)) ps k) =
     (\<lambda>q. if q \<in> set ps then map_option (\<lambda>p. pause (ProcessInner_set_rax ret p)) (k_procs k q) else k_procs k q)"
  by (induction ps arbitrary: k) (auto simp: wake_up_procs fun_eq_iff)

lemma fold_wake_up_wait: "k_wait (fold (\<lambda>p. wake_up p ret) ps k) = k_wait k"
  by (induction ps arbitrary: k) auto

lemma woken_procs:
  assumes "kernel_inv k"
  shows "k_procs (woken ret k) = (\<lambda>q. if q \<in> set (waiters_at k (Exit_of (cur_pid k)))
    then map_option (\<lambda>p. pause (ProcessInner_set_rax ret p)) (k_procs k q) else k_procs k q)"
  using distinct_waiters [of k] assms by (simp add: woken_def fold_wake_up_procs kernel_inv_def cong: if_cong)

text \<open>A system of the kernel (ready), a running process 2 and a process 3 that waits for it.\<close>

definition wit_proc :: "ProgramStatus \<Rightarrow> ProcessInner" where
  "wit_proc st = \<lparr>pi_name = ''p'', pi_parent = None, pi_children = [], pi_ticks = 0, pi_status = st,
     pi_context = ProcessContext_default, pi_exit_code = None,
     pi_data = Some \<lparr>pd_env = 0, pd_resources = 0, pd_semaphores = 0\<rparr>,
     pi_vm = Some (wit_vm\<lparr>vm_stack := wit_stack\<lparr>st_end := 0x3FFFFFFFF000, st_usage := 0\<rparr>\<rparr>)\<rparr>"

definition wit_trio :: "(ref_tables, BootInfoFrameAllocator, nat \<times> DecodedKey list) kernel" where
  "wit_trio = (boot_state ref_queue ((wit_machine wit_tables)\<lparr>mc_refs := \<lambda>_. 3\<rparr>))\<lparr>k_counter := 4, k_cpu := Processor 2,
     k_procs := [ProcessId 1 \<mapsto> wit_proc Ready, ProcessId 2 \<mapsto> wit_proc Running, ProcessId 3 \<mapsto> wit_proc Blocked],
     k_ready := [ProcessId 1], k_wait := [ProcessId 2 \<mapsto> [ProcessId 3]]\<rparr>"

lemma wit_trio_cur: "cur_pid wit_trio = ProcessId 2" "k_counter wit_trio = 4"
  "k_procs wit_trio (ProcessId 2) = Some (wit_proc Running)" "k_procs wit_trio (ProcessId 3) = Some (wit_proc Blocked)"
  by (simp_all add: wit_trio_def cur_pid_def)

lemma wit_trio_waiters: "waiters_at wit_trio l = (if l = Exit_of (ProcessId 2) then [ProcessId 3] else [])"
  by (cases l) (auto simp: waiters_at.simps wit_trio_def boot_state_def SemaphoreSet_default_def)

lemma wit_trio_inv: "kernel_inv wit_trio"
proof -
  have st: "map_option pi_status (k_procs wit_trio q) =
      [ProcessId 1 \<mapsto> Ready, ProcessId 2 \<mapsto> Running, ProcessId 3 \<mapsto> Blocked] q" for q
    by (simp add: wit_trio_def wit_proc_def)
  have "sched_inv (sched_of wit_trio)"
    by (rule sched_invI)
      (auto simp: ready_ok_def waiting_ok_def kernel_alive_def st wit_trio_waiters wit_trio_cur KERNEL_PID_def,
       auto simp: wit_trio_def boot_state_def wit_proc_def split: if_splits)
  moreover have "procs_ok wit_trio"
    by (auto simp: procs_ok_def wit_trio_def proc_ok_def wit_proc_def split: if_splits)
  ultimately show ?thesis by (simp add: kernel_inv_def)
qed

text \<open>C5. When a user process exits with code \<open>ret\<close> and dropping its address space succeeds, the call
  returns (in another process), \<open>ret\<close> is from then on the exit code that \<^verbatim>\<open>wait_pid\<close> returns for it
  at once, and every process that was blocked in \<^verbatim>\<open>wait_pid\<close> on it has become ready or is running and
  sees \<open>ret\<close> in \<^verbatim>\<open>rax\<close>, its other registers unchanged.\<close>

theorem exit_code_delivered:
  assumes "kernel_inv k" and "cur_pid k \<noteq> KERNEL_PID"
    and "k_procs k (cur_pid k) = Some p" and "pi_vm p = Some vm" and "ProcessVm_drop E vm (k_machine k) = Inr mc'"
  shows "\<exists>c' k'. process_exit E ret c k = Some (Inr (c', k')) \<and> get_exit_code (cur_pid k) k' = Some ret \<and>
    cur_pid k' \<noteq> cur_pid k \<and> waiters_at k' (Exit_of (cur_pid k)) = [] \<and>
    (\<forall>w \<in> set (waiters_at k (Exit_of (cur_pid k))). \<exists>pw pw'. k_procs k w = Some pw \<and> k_procs k' w = Some pw' \<and>
       pi_context pw' = set_rax ret (pi_context pw) \<and> (pi_status pw' = Ready \<or> pi_status pw' = Running))"
proof -
  let ?me = "cur_pid k"
  let ?p' = "p\<lparr>pi_exit_code := Some ret, pi_status := Dead, pi_data := None, pi_vm := None\<rparr>"
  let ?k2 = "(put_proc ?me ?p' (woken ret k))\<lparr>k_machine := mc'\<rparr>"
  have inv: "sched_inv (sched_of k)" using assms(1) by (simp add: kernel_inv_def)
  have kill: "ProcessInner_kill E ret p (k_machine k) = Inr (?p', mc')"
    using assms(4,5) by (simp add: ProcessInner_kill_def Let_def)
  note ki = killed_idle [OF assms(1-3) kill]
  have pe: "process_exit E ret c k = do_switch_next c ?k2"
    by (simp add: process_exit_def woken_state(1) [OF assms(1,3)] kill)
  obtain q k' where q: "k_procs ?k2 (hd (k_ready ?k2)) = Some q" "pi_status q = Ready"
    and r: "do_switch_next c ?k2 = Some (Inr (pi_context q, k'))" "sched_of k' = dispatch (sched_of ?k2)"
      "k_procs k' = (k_procs ?k2)(hd (k_ready ?k2) \<mapsto> resume q)"
    using do_switch_next_ok [OF ki(4,3), of c] by metis
  have hd: "hd (k_ready ?k2) \<noteq> ?me" using q ki(1) by auto
  have "cur_pid k' = hd (k_ready ?k2)" using arg_cong [OF r(2), of sc_cur] by (simp add: dispatch_def)
  moreover have "waiters_at k' (Exit_of ?me) = []"
    using arg_cong [OF r(2), of sc_waiters] by (simp add: dispatch_def ki(5) fold_enqueue)
  moreover have "get_exit_code ?me k' = Some ret" using hd by (simp add: get_exit_code_def get_proc_def r(3) is_dead_def)
  moreover have "\<exists>pw pw'. k_procs k w = Some pw \<and> k_procs k' w = Some pw' \<and>
       pi_context pw' = set_rax ret (pi_context pw) \<and> (pi_status pw' = Ready \<or> pi_status pw' = Running)"
    if w: "w \<in> set (waiters_at k (Exit_of ?me))" for w
  proof -
    have "map_option pi_status (k_procs k w) = Some Blocked"
      using sched_inv_cases(2) [OF inv] w unfolding waiting_ok_def by (metis sched_of_simps(3,4))
    then obtain pw where pw: "k_procs k w = Some pw" by auto
    have "w \<noteq> ?me" using cur_not_waiting [OF inv] w by auto
    then have "k_procs ?k2 w = Some (pause (ProcessInner_set_rax ret pw))" using w pw by (simp add: woken_procs [OF assms(1)])
    with q pw r(3) show ?thesis by (auto simp: inner_defs)
  qed
  ultimately show ?thesis using pe r(1) hd by auto
qed

theorem exit_code_delivered_witness:
  "\<exists>c' k' pw'. process_exit wit_env 42 ProcessContext_default wit_trio = Some (Inr (c', k')) \<and>
     get_exit_code (ProcessId 2) k' = Some 42 \<and> k_procs k' (ProcessId 3) = Some pw' \<and> rax (ctx_regs (pi_context pw')) = 42"
proof -
  obtain vm where vm: "pi_vm (wit_proc Running) = Some vm" "vm = wit_vm\<lparr>vm_stack := wit_stack\<lparr>st_end := 0x3FFFFFFFF000, st_usage := 0\<rparr>\<rparr>"
    by (simp add: wit_proc_def)
  have "\<exists>mc'. ProcessVm_drop wit_env vm (k_machine wit_trio) = Inr mc'"
    by (simp add: vm(2) ProcessVm_drop_def ProcessVm_clean_up_def Stack_clean_up_def using_count_def wit_trio_def boot_state_def Let_def)
  then obtain mc' where mc: "ProcessVm_drop wit_env vm (k_machine wit_trio) = Inr mc'" by blast
  have cur: "cur_pid wit_trio \<noteq> KERNEL_PID" "k_procs wit_trio (cur_pid wit_trio) = Some (wit_proc Running)"
    by (simp_all add: wit_trio_cur KERNEL_PID_def)
  from exit_code_delivered [OF wit_trio_inv cur vm(1) mc, of 42 ProcessContext_default] show ?thesis
    by (auto simp: wit_trio_cur wit_trio_waiters set_rax_def)
qed

section \<open>Fork\<close>

lemma child_rsp_low:
  "child_rsp sp start AND 0xFFFFFFFF = sp AND 0xFFFFFFFF" "child_rsp sp start AND STACK_START_MASK = start AND STACK_START_MASK"
proof -
  have m: "(0xFFFFFFFF :: u64) = mask 32" by (simp add: mask_eq_exp_minus_1)
  show "child_rsp sp start AND 0xFFFFFFFF = sp AND 0xFFFFFFFF"
    unfolding child_rsp_def m STACK_START_MASK_eq by (rule bit_eqI) (auto simp: bit_simps)
  show "child_rsp sp start AND STACK_START_MASK = start AND STACK_START_MASK"
    unfolding child_rsp_def m STACK_START_MASK_eq by (rule bit_eqI) (auto simp: bit_simps)
qed

text \<open>C6. A successful fork: the child gets the next pid; the parent's saved \<^verbatim>\<open>rax\<close> is the child's pid
  and the child's is 0, and all their other registers are those of the call; the child's frame differs
  only in the stack pointer, which keeps the offset in its 4 GiB slot and lies in the slot of the child's
  stack; the child shares the parent's environment, descriptors and semaphores; both are scheduled.\<close>

theorem fork_returns_twice:
  assumes "kernel_inv k" and "k_procs k (cur_pid k) = Some p" and "k_counter k \<noteq> - 1"
    and "fork E c k = Some (Inr (c', k'))" and "x86_addresses (env_x E)"
  shows "\<exists>pp pc. k_procs k' (cur_pid k) = Some pp \<and> k_procs k' (ProcessId (k_counter k)) = Some pc \<and>
    k_procs k (ProcessId (k_counter k)) = None \<and>
    pi_context pp = set_rax (ucast (k_counter k)) c \<and> ctx_regs (pi_context pc) = (ctx_regs c)\<lparr>rax := 0\<rparr> \<and>
    (\<exists>sp vm. pi_vm pc = Some vm \<and> ctx_frame (pi_context pc) = (ctx_frame c)\<lparr>stack_pointer := sp\<rparr> \<and>
       sp AND 0xFFFFFFFF = stack_pointer (ctx_frame c) AND 0xFFFFFFFF \<and>
       sp AND STACK_START_MASK = stack_start vm AND STACK_START_MASK) \<and>
    pi_data pc = pi_data p \<and> pi_parent pc = Some (cur_pid k) \<and> pi_children pp = pi_children p @ [ProcessId (k_counter k)] \<and>
    {pi_status pp, pi_status pc} \<subseteq> {Ready, Running} \<and> k_counter k' = k_counter k + 1"
proof -
  have ok: "procs_ok k" using assms(1) by (simp add: kernel_inv_def)
  let ?me = "cur_pid k" let ?c = "ProcessId (k_counter k)"
  have ne: "?me \<noteq> ?c" using assms(2) fresh_pid [OF ok] by auto
  obtain child mc where f: "ProcessInner_fork E ?me (saved c p) (k_machine k) = Some (Inr (child, mc))"
    and sw: "do_switch_next c (forked c p child mc k) = Some (Inr (c', k'))"
    by (rule fork_result [OF assms(1,2,4)])
  let ?k3 = "forked c p child mc k"
  have "idle_inv (sched_of ?k3)" "procs_ok ?k3" by (rule fork_idle [OF assms(1,2) f assms(3)])+
  then obtain q where q: "k_procs ?k3 (hd (k_ready ?k3)) = Some q" "pi_status q = Ready"
    and k': "k_procs k' = (k_procs ?k3)(hd (k_ready ?k3) \<mapsto> resume q)" "k_counter k' = k_counter k + 1"
    using sw by (elim do_switch_next_ok [where c = c]) (auto simp: forked_def)
  obtain sp vm where ch: "pi_vm child = Some vm" "ctx_regs (pi_context child) = (ctx_regs c)\<lparr>rax := 0\<rparr>"
      "ctx_frame (pi_context child) = (ctx_frame c)\<lparr>stack_pointer := sp\<rparr>"
      "va_new (env_x E) (child_rsp (stack_pointer (ctx_frame c)) (stack_start vm)) = Some sp"
    using f by (auto simp: ProcessInner_fork_def Let_def update_rsp_def set_rax_def get_stack_top_def)
  have "sp = child_rsp (stack_pointer (ctx_frame c)) (stack_start vm)"
    using ch(4) x86_addresses.va_new_ok [OF assms(5)] x86_addresses.va_new_panics [OF assms(5)]
    by (metis option.distinct(1) option.inject)
  with child_rsp_low(1,2) [of "stack_pointer (ctx_frame c)" "stack_start vm"] have "sp AND 0xFFFFFFFF = stack_pointer (ctx_frame c) AND 0xFFFFFFFF"
      "sp AND STACK_START_MASK = stack_start vm AND STACK_START_MASK" by auto
  with ch q ne k' inner_fork_result [OF f] fresh_pid [OF ok] show ?thesis
    by (auto simp: fork_parent_def resume_def forked_def)
qed

lemma wit_stack_fork:
  "Stack_fork kx86 boot_info_alloc 0 0 (wit_stack\<lparr>st_end := 0x3FFFFFFFF000, st_usage := 0\<rparr>) 0 0x100000 wit_tables wit_alloc pm =
     Some (Inr (\<lparr>st_start = 0x3FFEFFFFF000, st_end = 0x3FFEFFFFF000, st_usage = 0\<rparr>, wit_tables, wit_alloc, pm))"
proof -
  have "fork_place kx86 boot_info_alloc 0 0x3FFEFFFFF000 0 wit_tables wit_alloc = Some (Inr (0x3FFEFFFFF000, wit_tables, wit_alloc))"
    by (simp add: fork_place.simps map_range_def map_range_with_def x86_ref_def canonical_def align_down_def
        pages_from_def upt_rec boot_info_alloc_def bi_allocate_frame_def)
  then show ?thesis
    by (simp add: Stack_fork_def x86_ref_def canonical_def align_down_def clone_range_def)
qed

theorem fork_returns_twice_witness:
  "\<exists>c' k' pp pc. fork wit_env ProcessContext_default wit_trio = Some (Inr (c', k')) \<and>
     k_procs k' (ProcessId 2) = Some pp \<and> rax (ctx_regs (pi_context pp)) = 4 \<and>
     k_procs k' (ProcessId 4) = Some pc \<and> rax (ctx_regs (pi_context pc)) = 0"
proof -
  have cur: "k_procs wit_trio (cur_pid wit_trio) = Some (wit_proc Running)" "k_counter wit_trio \<noteq> - 1"
    by (simp_all add: wit_trio_cur)
  have "\<exists>child mc. ProcessInner_fork wit_env (ProcessId 2) (saved ProcessContext_default (wit_proc Running)) (k_machine wit_trio) =
      Some (Inr (child, mc))"
    using wit_stack_fork
    by (simp add: ProcessInner_fork_def wit_proc_def vm_of_def lift_def ProcessVm_fork_def PageTableContext_fork_def pt_addr_def
        wit_trio_def boot_state_def STACK_MAX_PAGES_def stack_consts update_rsp_def get_stack_top_def ProcessContext_default_def
        child_rsp_def STACK_START_MASK_def stack_start_def saved_def tick_def Let_def x86_ref_def canonical_def)
  then obtain child mc where f: "ProcessInner_fork wit_env (cur_pid wit_trio) (saved ProcessContext_default (wit_proc Running))
      (k_machine wit_trio) = Some (Inr (child, mc))" by (auto simp: wit_trio_cur)
  have "fork wit_env ProcessContext_default wit_trio =
      do_switch_next ProcessContext_default (forked ProcessContext_default (wit_proc Running) child mc wit_trio)"
    unfolding fork_eq [OF wit_trio_inv cur(1)] f by simp
  then obtain c' k' where run: "fork wit_env ProcessContext_default wit_trio = Some (Inr (c', k'))"
    using do_switch_next_ok [OF fork_idle(1,2) [OF wit_trio_inv cur(1) f cur(2)], of ProcessContext_default] by metis
  have "x86_addresses (env_x wit_env)" by (simp add: ref.x86_addresses_axioms)
  from fork_returns_twice [OF wit_trio_inv cur run this] run show ?thesis
    by (auto simp: wit_trio_cur set_rax_def)
qed

end
