(* ===== verification/Syscall.thy ===== *)
theory Syscall
  imports Scheduling
begin

text \<open>
  System calls: the numbers (\<^verbatim>\<open>syscall/src/lib.rs\<close>), the user side of the calling convention
  (\<^verbatim>\<open>syscall/src/macros.rs\<close>, \<^verbatim>\<open>lib/src/syscall.rs\<close>), and the kernel's dispatcher with its
  services (\<^verbatim>\<open>kernel/src/interrupt/syscall/mod.rs\<close>, \<^verbatim>\<open>service.rs\<close>). User memory is reached through
  the current page table. The linked-list allocator of the user heap, the layout objects in user memory
  and the firmware clock are the parameters \<open>services\<close>. The text printed by the two listing calls is
  not modelled.
\<close>

section \<open>System call numbers\<close>

datatype Syscall = Read | Write | Brk | GetPid | Sem | Fork | Spawn | Exit | WaitPid | Time
  | ListApp | Stat | Allocate | Deallocate | Unknown

fun syscall_number :: "Syscall \<Rightarrow> usize" where
  "syscall_number Read = 0"
| "syscall_number Write = 1"
| "syscall_number Brk = 12"
| "syscall_number GetPid = 39"
| "syscall_number Sem = 41"
| "syscall_number Fork = 58"
| "syscall_number Spawn = 59"
| "syscall_number Exit = 60"
| "syscall_number WaitPid = 61"
| "syscall_number Time = 201"
| "syscall_number ListApp = 65531"
| "syscall_number Stat = 65532"
| "syscall_number Allocate = 65533"
| "syscall_number Deallocate = 65534"
| "syscall_number Unknown = 65535"

text \<open>The derived \<^verbatim>\<open>FromPrimitive\<close>, with \<^verbatim>\<open>Unknown\<close> as its default.\<close>

definition Syscall_from :: "usize \<Rightarrow> Syscall" where
  "Syscall_from n =
     (if n = 0 then Read else if n = 1 then Write else if n = 12 then Brk else if n = 39 then GetPid
      else if n = 41 then Sem else if n = 58 then Fork else if n = 59 then Spawn else if n = 60 then Exit
      else if n = 61 then WaitPid else if n = 201 then Time else if n = 65531 then ListApp
      else if n = 65532 then Stat else if n = 65533 then Allocate else if n = 65534 then Deallocate
      else Unknown)"

section \<open>The user side\<close>

text \<open>What the inline assembly loads before \<^verbatim>\<open>int 0x80\<close>.\<close>

definition syscall0 :: "Syscall \<Rightarrow> ProcessContext \<Rightarrow> ProcessContext" where
  "syscall0 n c = c\<lparr>ctx_regs := (ctx_regs c)\<lparr>rax := syscall_number n\<rparr>\<rparr>"

definition syscall1 :: "Syscall \<Rightarrow> usize \<Rightarrow> ProcessContext \<Rightarrow> ProcessContext" where
  "syscall1 n arg0 c = c\<lparr>ctx_regs := (ctx_regs c)\<lparr>rdi := arg0, rax := syscall_number n\<rparr>\<rparr>"

definition syscall2 :: "Syscall \<Rightarrow> usize \<Rightarrow> usize \<Rightarrow> ProcessContext \<Rightarrow> ProcessContext" where
  "syscall2 n arg0 arg1 c = c\<lparr>ctx_regs := (ctx_regs c)\<lparr>rdi := arg0, rsi := arg1, rax := syscall_number n\<rparr>\<rparr>"

definition syscall3 :: "Syscall \<Rightarrow> usize \<Rightarrow> usize \<Rightarrow> usize \<Rightarrow> ProcessContext \<Rightarrow> ProcessContext" where
  "syscall3 n arg0 arg1 arg2 c =
     c\<lparr>ctx_regs := (ctx_regs c)\<lparr>rdi := arg0, rsi := arg1, rdx := arg2, rax := syscall_number n\<rparr>\<rparr>"

definition ret_of :: "ProcessContext \<Rightarrow> usize" where
  "ret_of c = rax (ctx_regs c)"

text \<open>The wrappers of the user library: the registers they load and what they make of \<^verbatim>\<open>rax\<close>.\<close>

definition is_negative :: "isize \<Rightarrow> bool" where
  "is_negative r \<longleftrightarrow> sint r < 0"

definition lib_write_call :: "u8 \<Rightarrow> u64 \<Rightarrow> usize \<Rightarrow> ProcessContext \<Rightarrow> ProcessContext" where
  "lib_write_call fd ptr len = syscall3 Write (ucast fd) ptr len"

definition lib_write_ret :: "usize \<Rightarrow> usize option" where
  "lib_write_ret ret = (if is_negative ret then None else Some ret)"

definition lib_read_call :: "u8 \<Rightarrow> u64 \<Rightarrow> usize \<Rightarrow> ProcessContext \<Rightarrow> ProcessContext" where
  "lib_read_call fd ptr len = syscall3 Read (ucast fd) ptr len"

definition lib_read_ret :: "usize \<Rightarrow> usize option" where
  "lib_read_ret ret = (if is_negative ret then None else Some ret)"

definition lib_wait_pid_call :: "u16 \<Rightarrow> ProcessContext \<Rightarrow> ProcessContext" where
  "lib_wait_pid_call pid = syscall1 WaitPid (ucast pid)"

definition lib_wait_pid_ret :: "usize \<Rightarrow> isize" where
  "lib_wait_pid_ret ret = ret"

definition lib_list_app_call :: "ProcessContext \<Rightarrow> ProcessContext" where
  "lib_list_app_call = syscall0 ListApp"

definition lib_stat_call :: "ProcessContext \<Rightarrow> ProcessContext" where
  "lib_stat_call = syscall0 Stat"

definition lib_allocate_call :: "u64 \<Rightarrow> ProcessContext \<Rightarrow> ProcessContext" where
  "lib_allocate_call layout = syscall1 Allocate layout"

definition lib_deallocate_call :: "u64 \<Rightarrow> u64 \<Rightarrow> ProcessContext \<Rightarrow> ProcessContext" where
  "lib_deallocate_call ptr layout = syscall2 Deallocate ptr layout"

definition lib_spawn_call :: "u64 \<Rightarrow> usize \<Rightarrow> ProcessContext \<Rightarrow> ProcessContext" where
  "lib_spawn_call ptr len = syscall2 Spawn ptr len"

definition lib_spawn_ret :: "usize \<Rightarrow> u16" where
  "lib_spawn_ret ret = ucast ret"

definition lib_get_pid_call :: "ProcessContext \<Rightarrow> ProcessContext" where
  "lib_get_pid_call = syscall0 GetPid"

definition lib_get_pid_ret :: "usize \<Rightarrow> u16" where
  "lib_get_pid_ret ret = ucast ret"

definition lib_exit_call :: "isize \<Rightarrow> ProcessContext \<Rightarrow> ProcessContext" where
  "lib_exit_call code = syscall1 Exit code"

definition lib_fork_call :: "ProcessContext \<Rightarrow> ProcessContext" where
  "lib_fork_call = syscall0 Fork"

definition lib_fork_ret :: "usize \<Rightarrow> u16" where
  "lib_fork_ret ret = ucast ret"

definition lib_new_sem_call :: "u32 \<Rightarrow> usize \<Rightarrow> ProcessContext \<Rightarrow> ProcessContext" where
  "lib_new_sem_call key value = syscall3 Sem 0 (ucast key) value"

definition lib_remove_sem_call :: "u32 \<Rightarrow> ProcessContext \<Rightarrow> ProcessContext" where
  "lib_remove_sem_call key = syscall2 Sem 1 (ucast key)"

definition lib_sem_signal_call :: "u32 \<Rightarrow> ProcessContext \<Rightarrow> ProcessContext" where
  "lib_sem_signal_call key = syscall2 Sem 2 (ucast key)"

definition lib_sem_wait_call :: "u32 \<Rightarrow> ProcessContext \<Rightarrow> ProcessContext" where
  "lib_sem_wait_call key = syscall2 Sem 3 (ucast key)"

text \<open>The four semaphore wrappers return \<^verbatim>\<open>syscall!(...) == 0\<close>.\<close>

definition lib_sem_ret :: "usize \<Rightarrow> bool" where
  "lib_sem_ret ret \<longleftrightarrow> ret = 0"

definition lib_time_call :: "ProcessContext \<Rightarrow> ProcessContext" where
  "lib_time_call = syscall0 Time"

definition BRK_FAILED :: usize where
  "BRK_FAILED = NOT 0"

definition lib_brk_call :: "usize option \<Rightarrow> ProcessContext \<Rightarrow> ProcessContext" where
  "lib_brk_call addr = syscall1 Brk (case addr of Some a \<Rightarrow> a | None \<Rightarrow> 0)"

definition lib_brk_ret :: "usize \<Rightarrow> usize option" where
  "lib_brk_ret ret = (if ret = BRK_FAILED then None else Some ret)"

section \<open>User memory\<close>

text \<open>A byte of user memory through the page table in \<^verbatim>\<open>Cr3\<close>; \<^term>\<open>None\<close> when the page is not mapped.\<close>

definition user_byte :: "('m, 'a) env \<Rightarrow> ('m, 'a) machine \<Rightarrow> u64 \<Rightarrow> u8 option" where
  "user_byte E mc = virt_byte (env_x E) (cr3_addr (mc_cr3 mc)) (env_off E) (mc_tables mc) (mc_bytes mc)"

text \<open>A slice as the services see it, and whether all of it can be accessed.\<close>

definition user_slice :: "('m, 'a) env \<Rightarrow> ('m, 'a) machine \<Rightarrow> u64 \<Rightarrow> usize \<Rightarrow> u8 list" where
  "user_slice E mc ptr len = map (\<lambda>i. case user_byte E mc (ptr + of_nat i) of Some b \<Rightarrow> b | None \<Rightarrow> 0) [0..<unat len]"

definition slice_mapped :: "('m, 'a) env \<Rightarrow> ('m, 'a) machine \<Rightarrow> u64 \<Rightarrow> usize \<Rightarrow> bool" where
  "slice_mapped E mc ptr len \<longleftrightarrow> list_all (\<lambda>i. user_byte E mc (ptr + of_nat i) \<noteq> None) [0..<unat len]"

fun store_slice :: "('m, 'a) env \<Rightarrow> u64 \<Rightarrow> u8 list \<Rightarrow> ('m, 'a) machine \<Rightarrow> ('m, 'a) machine res" where
  "store_slice E ptr [] mc = Inr mc"
| "store_slice E ptr (b # bs) mc =
     (case translate_page (env_x E) (mc_tables mc) (cr3_addr (mc_cr3 mc)) (align_down ptr) of
        None \<Rightarrow> Inl Page_fault
      | Some f \<Rightarrow> store_slice E (ptr + 1) bs (mc\<lparr>mc_bytes := (mc_bytes mc)(f + env_off E + ptr mod 4096 := b)\<rparr>))"

section \<open>Services\<close>

record SyscallArgs =
  sa_syscall :: Syscall
  arg0 :: usize
  arg1 :: usize
  arg2 :: usize

definition SyscallArgs_new :: "Syscall \<Rightarrow> usize \<Rightarrow> usize \<Rightarrow> usize \<Rightarrow> SyscallArgs" where
  "SyscallArgs_new s a0 a1 a2 = \<lparr>sa_syscall = s, arg0 = a0, arg1 = a1, arg2 = a2\<rparr>"

record efi_time =
  hour :: u8
  minute :: u8
  second :: u8
  nanosecond :: u32

record ('m, 'a, 'h) services =
  layout_at :: "('m, 'a) machine \<Rightarrow> u64 \<Rightarrow> usize \<times> usize"
  allocate_first_fit :: "usize \<times> usize \<Rightarrow> 'h \<Rightarrow> usize option \<times> 'h"
  deallocate :: "usize \<Rightarrow> usize \<times> usize \<Rightarrow> 'h \<Rightarrow> 'h"
  get_time :: "efi_time option"

text \<open>Reading the name happens when an application with a name of this length is compared.\<close>

definition spawn_process :: "('m, 'a) env \<Rightarrow> SyscallArgs \<Rightarrow> ('m, 'a, 'q) kernel \<Rightarrow> (usize \<times> ('m, 'a, 'q) kernel) res" where
  "spawn_process E args k =
     (let name = map (\<lambda>b. char_of (unat b)) (user_slice E (k_machine k) (arg0 args) (arg1 args));
          compared = (case k_apps k of None \<Rightarrow> False | Some apps \<Rightarrow> list_ex (\<lambda>app. length (app_name app) = unat (arg1 args)) apps)
      in if compared \<and> \<not> slice_mapped E (k_machine k) (arg0 args) (arg1 args) then Inl Page_fault
         else rbind (spawn E name k) (\<lambda>(r, k').
                case r of Some pid \<Rightarrow> Inr (ucast (pid_raw pid), k') | None \<Rightarrow> Inr (0, k')))"

text \<open>Printing reads the whole buffer.\<close>

definition sys_write :: "('m, 'a) env \<Rightarrow> SyscallArgs \<Rightarrow> ('m, 'a, 'q) kernel \<Rightarrow> (usize \<times> ('m, 'a, 'q) kernel) res" where
  "sys_write E args k =
     rbind (manager_write (ucast (arg0 args)) (user_slice E (k_machine k) (arg1 args) (arg2 args)) k) (\<lambda>(r, k').
       if k_out k' \<noteq> k_out k \<and> \<not> slice_mapped E (k_machine k) (arg1 args) (arg2 args) then Inl Page_fault
       else Inr (r, k'))"

text \<open>A read that returns \<open>n\<close> has stored the first \<open>n\<close> bytes of the buffer.\<close>

definition sys_read :: "('m, 'a) env \<Rightarrow> 'q array_queue \<Rightarrow> SyscallArgs \<Rightarrow> ('m, 'a, 'q) kernel \<Rightarrow> (usize \<times> ('m, 'a, 'q) kernel) res" where
  "sys_read E Q args k =
     rbind (manager_read Q (ucast (arg0 args)) (user_slice E (k_machine k) (arg1 args) (arg2 args)) k) (\<lambda>(r, buf, k').
     rbind (store_slice E (arg1 args) (if is_negative r then [] else take (unat r) buf) (k_machine k')) (\<lambda>mc'.
       Inr (r, k'\<lparr>k_machine := mc'\<rparr>)))"

definition exit_process :: "('m, 'a) env \<Rightarrow> SyscallArgs \<Rightarrow> ProcessContext \<Rightarrow> ('m, 'a, 'q) kernel \<Rightarrow> ('m, 'a, 'q) handled" where
  "exit_process E args context k = process_exit E (arg0 args) context k"

definition sys_allocate :: "('m, 'a, 'h) services \<Rightarrow> SyscallArgs \<Rightarrow> ('m, 'a) machine \<Rightarrow> 'h \<Rightarrow> (usize \<times> 'h) res" where
  "sys_allocate S args mc h =
     (if arg0 args = 0 then Inl Unwrap_failed
      else let layout = layout_at S mc (arg0 args)
           in if fst layout = 0 then Inr (0, h)
              else case allocate_first_fit S layout h of
                     (Some ptr, h') \<Rightarrow> Inr (ptr, h')
                   | (None, h') \<Rightarrow> Inr (0, h'))"

definition sys_deallocate :: "('m, 'a, 'h) services \<Rightarrow> SyscallArgs \<Rightarrow> ('m, 'a) machine \<Rightarrow> 'h \<Rightarrow> 'h res" where
  "sys_deallocate S args mc h =
     (if arg1 args = 0 then Inl Unwrap_failed
      else let layout = layout_at S mc (arg1 args)
           in if arg0 args = 0 \<or> fst layout = 0 then Inr h
              else Inr (deallocate S (arg0 args) layout h))"

definition sys_get_pid :: "('m, 'a, 'q) kernel \<Rightarrow> u16 res" where
  "sys_get_pid k = rbind (get_pid (k_cpu k)) (\<lambda>pid. Inr (pid_raw pid))"

definition sys_wait_pid :: "SyscallArgs \<Rightarrow> ProcessContext \<Rightarrow> ('m, 'a, 'q) kernel \<Rightarrow> ('m, 'a, 'q) handled" where
  "sys_wait_pid args context k = wait_pid (ProcessId (ucast (arg0 args))) context k"

definition sys_fork :: "('m, 'a) env \<Rightarrow> ProcessContext \<Rightarrow> ('m, 'a, 'q) kernel \<Rightarrow> ('m, 'a, 'q) handled" where
  "sys_fork E context k = fork E context k"

text \<open>Store a result in \<^verbatim>\<open>rax\<close>.\<close>

definition give :: "ProcessContext \<Rightarrow> (usize \<times> ('m, 'a, 'q) kernel) res \<Rightarrow> ('m, 'a, 'q) handled" where
  "give context r = lift (rbind r (\<lambda>(v, k'). Inr (set_rax v context, k')))"

definition sys_sem :: "SyscallArgs \<Rightarrow> ProcessContext \<Rightarrow> ('m, 'a, 'q) kernel \<Rightarrow> ('m, 'a, 'q) handled" where
  "sys_sem args context k =
     (if arg0 args = 0 then give context (sem_init (ucast (arg1 args)) (arg2 args) k)
      else if arg0 args = 1 then give context (sem_remove (ucast (arg1 args)) k)
      else if arg0 args = 2 then sem_signal (ucast (arg1 args)) context k
      else if arg0 args = 3 then sem_wait (ucast (arg1 args)) context k
      else lift (Inr (set_rax (- 1) context, k)))"

definition sys_time :: "('m, 'a, 'h) services \<Rightarrow> u64 res" where
  "sys_time S =
     rbind (expect Unwrap_failed (get_time S)) (\<lambda>time.
       let secs = ucast (hour time) * 3600 + ucast (minute time) * 60 + ucast (second time);
           msecs = nanosecond time div 1000000
       in Inr (secs * 1000 + ucast msecs))"

definition sys_brk :: "('m, 'a) env \<Rightarrow> SyscallArgs \<Rightarrow> ('m, 'a, 'q) kernel \<Rightarrow> (usize \<times> ('m, 'a, 'q) kernel) res" where
  "sys_brk E args k =
     rbind (if arg0 args = 0 then Inr None
            else rbind (expect Address_panic (va_new (env_x E) (arg0 args))) (\<lambda>a. Inr (Some a))) (\<lambda>new_heap_end.
     rbind (brk E new_heap_end k) (\<lambda>(r, k').
       case r of Some e \<Rightarrow> Inr (e, k') | None \<Rightarrow> Inr (NOT 0, k')))"

section \<open>The dispatcher\<close>

type_synonym ('m, 'a, 'q, 'h) served = "(ProcessContext \<times> ('m, 'a, 'q) kernel \<times> 'h) res option"

definition with_heap :: "'h \<Rightarrow> ('m, 'a, 'q) handled \<Rightarrow> ('m, 'a, 'q, 'h) served" where
  "with_heap h r = obind r (\<lambda>(c, k). lift (Inr (c, k, h)))"

definition dispatcher :: "('m, 'a) env \<Rightarrow> 'q array_queue \<Rightarrow> ('m, 'a, 'h) services \<Rightarrow> ProcessContext \<Rightarrow>
    ('m, 'a, 'q) kernel \<Rightarrow> 'h \<Rightarrow> ('m, 'a, 'q, 'h) served" where
  "dispatcher E Q S context k h =
     (let args = SyscallArgs_new (Syscall_from (rax (ctx_regs context))) (rdi (ctx_regs context)) (rsi (ctx_regs context))
                   (rdx (ctx_regs context))
      in case sa_syscall args of
           Read \<Rightarrow> with_heap h (give context (sys_read E Q args k))
         | Write \<Rightarrow> with_heap h (give context (sys_write E args k))
         | GetPid \<Rightarrow> with_heap h (give context (rbind (sys_get_pid k) (\<lambda>pid. Inr (ucast pid, k))))
         | Spawn \<Rightarrow> with_heap h (give context (spawn_process E args k))
         | Exit \<Rightarrow> with_heap h (exit_process E args context k)
         | WaitPid \<Rightarrow> with_heap h (sys_wait_pid args context k)
         | Stat \<Rightarrow> lift (Inr (context, k, h))
         | ListApp \<Rightarrow> lift (Inr (context, k, h))
         | Fork \<Rightarrow> with_heap h (sys_fork E context k)
         | Sem \<Rightarrow> with_heap h (sys_sem args context k)
         | Time \<Rightarrow> with_heap h (give context (rbind (sys_time S) (\<lambda>t. Inr (t, k))))
         | Brk \<Rightarrow> with_heap h (give context (sys_brk E args k))
         | Allocate \<Rightarrow> lift (rbind (sys_allocate S args (k_machine k) h) (\<lambda>(ptr, h'). Inr (set_rax ptr context, k, h')))
         | Deallocate \<Rightarrow> lift (rbind (sys_deallocate S args (k_machine k) h) (\<lambda>h'. Inr (context, k, h')))
         | Unknown \<Rightarrow> lift (Inr (context, k, h)))"

section \<open>The invariant under system calls\<close>

lemma kernel_inv_machine: "kernel_inv (k\<lparr>k_machine := mc\<rparr>) = kernel_inv k"
  by (simp add: kernel_inv_def abs_simps)

lemma give_result: "give c r = Some (Inr (c', k')) \<longleftrightarrow> (\<exists>v. r = Inr (v, k') \<and> c' = set_rax v c)"
  by (auto simp: give_def rbind_eq_Inr_iff)

lemma with_heap_result: "with_heap h r = Some (Inr (c', k', h')) \<longleftrightarrow> r = Some (Inr (c', k')) \<and> h' = h"
  by (auto simp: with_heap_def obind_eq_Some_Inr_iff)

lemmas served_simps = with_heap_result give_result lift_def

lemma sys_read_inv: "kernel_inv k \<Longrightarrow> sys_read E Q args k = Inr (r, k') \<Longrightarrow> kernel_inv k'"
  by (auto simp: sys_read_def kernel_inv_machine intro: kernel_step_inv [OF kernel_step.Sys_read])

lemma sys_write_inv: "kernel_inv k \<Longrightarrow> sys_write E args k = Inr (r, k') \<Longrightarrow> kernel_inv k'"
  by (auto simp: sys_write_def split: if_splits intro: kernel_step_inv [OF kernel_step.Sys_write])

lemma sys_brk_inv: "kernel_inv k \<Longrightarrow> sys_brk E args k = Inr (r, k') \<Longrightarrow> kernel_inv k'"
  by (auto simp: sys_brk_def split: if_splits option.splits intro: kernel_step_inv [OF kernel_step.Sys_brk])

lemma spawn_process_inv:
  "kernel_inv k \<Longrightarrow> k_counter k \<noteq> - 1 \<Longrightarrow> spawn_process E args k = Inr (r, k') \<Longrightarrow> kernel_inv k'"
  by (auto simp: spawn_process_def Let_def split: if_splits option.splits intro: kernel_step_inv [OF kernel_step.Sys_spawn])

lemma sys_sem_inv:
  assumes "kernel_inv k" and "cur_pid k \<noteq> KERNEL_PID" and "sys_sem args c k = Some (Inr (c', k'))"
  shows "kernel_inv k'"
  using assms
  by (auto simp: sys_sem_def served_simps split: if_splits
      intro: kernel_step_inv [OF kernel_step.Sys_sem_init] kernel_step_inv [OF kernel_step.Sys_sem_remove]
        kernel_step_inv [OF kernel_step.Sys_sem_signal] kernel_step_inv [OF kernel_step.Sys_sem_wait])

section \<open>Properties\<close>

text \<open>The system call numbers of the user library and the kernel's decoding agree: decoding the
  number of a call gives the call, and exactly the other values decode to \<^verbatim>\<open>Unknown\<close>.\<close>

theorem syscall_numbers_roundtrip:
  "Syscall_from (syscall_number s) = s \<and> (Syscall_from n \<noteq> Unknown \<longleftrightarrow> n \<in> syscall_number ` (UNIV - {Unknown}))"
proof -
  have "Syscall_from (syscall_number s) = s" for s by (cases s) (simp_all add: Syscall_from_def)
  moreover have "n = syscall_number (Syscall_from n)" if "Syscall_from n \<noteq> Unknown"
    using that by (auto simp: Syscall_from_def split: if_splits)
  ultimately show ?thesis by (metis DiffD2 DiffI UNIV_I imageE imageI singletonD singletonI)
qed

text \<open>C7. Whatever a user process puts into its registers before \<^verbatim>\<open>int 0x80\<close>, a system call that
  returns keeps the kernel invariant (one running process, consistent queues, no dead process with
  resources), as long as the pid counter has not reached its last value; an unknown number changes
  nothing at all, not even \<^verbatim>\<open>rax\<close>.\<close>

theorem dispatcher_keeps_invariant:
  assumes "kernel_inv k" and "cur_pid k \<noteq> KERNEL_PID" and "k_counter k \<noteq> - 1"
    and "dispatcher E Q S c k h = Some (Inr (c', k', h'))"
  shows "kernel_inv k' \<and> (Syscall_from (rax (ctx_regs c)) = Unknown \<longrightarrow> c' = c \<and> k' = k \<and> h' = h)"
proof (cases "Syscall_from (rax (ctx_regs c))")
  case Exit
  with assms show ?thesis
    by (auto simp: dispatcher_def SyscallArgs_new_def served_simps exit_process_def intro: kernel_step_inv [OF kernel_step.Sys_exit])
next
  case WaitPid
  with assms show ?thesis
    by (auto simp: dispatcher_def SyscallArgs_new_def served_simps sys_wait_pid_def intro: kernel_step_inv [OF kernel_step.Sys_wait_pid])
next
  case Fork
  with assms show ?thesis
    by (auto simp: dispatcher_def SyscallArgs_new_def served_simps sys_fork_def intro: kernel_step_inv [OF kernel_step.Sys_fork])
next
  case Sem
  with assms show ?thesis
    by (auto simp: dispatcher_def SyscallArgs_new_def served_simps dest: sys_sem_inv)
qed (use assms in \<open>auto simp: dispatcher_def SyscallArgs_new_def served_simps
    dest: sys_read_inv sys_write_inv sys_brk_inv spawn_process_inv\<close>)

definition wit_services :: "('m, 'a, unit) services" where
  "wit_services = \<lparr>layout_at = (\<lambda>_ _. (0, 1)), allocate_first_fit = (\<lambda>_ h. (None, h)), deallocate = (\<lambda>_ _ h. h),
     get_time = Some \<lparr>hour = 23, minute = 59, second = 59, nanosecond = 0\<rparr>\<rparr>"

theorem dispatcher_keeps_invariant_witness:
  "\<exists>c' k' h'. dispatcher wit_env ref_queue wit_services (lib_get_pid_call ProcessContext_default) wit_trio () = Some (Inr (c', k', h')) \<and>
     lib_get_pid_ret (ret_of c') = 2 \<and> kernel_inv k'"
proof -
  let ?c = "lib_get_pid_call ProcessContext_default"
  have run: "dispatcher wit_env ref_queue wit_services ?c wit_trio () = Some (Inr (set_rax 2 ?c, wit_trio, ()))"
    by (simp add: dispatcher_def Let_def SyscallArgs_new_def lib_get_pid_call_def syscall0_def Syscall_from_def sys_get_pid_def
        get_pid_def Processor_get_pid_def wit_trio_def give_def with_heap_def lift_def)
  have "cur_pid wit_trio \<noteq> KERNEL_PID" "k_counter wit_trio \<noteq> - 1" by (simp_all add: wit_trio_cur KERNEL_PID_def)
  from dispatcher_keeps_invariant [OF wit_trio_inv this run] run show ?thesis
    by (auto simp: lib_get_pid_ret_def ret_of_def set_rax_def)
qed

section \<open>Semaphore results\<close>

lemma cur_sem_calls:
  assumes "kernel_inv k" and "k_procs k (cur_pid k) = Some p" and "pi_data p = Some d"
  shows "sem_init key v k = Inr (of_bool (cur_sem d key k = None), k\<lparr>k_shared := put_semaphores d
      ((sh_semaphores (k_shared k) (pd_semaphores d))\<lparr>sems := (sems (sh_semaphores (k_shared k) (pd_semaphores d)))
         (SemaphoreId_new key \<mapsto> Semaphore_new v)\<rparr>) (k_shared k)\<rparr>)"
    and "cur_sem d key k = None \<Longrightarrow> sem_wait key c k = Some (Inr (set_rax 1 c, k))"
    and "cur_sem d key k = None \<Longrightarrow> sem_signal key c k = Some (Inr (set_rax 1 c, k))"
proof -
  have ok: "procs_ok k" using assms(1) by (simp add: kernel_inv_def)
  note run = cur_pid_ok [OF ok assms(2)] sem_data_of_def assms(3) Let_def cur_sem_def put_semaphores_same lift_def
  show "sem_init key v k = Inr (of_bool (cur_sem d key k = None), k\<lparr>k_shared := put_semaphores d
      ((sh_semaphores (k_shared k) (pd_semaphores d))\<lparr>sems := (sems (sh_semaphores (k_shared k) (pd_semaphores d)))
         (SemaphoreId_new key \<mapsto> Semaphore_new v)\<rparr>) (k_shared k)\<rparr>)"
    by (simp add: run sem_init_def ProcessInner_sem_init_def ProcessData_sem_init_def SemaphoreSet_insert_def)
  show "cur_sem d key k = None \<Longrightarrow> sem_wait key c k = Some (Inr (set_rax 1 c, k))"
    by (simp add: run sem_wait_def ProcessInner_sem_wait_def ProcessData_sem_wait_def SemaphoreSet_wait_def)
  show "cur_sem d key k = None \<Longrightarrow> sem_signal key c k = Some (Inr (set_rax 1 c, k))"
    by (simp add: run sem_signal_def ProcessInner_sem_signal_def ProcessData_sem_signal_def SemaphoreSet_signal_def)
qed

lemma sem_dispatch:
  "dispatcher E Q S (lib_new_sem_call key v c) k h = with_heap h (give (lib_new_sem_call key v c) (sem_init key v k))"
  "dispatcher E Q S (lib_sem_wait_call key c) k h = with_heap h (sem_wait key (lib_sem_wait_call key c) k)"
  "dispatcher E Q S (lib_sem_signal_call key c) k h = with_heap h (sem_signal key (lib_sem_signal_call key c) k)"
proof -
  have u: "ucast (ucast key :: usize) = key" by (simp add: ucast_up_ucast_id is_up)
  show "dispatcher E Q S (lib_new_sem_call key v c) k h = with_heap h (give (lib_new_sem_call key v c) (sem_init key v k))"
    "dispatcher E Q S (lib_sem_wait_call key c) k h = with_heap h (sem_wait key (lib_sem_wait_call key c) k)"
    "dispatcher E Q S (lib_sem_signal_call key c) k h = with_heap h (sem_signal key (lib_sem_signal_call key c) k)"
    by (simp_all add: dispatcher_def Let_def SyscallArgs_new_def lib_new_sem_call_def lib_sem_wait_call_def lib_sem_signal_call_def
        syscall3_def syscall2_def Syscall_from_def sys_sem_def u)
qed

text \<open>C22. What a user program learns from the semaphore calls: \<^verbatim>\<open>Semaphore::init\<close> returns true exactly when
  the key was already taken (the kernel returns 1 for success, the library tests for 0); a call on a missing
  key returns false; and a \<^verbatim>\<open>signal\<close> that hands its unit to a blocked process returns false, leaves
  the woken process's registers alone, and so makes its \<^verbatim>\<open>wait\<close>, which was saved with \<^verbatim>\<open>rax = 41\<close>,
  return false as well, although both succeeded.\<close>

theorem semaphore_results_for_user:
  assumes "kernel_inv k" and "k_procs k (cur_pid k) = Some p" and "pi_data p = Some d"
  shows "(\<exists>c' k'. dispatcher E Q S (lib_new_sem_call key v c) k h = Some (Inr (c', k', h)) \<and>
       (lib_sem_ret (ret_of c') \<longleftrightarrow> cur_sem d key k \<noteq> None) \<and> cur_sem d key k' = Some (Semaphore_new v)) \<and>
    (cur_sem d key k = None \<longrightarrow>
       (\<exists>c'. dispatcher E Q S (lib_sem_wait_call key c) k h = Some (Inr (c', k, h)) \<and> \<not> lib_sem_ret (ret_of c')) \<and>
       (\<exists>c'. dispatcher E Q S (lib_sem_signal_call key c) k h = Some (Inr (c', k, h)) \<and> \<not> lib_sem_ret (ret_of c'))) \<and>
    (\<forall>s w ws. cur_sem d key k = Some s \<longrightarrow> sem_wait_queue s = w # ws \<longrightarrow>
       (\<exists>c' k' pw pw'. dispatcher E Q S (lib_sem_signal_call key c) k h = Some (Inr (c', k', h)) \<and> \<not> lib_sem_ret (ret_of c') \<and>
          k_procs k w = Some pw \<and> k_procs k' w = Some pw' \<and> pi_status pw' = Ready \<and> pi_context pw' = pi_context pw \<and>
          (\<forall>cw. pi_context pw = lib_sem_wait_call key cw \<longrightarrow> \<not> lib_sem_ret (ret_of (pi_context pw')))))"
proof -
  have ok: "procs_ok k" and inv: "sched_inv (sched_of k)" using assms(1) by (simp_all add: kernel_inv_def)
  note calls = cur_sem_calls [OF assms]
  have rets: "ret_of (lib_sem_signal_call key c) = 41" "ret_of (lib_sem_wait_call key c) = 41" for c
    by (simp_all add: ret_of_def lib_sem_signal_call_def lib_sem_wait_call_def syscall2_def)
  have 1: "\<exists>c' k'. dispatcher E Q S (lib_new_sem_call key v c) k h = Some (Inr (c', k', h)) \<and>
       (lib_sem_ret (ret_of c') \<longleftrightarrow> cur_sem d key k \<noteq> None) \<and> cur_sem d key k' = Some (Semaphore_new v)"
    by (simp add: sem_dispatch calls(1) give_def with_heap_def lift_def lib_sem_ret_def ret_of_def set_rax_def)
      (simp add: cur_sem_def put_semaphores_def)
  have 3: "\<exists>c' k' pw pw'. dispatcher E Q S (lib_sem_signal_call key c) k h = Some (Inr (c', k', h)) \<and> \<not> lib_sem_ret (ret_of c') \<and>
          k_procs k w = Some pw \<and> k_procs k' w = Some pw' \<and> pi_status pw' = Ready \<and> pi_context pw' = pi_context pw \<and>
          (\<forall>cw. pi_context pw = lib_sem_wait_call key cw \<longrightarrow> \<not> lib_sem_ret (ret_of (pi_context pw')))"
    if s: "cur_sem d key k = Some s" "sem_wait_queue s = w # ws" for s w ws
  proof -
    let ?l = "Unit_of (pd_semaphores d) (SemaphoreId_new key)"
    have "w \<in> set (waiters_at k ?l)" using s by (simp add: waiters_at_cur_sem)
    then have "map_option pi_status (k_procs k w) = Some Blocked"
      using sched_inv_cases(2) [OF inv] unfolding waiting_ok_def by (metis sched_of_simps(3,4))
    then obtain pw where pw: "k_procs k w = Some pw" by auto
    have "\<exists>sh. sem_signal key (lib_sem_signal_call key c) k = Some (Inr (lib_sem_signal_call key c, wake_up w None (k\<lparr>k_shared := sh\<rparr>)))"
      using s by (simp add: sem_signal_def cur_pid_ok [OF ok assms(2)] ProcessInner_sem_signal_def sem_data_of_def assms(3)
          ProcessData_sem_signal_def SemaphoreSet_signal_def Semaphore_signal_def Let_def cur_sem_def lift_def) blast
    with pw show ?thesis
      by (auto simp: sem_dispatch with_heap_def lift_def lib_sem_ret_def rets wake_up_procs pause_def)
  qed
  from 1 3 calls(2,3) show ?thesis
    by (auto simp: sem_dispatch with_heap_def lift_def lib_sem_ret_def ret_of_def set_rax_def)
qed

theorem semaphore_results_for_user_witness:
  "\<exists>c' k'. dispatcher wit_env ref_queue wit_services (lib_new_sem_call 7 1 ProcessContext_default) wit_trio () = Some (Inr (c', k', ())) \<and>
     \<not> lib_sem_ret (ret_of c')"
proof -
  have cur: "k_procs wit_trio (cur_pid wit_trio) = Some (wit_proc Running)" by (simp add: wit_trio_cur)
  have d: "pi_data (wit_proc Running) = Some \<lparr>pd_env = 0, pd_resources = 0, pd_semaphores = 0\<rparr>" by (simp add: wit_proc_def)
  have "cur_sem \<lparr>pd_env = 0, pd_resources = 0, pd_semaphores = 0\<rparr> 7 wit_trio = None"
    by (simp add: cur_sem_def wit_trio_def boot_state_def SemaphoreSet_default_def)
  with semaphore_results_for_user [OF wit_trio_inv cur d, of wit_env ref_queue wit_services 7 1 ProcessContext_default "()"]
  show ?thesis by auto
qed

end
