(* ===== verification/UserLib.thy ===== *)
theory UserLib
  imports Syscall
begin

text \<open>
  The user library (\<^verbatim>\<open>lib/src/io.rs\<close>, \<^verbatim>\<open>lib/src/sync.rs\<close>, \<^verbatim>\<open>lib/src/syscall.rs\<close>): line input on
  standard input, the spin lock, the semaphore handle and the sleep loop. Loops that poll the kernel
  take the list of answers they get; \<^term>\<open>None\<close> means that the answers were used up and the loop is
  still running.
\<close>

section \<open>Line input\<close>

text \<open>The bytes of one successful read: whether the line ended, the line so far, and what was written to
  standard output.\<close>

fun line_bytes :: "rchar list \<Rightarrow> u8 list list \<Rightarrow> u8 list \<Rightarrow> bool \<times> rchar list \<times> u8 list list" where
  "line_bytes line out [] = (False, line, out)"
| "line_bytes line out (ch # chs) =
     (if ch = 0x0D then (True, line, out @ [[0x0A]])
      else if ch = 0x08 \<or> ch = 0x7F then line_bytes (butlast line) (out @ [[0x08, 0x20, 0x08]]) chs
      else line_bytes (line @ [unat ch]) (out @ [[ch]]) chs)"

text \<open>\<^verbatim>\<open>read_line\<close> on the answers of \<^verbatim>\<open>sys_read(0, buf)\<close>; the result also has the answers not used.\<close>

fun read_line :: "rchar list \<Rightarrow> u8 list list \<Rightarrow> u8 list option list \<Rightarrow>
    (rchar list \<times> u8 list list \<times> u8 list option list) option" where
  "read_line line out [] = None"
| "read_line line out (None # reads) = read_line line out reads"
| "read_line line out (Some bs # reads) =
     (let (ended, line', out') = line_bytes line out bs
      in if ended then Some (line', out', reads) else read_line line' out' reads)"

definition Stdin_read_line :: "u8 list option list \<Rightarrow> (rchar list \<times> u8 list list \<times> u8 list option list) option" where
  "Stdin_read_line reads = read_line [] [] reads"

section \<open>Spin lock\<close>

record SpinLock =
  bolt :: bool

definition SpinLock_new :: SpinLock where
  "SpinLock_new = \<lparr>bolt = False\<rparr>"

text \<open>One \<^verbatim>\<open>compare_exchange(false, true)\<close> of \<^verbatim>\<open>acquire\<close>: whether it ends the loop.\<close>

definition acquire_try :: "SpinLock \<Rightarrow> bool \<times> SpinLock" where
  "acquire_try l = (if bolt l then (False, l) else (True, l\<lparr>bolt := True\<rparr>))"

definition release :: "SpinLock \<Rightarrow> SpinLock" where
  "release l = l\<lparr>bolt := False\<rparr>"

section \<open>Semaphore handles\<close>

record USemaphore =
  us_key :: u32

definition USemaphore_new :: "u32 \<Rightarrow> USemaphore" where
  "USemaphore_new key = \<lparr>us_key = key\<rparr>"

definition USemaphore_init :: "USemaphore \<Rightarrow> usize \<Rightarrow> ProcessContext \<Rightarrow> ProcessContext" where
  "USemaphore_init s value = lib_new_sem_call (us_key s) value"

definition USemaphore_remove :: "USemaphore \<Rightarrow> ProcessContext \<Rightarrow> ProcessContext" where
  "USemaphore_remove s = lib_remove_sem_call (us_key s)"

definition USemaphore_wait :: "USemaphore \<Rightarrow> ProcessContext \<Rightarrow> ProcessContext" where
  "USemaphore_wait s = lib_sem_wait_call (us_key s)"

definition USemaphore_signal :: "USemaphore \<Rightarrow> ProcessContext \<Rightarrow> ProcessContext" where
  "USemaphore_signal s = lib_sem_signal_call (us_key s)"

section \<open>Sleeping\<close>

text \<open>\<^verbatim>\<open>Duration\<close>s are milliseconds; \<^verbatim>\<open>saturating_sub\<close> is subtraction of naturals. The list holds the
  results of the successive \<^verbatim>\<open>sys_time\<close> calls.\<close>

fun sleep_loop :: "u64 \<Rightarrow> u64 \<Rightarrow> u64 \<Rightarrow> u64 list \<Rightarrow> u64 list option" where
  "sleep_loop start dur cur ts =
     (if unat cur - unat start < unat dur
      then (case ts of [] \<Rightarrow> None | t # ts' \<Rightarrow> sleep_loop start dur t ts')
      else Some ts)"

declare sleep_loop.simps [simp del]

fun sleep :: "u64 \<Rightarrow> u64 list \<Rightarrow> u64 list option" where
  "sleep millisecs [] = None"
| "sleep millisecs (t # ts) = sleep_loop t millisecs t ts"

section \<open>Facts about line input\<close>

definition plain :: "u8 \<Rightarrow> bool" where
  "plain b \<longleftrightarrow> b \<noteq> 0x0D \<and> b \<noteq> 0x08 \<and> b \<noteq> 0x7F"

lemma line_bytes_plain:
  "list_all plain bs \<Longrightarrow> line_bytes line out bs = (False, line @ map unat bs, out @ map (\<lambda>b. [b]) bs)"
  by (induction bs arbitrary: line out) (auto simp: plain_def)

lemma read_line_plain:
  "\<forall>r \<in> set reads. case r of None \<Rightarrow> True | Some bs \<Rightarrow> list_all plain bs \<Longrightarrow>
   read_line line out (reads @ rest) =
     read_line (line @ concat (map (\<lambda>r. case r of None \<Rightarrow> [] | Some bs \<Rightarrow> map unat bs) reads))
       (out @ concat (map (\<lambda>r. case r of None \<Rightarrow> [] | Some bs \<Rightarrow> map (\<lambda>b. [b]) bs) reads)) rest"
proof (induction reads arbitrary: line out)
  case (Cons r reads)
  then show ?case by (cases r) (simp_all add: line_bytes_plain)
qed simp

lemma encode_utf8_high:
  assumes "scalar_value c" and "0x80 \<le> c" and "b \<in> set (encode_utf8 c)"
  shows "0x80 \<le> unat b"
proof -
  consider "b \<in> set (tl (encode_utf8 c))" | "b = hd (encode_utf8 c)"
    using assms(3) by (cases "encode_utf8 c") auto
  then show ?thesis
  proof cases
    case 1
    then show ?thesis using encode_utf8_tail_cont by (auto simp: cont_def)
  next
    case 2
    have "c div 64 < 32 \<or> 0x800 \<le> c" "c div 4096 < 16 \<or> 0x10000 \<le> c" "c div 262144 < 5"
      using assms(1) by (auto simp: scalar_value_def)
    then obtain n where "b = of_nat (0xC0 + n)" "n < 64"
      using 2 assms(2) that [of "c div 64"] that [of "0x20 + c div 4096"] that [of "0x30 + c div 262144"]
      by (auto simp: encode_utf8_def split: if_splits)
    then show ?thesis using unat_byte [of "0xC0 + n"] by simp
  qed
qed

lemma encode_plain:
  assumes "scalar_value c" and "c \<noteq> 0x0D" and "c \<noteq> 0x08" and "c \<noteq> 0x7F"
  shows "list_all plain (encode_utf8 c)"
proof (cases "c < 0x80")
  case True
  then have "unat (of_nat c :: u8) = c" by (intro unat_byte) simp
  with True assms(2-4) show ?thesis by (auto simp: encode_utf8_def plain_def word_unat_eq_iff)
next
  case False
  then have "0x80 \<le> unat b" if "b \<in> set (encode_utf8 c)" for b using encode_utf8_high [OF assms(1) _ that] by simp
  then show ?thesis by (force simp: list_all_iff plain_def)
qed

lemma latin1_text:
  assumes "\<forall>c \<in> set cs. scalar_value c"
  shows "concat (map (\<lambda>c. map unat (encode_utf8 c)) cs) = cs \<longleftrightarrow> (\<forall>c \<in> set cs. c < 0x80)"
proof
  have one: "length (encode_utf8 c) = 1 \<longleftrightarrow> c < 0x80" for c by (simp add: encode_utf8_def)
  have ge: "length ds \<le> length (concat (map (\<lambda>c. map unat (encode_utf8 c)) ds))" for ds
  proof (induction ds)
    case (Cons d ds)
    then show ?case using length_encode_utf8(1) [of d] by (simp del: length_greater_0_conv)
  qed simp
  have "length (concat (map (\<lambda>c. map unat (encode_utf8 c)) ds)) = length ds \<Longrightarrow> \<forall>c \<in> set ds. c < 0x80" for ds
  proof (induction ds)
    case (Cons d ds)
    then have "length (encode_utf8 d) = 1" "length (concat (map (\<lambda>c. map unat (encode_utf8 c)) ds)) = length ds"
      using length_encode_utf8(1) [of d] ge [of ds] by (simp_all del: length_greater_0_conv)
    with Cons.IH one show ?case by simp
  qed simp
  then show "concat (map (\<lambda>c. map unat (encode_utf8 c)) cs) = cs \<Longrightarrow> \<forall>c \<in> set cs. c < 0x80" by metis
  show "\<forall>c \<in> set cs. c < 0x80 \<Longrightarrow> concat (map (\<lambda>c. map unat (encode_utf8 c)) cs) = cs"
    by (induction cs) (simp_all add: encode_utf8_def unat_byte)
qed

section \<open>Facts about sleeping\<close>

text \<open>A time of day as the firmware reports it.\<close>

definition clock_ok :: "efi_time \<Rightarrow> bool" where
  "clock_ok t \<longleftrightarrow> hour t < 24 \<and> minute t < 60 \<and> second t < 60 \<and> nanosecond t < 1000000000"

lemma sys_time_eq:
  assumes "get_time S = Some t" and "clock_ok t"
  obtains v where "sys_time S = Inr v"
    and "unat v = (unat (hour t) * 3600 + unat (minute t) * 60 + unat (second t)) * 1000 + unat (nanosecond t) div 1000000"
proof -
  have b: "unat (hour t) < 24" "unat (minute t) < 60" "unat (second t) < 60" "unat (nanosecond t) < 1000000000"
    using assms(2) by (simp_all add: clock_ok_def word_less_nat_alt)
  let ?v = "(ucast (hour t) * 3600 + ucast (minute t) * 60 + ucast (second t)) * 1000 + ucast (nanosecond t div 1000000) :: u64"
  have u: "unat (ucast (hour t) :: u64) = unat (hour t)" "unat (ucast (minute t) :: u64) = unat (minute t)"
      "unat (ucast (second t) :: u64) = unat (second t)"
      "unat (ucast (nanosecond t div 1000000) :: u64) = unat (nanosecond t) div 1000000"
    by (simp_all add: unat_ucast_u8 unat_ucast_u32 unat_div)
  have "unat ?v = (unat (hour t) * 3600 + unat (minute t) * 60 + unat (second t)) * 1000 + unat (nanosecond t) div 1000000"
    using b by (simp add: unat_word_ariths u)
  moreover have "sys_time S = Inr ?v" using assms(1) by (simp add: sys_time_def Let_def)
  ultimately show thesis using that by blast
qed

lemma sys_time_day:
  assumes "get_time S = Some t" and "clock_ok t" and "sys_time S = Inr v"
  shows "unat v < 86400000"
proof -
  have b: "unat (hour t) < 24" "unat (minute t) < 60" "unat (second t) < 60" "unat (nanosecond t) div 1000000 < 1000"
    using assms(2) by (auto simp: clock_ok_def word_less_nat_alt)
  obtain v' where "sys_time S = Inr v'"
    "unat v' = (unat (hour t) * 3600 + unat (minute t) * 60 + unat (second t)) * 1000 + unat (nanosecond t) div 1000000"
    by (rule sys_time_eq [OF assms(1,2)])
  with assms(3) b show ?thesis by simp
qed

lemma sleep_loop_stuck:
  "\<forall>t \<in> set (cur # ts). unat t - unat start < unat dur \<Longrightarrow> sleep_loop start dur cur ts = None"
  by (induction ts arbitrary: cur) (subst sleep_loop.simps, simp)+

lemma sleep_loop_first:
  "\<forall>t \<in> set (cur # ts). unat t - unat start < unat dur \<Longrightarrow> unat dur \<le> unat t' - unat start \<Longrightarrow>
   sleep_loop start dur cur (ts @ t' # rest) = Some rest"
proof (induction ts arbitrary: cur)
  case Nil
  then show ?case by (subst sleep_loop.simps) (simp add: sleep_loop.simps [of start dur t'])
next
  case (Cons t ts)
  then show ?case by (subst sleep_loop.simps) simp
qed

section \<open>Spin lock runs\<close>

text \<open>Threads that use one lock: a thread outside the critical section makes one attempt to acquire the
  lock, a thread inside releases it.\<close>

record lock_sys =
  ls_lock :: SpinLock
  ls_inside :: "nat set"

inductive lock_step :: "lock_sys \<Rightarrow> lock_sys \<Rightarrow> bool" where
  Try: "i \<notin> ls_inside s \<Longrightarrow> acquire_try (ls_lock s) = (ok, l) \<Longrightarrow>
    lock_step s \<lparr>ls_lock = l, ls_inside = (if ok then insert i (ls_inside s) else ls_inside s)\<rparr>"
| Leave: "i \<in> ls_inside s \<Longrightarrow> lock_step s \<lparr>ls_lock = release (ls_lock s), ls_inside = ls_inside s - {i}\<rparr>"

inductive lock_reachable :: "lock_sys \<Rightarrow> bool" where
  Start: "lock_reachable \<lparr>ls_lock = SpinLock_new, ls_inside = {}\<rparr>"
| Next: "lock_reachable s \<Longrightarrow> lock_step s s' \<Longrightarrow> lock_reachable s'"

lemma lock_reachable_inv:
  "lock_reachable s \<Longrightarrow> (\<not> bolt (ls_lock s) \<longrightarrow> ls_inside s = {}) \<and> (bolt (ls_lock s) \<longrightarrow> (\<exists>i. ls_inside s = {i}))"
proof (induction rule: lock_reachable.induct)
  case Start
  then show ?case by (simp add: SpinLock_new_def)
next
  case (Next s s')
  from Next.hyps(2) Next.IH show ?case
    by (cases rule: lock_step.cases) (auto simp: acquire_try_def release_def split: if_splits)
qed

section \<open>Properties\<close>

text \<open>C24. \<^verbatim>\<open>read_line\<close> on typed text: when the reads of standard input deliver the characters of some text
  without line-editing characters, one character per read with any number of empty reads after it, and then
  a carriage return, the call returns with every byte echoed; the returned line consists of the single UTF-8
  bytes taken as characters, so it is the typed text exactly when the text is ASCII.\<close>

theorem read_line_text:
  assumes "\<forall>c \<in> set cs. scalar_value c \<and> c \<noteq> 0x0D \<and> c \<noteq> 0x08 \<and> c \<noteq> 0x7F"
  shows "Stdin_read_line (concat (map (\<lambda>c. Some (encode_utf8 c) # replicate (idle c) (Some [])) cs) @ Some [0x0D] # rest) =
      Some (concat (map (\<lambda>c. map unat (encode_utf8 c)) cs),
            map (\<lambda>b. [b]) (concat (map encode_utf8 cs)) @ [[0x0A]], rest) \<and>
    (concat (map (\<lambda>c. map unat (encode_utf8 c)) cs) = cs \<longleftrightarrow> (\<forall>c \<in> set cs. c < 0x80))"
proof
  let ?reads = "concat (map (\<lambda>c. Some (encode_utf8 c) # replicate (idle c) (Some [])) cs)"
  have plain: "\<forall>r \<in> set ?reads. case r of None \<Rightarrow> True | Some bs \<Rightarrow> list_all plain bs"
    using assms encode_plain by auto
  have rep: "concat (map (\<lambda>r. case r of None \<Rightarrow> [] | Some bs \<Rightarrow> f bs) (replicate n (Some []))) = []"
    if "f [] = []" for f :: "u8 list \<Rightarrow> 'z list" and n
    using that by (induction n) auto
  have line: "concat (map (\<lambda>r. case r of None \<Rightarrow> [] | Some bs \<Rightarrow> map unat bs) ?reads) = concat (map (\<lambda>c. map unat (encode_utf8 c)) cs)"
    by (induction cs) (simp_all add: rep)
  have out: "concat (map (\<lambda>r. case r of None \<Rightarrow> [] | Some bs \<Rightarrow> map (\<lambda>b. [b]) bs) ?reads) = map (\<lambda>b. [b]) (concat (map encode_utf8 cs))"
    by (induction cs) (simp_all add: rep)
  show "Stdin_read_line (?reads @ Some [0x0D] # rest) = Some (concat (map (\<lambda>c. map unat (encode_utf8 c)) cs),
            map (\<lambda>b. [b]) (concat (map encode_utf8 cs)) @ [[0x0A]], rest)"
    unfolding Stdin_read_line_def read_line_plain [OF plain] line out by simp
  show "concat (map (\<lambda>c. map unat (encode_utf8 c)) cs) = cs \<longleftrightarrow> (\<forall>c \<in> set cs. c < 0x80)"
    using assms by (intro latin1_text) simp
qed

theorem read_line_text_witness:
  "Stdin_read_line [Some [0xC3, 0xA9], Some [0x0D]] = Some ([0xC3, 0xA9], [[0xC3], [0xA9], [0x0A]], [])"
proof -
  have "\<forall>c \<in> set [0xE9]. scalar_value c \<and> c \<noteq> 0x0D \<and> c \<noteq> 0x08 \<and> c \<noteq> 0x7F" by (simp add: scalar_value_def)
  from read_line_text [OF this, of "\<lambda>_. 0" "[]"] show ?thesis by (simp add: encode_utf8_def)
qed

text \<open>C23. \<^verbatim>\<open>sleep\<close> returns at the first reading of the clock that is at least \<open>ms\<close> milliseconds after its
  first one; but the clock of \<^verbatim>\<open>sys_time\<close> is the time of day, so a sleep that starts less than \<open>ms\<close>
  milliseconds before midnight never returns, however often it reads the clock.\<close>

theorem sleep_and_midnight:
  "(\<forall>ts t rest. (\<forall>u \<in> set ts. unat u - unat t0 < unat ms) \<longrightarrow> 0 < unat ms \<longrightarrow> unat t0 + unat ms \<le> unat t \<longrightarrow>
      sleep ms (t0 # ts @ t # rest) = Some rest) \<and>
   (\<forall>ts. (\<forall>u \<in> set (t0 # ts). \<exists>S e. get_time S = Some e \<and> clock_ok e \<and> sys_time (S :: ('m, 'a, 'h) services) = Inr u) \<longrightarrow>
      86400000 \<le> unat t0 + unat ms \<longrightarrow> sleep ms (t0 # ts) = None)"
proof (intro conjI allI impI)
  fix ts rest :: "u64 list" and t :: u64
  assume "\<forall>u \<in> set ts. unat u - unat t0 < unat ms" "0 < unat ms" "unat t0 + unat ms \<le> unat t"
  then have "\<forall>u \<in> set (t0 # ts). unat u - unat t0 < unat ms" "unat ms \<le> unat t - unat t0" by auto
  then show "sleep ms (t0 # ts @ t # rest) = Some rest" by (simp add: sleep_loop_first)
next
  fix ts :: "u64 list"
  assume r: "\<forall>u \<in> set (t0 # ts). \<exists>S e. get_time S = Some e \<and> clock_ok e \<and> sys_time (S :: ('m, 'a, 'h) services) = Inr u"
    and late: "86400000 \<le> unat t0 + unat ms"
  have day: "unat u < 86400000" if "u \<in> set (t0 # ts)" for u
    using r that sys_time_day by blast
  have "\<forall>u \<in> set (t0 # ts). unat u - unat t0 < unat ms"
  proof
    fix u assume "u \<in> set (t0 # ts)"
    from day [OF this] day [of t0] late show "unat u - unat t0 < unat ms" by simp
  qed
  then show "sleep ms (t0 # ts) = None" by (simp add: sleep_loop_stuck)
qed

theorem sleep_and_midnight_witness:
  "sleep 2000 [86399000, 86399000, 0, 43200000] = None"
proof -
  let ?T = "\<lambda>h m s. (wit_services :: (unit, unit, unit) services)\<lparr>get_time := Some \<lparr>hour = h, minute = m, second = s, nanosecond = 0\<rparr>\<rparr>"
  have "sys_time (?T 23 59 59) = Inr 86399000" "sys_time (?T 0 0 0) = Inr 0" "sys_time (?T 12 0 0) = Inr 43200000"
    by (simp_all add: sys_time_def Let_def)
  moreover have "clock_ok \<lparr>hour = 23, minute = 59, second = 59, nanosecond = 0\<rparr>"
    "clock_ok \<lparr>hour = 0, minute = 0, second = 0, nanosecond = 0\<rparr>" "clock_ok \<lparr>hour = 12, minute = 0, second = 0, nanosecond = 0\<rparr>"
    by (simp_all add: clock_ok_def)
  moreover have "get_time (?T h m s) = Some \<lparr>hour = h, minute = m, second = s, nanosecond = 0\<rparr>" for h m s by simp
  ultimately have "\<forall>u \<in> set (86399000 # [86399000, 0, 43200000]).
      \<exists>S e. get_time S = Some e \<and> clock_ok e \<and> sys_time (S :: (unit, unit, unit) services) = Inr u"
    by (metis empty_iff empty_set set_ConsD)
  with sleep_and_midnight [where 'm = unit and 'a = unit and 'h = unit, of 86399000 2000] show ?thesis by simp
qed

text \<open>The spin lock excludes: in every interleaving of attempts and releases at most one thread is in
  the critical section, and the bolt is set exactly while some thread is.\<close>

theorem spinlock_mutual_exclusion:
  assumes "lock_reachable s"
  shows "(\<forall>i j. i \<in> ls_inside s \<longrightarrow> j \<in> ls_inside s \<longrightarrow> i = j) \<and> (bolt (ls_lock s) \<longleftrightarrow> ls_inside s \<noteq> {})"
  using lock_reachable_inv [OF assms] by (cases "bolt (ls_lock s)") auto

theorem spinlock_mutual_exclusion_witness:
  "lock_reachable \<lparr>ls_lock = \<lparr>bolt = True\<rparr>, ls_inside = {3}\<rparr> \<and> bolt \<lparr>bolt = True\<rparr>"
proof -
  have "lock_step \<lparr>ls_lock = SpinLock_new, ls_inside = {}\<rparr> \<lparr>ls_lock = \<lparr>bolt = True\<rparr>, ls_inside = {3}\<rparr>"
    using lock_step.Try [of 3 "\<lparr>ls_lock = SpinLock_new, ls_inside = {}\<rparr>" True "\<lparr>bolt = True\<rparr>"]
    by (simp add: acquire_try_def SpinLock_new_def)
  then have "lock_reachable \<lparr>ls_lock = \<lparr>bolt = True\<rparr>, ls_inside = {3}\<rparr>" by (rule lock_reachable.Next [OF lock_reachable.Start])
  with spinlock_mutual_exclusion [OF this] show ?thesis by simp
qed

end
