(* ===== verification/Threads.thy ===== *)
theory Threads
  imports Sync
begin

text \<open>
  Forked processes that share a semaphore set and memory, as the multi-process applications use them.
  Each thread is a list of semaphore calls and application actions; a step runs the next operation of one
  thread against the kernel's semaphore set, whose answers decide who is blocked. The return values of
  the semaphore calls are not looked at, as in the applications.
\<close>

section \<open>Groups of threads\<close>

datatype 'a op = Wait_on u32 | Signal_on u32 | Act 'a

record ('a, 'm, 'l) group =
  g_sems :: SemaphoreSet
  g_mem :: 'm
  g_local :: "ProcessId \<Rightarrow> 'l"
  g_prog :: "ProcessId \<Rightarrow> 'a op list"
  g_blocked :: "ProcessId set"

definition thread_step :: "('a \<Rightarrow> 'm \<Rightarrow> 'l \<Rightarrow> 'm \<times> 'l) \<Rightarrow> ProcessId \<Rightarrow> ('a, 'm, 'l) group \<Rightarrow> ('a, 'm, 'l) group option" where
  "thread_step act i s =
     (if i \<in> g_blocked s then None
      else case g_prog s i of
             [] \<Rightarrow> None
           | Wait_on key # ops \<Rightarrow>
               (let (r, ss) = SemaphoreSet_wait (g_sems s) key i
                in Some (s\<lparr>g_sems := ss, g_prog := (g_prog s)(i := ops),
                           g_blocked := (case r of Block p \<Rightarrow> insert p (g_blocked s) | _ \<Rightarrow> g_blocked s)\<rparr>))
           | Signal_on key # ops \<Rightarrow>
               (let (r, ss) = SemaphoreSet_signal (g_sems s) key
                in Some (s\<lparr>g_sems := ss, g_prog := (g_prog s)(i := ops),
                           g_blocked := (case r of WakeUp p \<Rightarrow> g_blocked s - {p} | _ \<Rightarrow> g_blocked s)\<rparr>))
           | Act a # ops \<Rightarrow>
               (let (m, l) = act a (g_mem s) (g_local s i)
                in Some (s\<lparr>g_mem := m, g_local := (g_local s)(i := l), g_prog := (g_prog s)(i := ops)\<rparr>)))"

text \<open>A schedule names the thread that gets the next turn; a turn of a blocked or finished thread is
  void.\<close>

fun run_group :: "('a \<Rightarrow> 'm \<Rightarrow> 'l \<Rightarrow> 'm \<times> 'l) \<Rightarrow> ProcessId list \<Rightarrow> ('a, 'm, 'l) group \<Rightarrow> ('a, 'm, 'l) group" where
  "run_group act [] s = s"
| "run_group act (i # is) s =
     (case thread_step act i s of None \<Rightarrow> run_group act is s | Some s' \<Rightarrow> run_group act is s')"

lemma run_group_inv:
  assumes "P s" and "\<And>i s s'. P s \<Longrightarrow> thread_step act i s = Some s' \<Longrightarrow> P s'"
  shows "P (run_group act is s)"
  using assms(1) by (induction "is" arbitrary: s) (auto split: option.splits intro: assms(2))

lemma run_group_append: "run_group act (is @ js) s = run_group act js (run_group act is s)"
  by (induction "is" arbitrary: s) (auto split: option.splits)

text \<open>Every step consumes one operation of one thread.\<close>

lemma thread_step_mem:
  assumes "thread_step act i s = Some s'"
  shows "\<exists>op ops. g_prog s i = op # ops \<and> g_prog s' = (g_prog s)(i := ops) \<and>
    g_mem s' = (case op of Act a \<Rightarrow> fst (act a (g_mem s) (g_local s i)) | _ \<Rightarrow> g_mem s)"
  using assms by (auto simp: thread_step_def Let_def split: if_splits list.splits op.splits prod.splits)

lemma thread_step_shorter:
  assumes "thread_step act i s = Some s'" and "finite T" and "i \<in> T"
  shows "(\<Sum>j\<in>T. length (g_prog s' j)) < (\<Sum>j\<in>T. length (g_prog s j))"
proof -
  obtain op ops where "g_prog s i = op # ops" "g_prog s' = (g_prog s)(i := ops)" using thread_step_mem [OF assms(1)] by auto
  then show ?thesis by (intro sum_strict_mono_ex1 [OF assms(2)]) (use assms(3) in auto)
qed

section \<open>The semaphore balance\<close>

text \<open>What a thread still owes a semaphore: its remaining signals less its remaining waits.\<close>

definition owes :: "u32 \<Rightarrow> 'a op list \<Rightarrow> int" where
  "owes k ops = int (count_list ops (Signal_on k)) - int (count_list ops (Wait_on k))"

definition sem_of :: "('a, 'm, 'l) group \<Rightarrow> u32 \<Rightarrow> Semaphore option" where
  "sem_of s k = sems (g_sems s) (SemaphoreId_new k)"

lemma owes_simps [simp]:
  "owes k [] = 0" "owes k (Act a # ops) = owes k ops"
  "owes k (Wait_on j # ops) = owes k ops - of_bool (j = k)"
  "owes k (Signal_on j # ops) = owes k ops + of_bool (j = k)"
  by (simp_all add: owes_def)

lemma owes_append [simp]: "owes k (a @ b) = owes k a + owes k b"
  by (simp add: owes_def)

text \<open>The balance of semaphore \<open>k\<close> over the threads \<open>T\<close>: units in the count and units held make up the
  initial value \<open>v\<close>, where every queued thread has already passed its wait.\<close>

definition sem_balance :: "ProcessId set \<Rightarrow> int \<Rightarrow> nat \<Rightarrow> ('a, 'm, 'l) group \<Rightarrow> u32 \<Rightarrow> bool" where
  "sem_balance T v B s k \<longleftrightarrow>
     (\<exists>sem. sem_of s k = Some sem \<and>
        int (unat (sem_count sem)) + (\<Sum>i\<in>T. owes k (g_prog s i)) = v + int (length (sem_wait_queue sem)) \<and>
        (sem_wait_queue sem \<noteq> [] \<longrightarrow> sem_count sem = 0) \<and> distinct (sem_wait_queue sem) \<and>
        set (sem_wait_queue sem) \<subseteq> g_blocked s \<and>
        unat (sem_count sem) + (\<Sum>i\<in>T. count_list (g_prog s i) (Signal_on k)) \<le> B)"

definition group_inv :: "ProcessId set \<Rightarrow> (u32 \<rightharpoonup> int) \<Rightarrow> nat \<Rightarrow> ('a, 'm, 'l) group \<Rightarrow> bool" where
  "group_inv T V B s \<longleftrightarrow>
     finite T \<and> B < 2 ^ 64 \<and> g_blocked s \<subseteq> T \<and> (\<forall>i. i \<notin> T \<longrightarrow> g_prog s i = []) \<and>
     (\<forall>i k. Wait_on k \<in> set (g_prog s i) \<or> Signal_on k \<in> set (g_prog s i) \<longrightarrow> k \<in> dom V) \<and>
     (\<forall>k v. V k = Some v \<longrightarrow> sem_balance T v B s k) \<and>
     (\<forall>p \<in> g_blocked s. \<exists>k \<in> dom V. \<exists>sem. sem_of s k = Some sem \<and> p \<in> set (sem_wait_queue sem)) \<and>
     (\<forall>k \<in> dom V. \<forall>k' \<in> dom V. \<forall>sem sem'. sem_of s k = Some sem \<longrightarrow> sem_of s k' = Some sem' \<longrightarrow> k \<noteq> k' \<longrightarrow>
        set (sem_wait_queue sem) \<inter> set (sem_wait_queue sem') = {})"

lemma sem_id_inj [simp]: "SemaphoreId_new a = SemaphoreId_new b \<longleftrightarrow> a = b"
  by (simp add: SemaphoreId_new_def)

lemma sum_change:
  fixes f :: "'i \<Rightarrow> 'z::ab_group_add"
  assumes "finite T" and "i \<in> T" and "\<And>j. j \<noteq> i \<Longrightarrow> g j = f j"
  shows "sum g T = sum f T + (g i - f i)"
proof -
  have "sum g T = g i + sum g (T - {i})" "sum f T = f i + sum f (T - {i})" using assms(1,2) by (simp_all add: sum.remove)
  moreover have "sum g (T - {i}) = sum f (T - {i})" using assms(3) by (intro sum.cong) auto
  ultimately show ?thesis by simp
qed

lemma sum_change_nat:
  fixes f :: "'i \<Rightarrow> nat"
  assumes "finite T" and "i \<in> T" and "\<And>j. j \<noteq> i \<Longrightarrow> g j = f j" and "f i = g i + n"
  shows "sum f T = sum g T + n"
proof -
  have "sum g T = g i + sum g (T - {i})" "sum f T = f i + sum f (T - {i})" using assms(1,2) by (simp_all add: sum.remove)
  moreover have "sum g (T - {i}) = sum f (T - {i})" using assms(3) by (intro sum.cong) auto
  ultimately show ?thesis using assms(4) by simp
qed

lemma sem_balance_other:
  assumes "sem_balance T v B s k" and "sem_of s' k = sem_of s k" and "g_prog s' = (g_prog s)(i := ops)"
    and "owes k ops = owes k (g_prog s i)" and "count_list ops (Signal_on k) = count_list (g_prog s i) (Signal_on k)"
    and "\<And>sem. sem_of s k = Some sem \<Longrightarrow> set (sem_wait_queue sem) \<subseteq> g_blocked s \<Longrightarrow> set (sem_wait_queue sem) \<subseteq> g_blocked s'"
  shows "sem_balance T v B s' k"
proof -
  have "(\<Sum>j\<in>T. owes k (g_prog s' j)) = (\<Sum>j\<in>T. owes k (g_prog s j))"
    "(\<Sum>j\<in>T. count_list (g_prog s' j) (Signal_on k)) = (\<Sum>j\<in>T. count_list (g_prog s j) (Signal_on k))"
    using assms(3-5) by (auto intro!: sum.cong)
  with assms(1,2,6) show ?thesis unfolding sem_balance_def by metis
qed

text \<open>The semaphore that a step touches: the call \<open>op\<close> of thread \<open>i\<close> on semaphore \<open>k\<close>.\<close>

definition sem_effect :: "ProcessId \<Rightarrow> 'a op \<Rightarrow> u32 \<Rightarrow> Semaphore \<Rightarrow> Semaphore \<Rightarrow> ProcessId set \<Rightarrow> ProcessId set \<Rightarrow> bool" where
  "sem_effect i op k sem sem' b b' \<longleftrightarrow>
     (if op = Wait_on k
      then if sem_count sem = 0 then sem' = sem\<lparr>sem_wait_queue := sem_wait_queue sem @ [i]\<rparr> \<and> i \<notin> b \<and> b' = insert i b
           else sem' = sem\<lparr>sem_count := sem_count sem - 1\<rparr> \<and> b' = b
      else op = Signal_on k \<and>
        (case sem_wait_queue sem of
           [] \<Rightarrow> sem' = sem\<lparr>sem_count := sem_count sem + 1\<rparr> \<and> b' = b
         | p # ps \<Rightarrow> sem' = sem\<lparr>sem_wait_queue := ps\<rparr> \<and> b' = b - {p}))"

lemma sem_effect_cases:
  assumes "sem_effect i op k sem sem' b b'"
  obtains (blocks) "op = Wait_on k" "sem_count sem = 0" "sem' = sem\<lparr>sem_wait_queue := sem_wait_queue sem @ [i]\<rparr>" "i \<notin> b" "b' = insert i b"
  | (takes) "op = Wait_on k" "sem_count sem \<noteq> 0" "sem' = sem\<lparr>sem_count := sem_count sem - 1\<rparr>" "b' = b"
  | (wakes) p ps where "op = Signal_on k" "sem_wait_queue sem = p # ps" "sem' = sem\<lparr>sem_wait_queue := ps\<rparr>" "b' = b - {p}"
  | (puts) "op = Signal_on k" "sem_wait_queue sem = []" "sem' = sem\<lparr>sem_count := sem_count sem + 1\<rparr>" "b' = b"
proof (cases "op = Wait_on k")
  case True
  with assms show thesis by (cases "sem_count sem = 0") (simp_all add: sem_effect_def blocks takes)
next
  case False
  with assms show thesis by (cases "sem_wait_queue sem") (simp_all add: sem_effect_def wakes puts)
qed

lemma sem_effect_queue:
  assumes "sem_effect i op k sem sem' b b'" and "distinct (sem_wait_queue sem)"
  shows "set (sem_wait_queue sem') \<subseteq> insert i (set (sem_wait_queue sem))"
    "x \<in> b \<Longrightarrow> x \<notin> b' \<Longrightarrow> x \<in> set (sem_wait_queue sem)"
    "x \<in> b' \<Longrightarrow> x \<in> b \<and> (x \<in> set (sem_wait_queue sem) \<longrightarrow> x \<in> set (sem_wait_queue sem')) \<or> x = i \<and> x \<in> set (sem_wait_queue sem')"
  using assms(2) by (cases rule: sem_effect_cases [OF assms(1)]; auto)+

lemma sem_balance_touched:
  assumes b: "sem_balance T v B s k" and T: "finite T" "i \<in> T" and B: "B < 2 ^ 64"
    and prog: "g_prog s i = op # ops" "g_prog s' = (g_prog s)(i := ops)"
    and sem: "sem_of s k = Some sem" "sem_of s' k = Some sem'"
    and eff: "sem_effect i op k sem sem' (g_blocked s) (g_blocked s')"
  shows "sem_balance T v B s' k"
proof -
  from b sem(1) have old: "int (unat (sem_count sem)) + (\<Sum>j\<in>T. owes k (g_prog s j)) = v + int (length (sem_wait_queue sem))"
      "sem_wait_queue sem \<noteq> [] \<longrightarrow> sem_count sem = 0" "distinct (sem_wait_queue sem)" "set (sem_wait_queue sem) \<subseteq> g_blocked s"
      "unat (sem_count sem) + (\<Sum>j\<in>T. count_list (g_prog s j) (Signal_on k)) \<le> B"
    by (auto simp: sem_balance_def simp del: of_nat_unat)
  have ow: "(\<Sum>j\<in>T. owes k (g_prog s' j)) = (\<Sum>j\<in>T. owes k (g_prog s j)) + (owes k ops - owes k (op # ops))"
    using sum_change [OF T, of "\<lambda>j. owes k (g_prog s' j)" "\<lambda>j. owes k (g_prog s j)"] prog by simp
  have cs: "(\<Sum>j\<in>T. count_list (g_prog s j) (Signal_on k)) = (\<Sum>j\<in>T. count_list (g_prog s' j) (Signal_on k)) + of_bool (op = Signal_on k)"
    by (rule sum_change_nat [OF T]) (use prog in auto)
  from eff show ?thesis
  proof (cases rule: sem_effect_cases)
    case blocks
    then have "i \<notin> set (sem_wait_queue sem)" using old(4) by auto
    with blocks old ow cs sem(2) show ?thesis by (auto simp: sem_balance_def simp del: of_nat_unat)
  next
    case takes
    then have "unat (sem_count sem - 1) = unat (sem_count sem) - 1" "0 < unat (sem_count sem)"
      by (simp_all add: unat_pred unat_gt_0)
    with takes old ow cs sem(2) show ?thesis by (auto simp: sem_balance_def simp del: of_nat_unat)
  next
    case (wakes p ps)
    then show ?thesis using old ow cs sem(2) by (auto simp: sem_balance_def simp del: of_nat_unat)
  next
    case puts
    then have "Suc (unat (sem_count sem)) < 2 ^ 64" using old(5) cs B by simp
    then have "unat (sem_count sem + 1) = Suc (unat (sem_count sem))" using unat_Suc_no_overflow [of "sem_count sem"] by simp
    with puts old ow cs sem(2) show ?thesis by (auto simp: sem_balance_def simp del: of_nat_unat)
  qed
qed

text \<open>What one step does to the semaphores.\<close>

lemma sem_of_upd: "sem_of (s\<lparr>g_sems := ss\<lparr>sems := m\<rparr>, g_prog := q, g_blocked := b\<rparr>) k = m (SemaphoreId_new k)"
  by (simp add: sem_of_def)

lemma thread_step_cases [consumes 2, case_names Act Sem]:
  assumes "thread_step act i s = Some s'" and "\<forall>k. Wait_on k \<in> set (g_prog s i) \<or> Signal_on k \<in> set (g_prog s i) \<longrightarrow> sem_of s k \<noteq> None"
  obtains (Act) a ops where "i \<notin> g_blocked s" "g_prog s i = Act a # ops" "g_sems s' = g_sems s" "g_blocked s' = g_blocked s"
      "g_prog s' = (g_prog s)(i := ops)" "(g_mem s', g_local s' i) = act a (g_mem s) (g_local s i)" "\<And>j. j \<noteq> i \<Longrightarrow> g_local s' j = g_local s j"
  | (Sem) op ops k sem sem' where "i \<notin> g_blocked s" "g_prog s i = op # ops" "g_prog s' = (g_prog s)(i := ops)"
      "g_mem s' = g_mem s" "g_local s' = g_local s" "op = Wait_on k \<or> op = Signal_on k"
      "sem_of s k = Some sem" "sem_of s' k = Some sem'" "\<And>j. j \<noteq> k \<Longrightarrow> sem_of s' j = sem_of s j"
      "sem_effect i op k sem sem' (g_blocked s) (g_blocked s')"
proof -
  have nb: "i \<notin> g_blocked s" using assms(1) by (auto simp: thread_step_def split: if_splits)
  obtain op ops where p: "g_prog s i = op # ops" using assms(1) by (auto simp: thread_step_def split: if_splits list.splits)
  show thesis
  proof (cases op)
    case (Act a)
    with assms(1) nb p show thesis by (intro that(1)) (auto simp: thread_step_def split: prod.splits)
  next
    case (Wait_on k)
    then obtain sem where sem: "sem_of s k = Some sem" using assms(2) p by fastforce
    show thesis
    proof (cases "sem_count sem = 0")
      case True
      with sem assms(1) nb p Wait_on show thesis
        by (intro that(2) [of op ops k sem "sem\<lparr>sem_wait_queue := sem_wait_queue sem @ [i]\<rparr>"])
          (auto simp: thread_step_def SemaphoreSet_wait_def Semaphore_wait_def sem_of_def sem_effect_def)
    next
      case False
      with sem assms(1) nb p Wait_on show thesis
        by (intro that(2) [of op ops k sem "sem\<lparr>sem_count := sem_count sem - 1\<rparr>"])
          (auto simp: thread_step_def SemaphoreSet_wait_def Semaphore_wait_def sem_of_def sem_effect_def)
    qed
  next
    case (Signal_on k)
    then obtain sem where sem: "sem_of s k = Some sem" using assms(2) p by fastforce
    show thesis
    proof (cases "sem_wait_queue sem")
      case Nil
      with sem assms(1) nb p Signal_on show thesis
        by (intro that(2) [of op ops k sem "sem\<lparr>sem_count := sem_count sem + 1\<rparr>"])
          (auto simp: thread_step_def SemaphoreSet_signal_def Semaphore_signal_def sem_of_def sem_effect_def)
    next
      case (Cons q qs)
      with sem assms(1) nb p Signal_on show thesis
        by (intro that(2) [of op ops k sem "sem\<lparr>sem_wait_queue := qs\<rparr>"])
          (auto simp: thread_step_def SemaphoreSet_signal_def Semaphore_signal_def sem_of_def sem_effect_def)
    qed
  qed
qed

lemma group_invD:
  assumes "group_inv T V B s"
  shows "finite T" "B < 2 ^ 64" "g_blocked s \<subseteq> T" "\<And>i. i \<notin> T \<Longrightarrow> g_prog s i = []"
    "\<And>i k. Wait_on k \<in> set (g_prog s i) \<or> Signal_on k \<in> set (g_prog s i) \<Longrightarrow> k \<in> dom V"
    "\<And>k v. V k = Some v \<Longrightarrow> sem_balance T v B s k"
    "\<And>p. p \<in> g_blocked s \<Longrightarrow> \<exists>k \<in> dom V. \<exists>sem. sem_of s k = Some sem \<and> p \<in> set (sem_wait_queue sem)"
    "\<And>k k' sem sem'. k \<in> dom V \<Longrightarrow> k' \<in> dom V \<Longrightarrow> sem_of s k = Some sem \<Longrightarrow> sem_of s k' = Some sem' \<Longrightarrow> k \<noteq> k' \<Longrightarrow>
        set (sem_wait_queue sem) \<inter> set (sem_wait_queue sem') = {}"
  using assms unfolding group_inv_def by (simp_all, blast)

lemma group_inv_sem: "group_inv T V B s \<Longrightarrow> k \<in> dom V \<Longrightarrow> sem_of s k \<noteq> None"
  using group_invD(6) [of T V B s k "the (V k)"] by (auto simp: sem_balance_def)

lemma group_inv_touched:
  assumes "group_inv T V B s"
  shows "\<forall>k. Wait_on k \<in> set (g_prog s i) \<or> Signal_on k \<in> set (g_prog s i) \<longrightarrow> sem_of s k \<noteq> None"
  by (intro allI impI group_inv_sem [OF assms group_invD(5) [OF assms]])

lemma group_inv_queue:
  assumes "group_inv T V B s" and "k \<in> dom V" and "sem_of s k = Some sem"
  shows "set (sem_wait_queue sem) \<subseteq> g_blocked s" "distinct (sem_wait_queue sem)"
  using group_invD(6) [OF assms(1), of k "the (V k)"] assms(2,3) by (auto simp: sem_balance_def)

text \<open>The waiting queues stay apart when one of them gains at most the stepping thread.\<close>

lemma queues_stay_apart:
  assumes inv: "group_inv T V B s" and "i \<notin> g_blocked s" and "k \<in> dom V" and "sem_of s k = Some sem" and "sem_of s' k = Some sem'"
    and "\<And>j. j \<noteq> k \<Longrightarrow> sem_of s' j = sem_of s j" and "set (sem_wait_queue sem') \<subseteq> insert i (set (sem_wait_queue sem))"
    and "j \<in> dom V" and "j' \<in> dom V" and "sem_of s' j = Some a" and "sem_of s' j' = Some b" and "j \<noteq> j'"
  shows "set (sem_wait_queue a) \<inter> set (sem_wait_queue b) = {}"
proof -
  note D = group_invD [OF inv]
  have old: "set (sem_wait_queue sem') \<inter> set (sem_wait_queue c) = {}" if "l \<in> dom V" "sem_of s l = Some c" "l \<noteq> k" for l c
  proof -
    have "i \<notin> set (sem_wait_queue c)" using group_inv_queue(1) [OF inv that(1,2)] assms(2) by auto
    with assms(7) D(8) [OF that(1) assms(3) that(2) assms(4) that(3)] show ?thesis by blast
  qed
  show ?thesis
  proof (cases "j = k")
    case True
    with assms old [of j' b] show ?thesis by auto
  next
    case False
    with assms old [of j a] D(8) [of j j' a b] show ?thesis by (cases "j' = k") auto
  qed
qed

lemma group_inv_step:
  assumes inv: "group_inv T V B s" and step: "thread_step act i s = Some s'"
  shows "group_inv T V B s'"
proof -
  note D = group_invD [OF inv]
  from step group_inv_touched [OF inv] show ?thesis
  proof (cases rule: thread_step_cases)
    case (Act a ops)
    have so: "sem_of s' = sem_of s" using Act(3) by (simp add: sem_of_def fun_eq_iff)
    have "sem_balance T v B s' k" if "V k = Some v" for k v
      by (rule sem_balance_other [OF D(6) [OF that], of s' i ops]) (use Act(2,4,5) so in auto)
    moreover have "i \<in> T" using D(4) [of i] Act(2) by auto
    moreover have "k \<in> dom V" if "Wait_on k \<in> set (g_prog s' j) \<or> Signal_on k \<in> set (g_prog s' j)" for j k
      by (rule D(5) [of k j]) (use that Act(2,5) in \<open>auto split: if_splits\<close>)
    ultimately show ?thesis using D(1-4,7,8) Act(4,5) so unfolding group_inv_def by simp
  next
    case (Sem op ops k sem sem')
    have iT: "i \<in> T" using D(4) [of i] Sem(2) by auto
    have kV: "k \<in> dom V" using D(5) [of k i] Sem(2,6) by auto
    then obtain v where v: "V k = Some v" by auto
    have q: "set (sem_wait_queue sem) \<subseteq> g_blocked s" "distinct (sem_wait_queue sem)"
      by (rule group_inv_queue [OF inv kV Sem(7)])+
    have bk: "sem_balance T v B s' k"
      by (rule sem_balance_touched [OF D(6) [OF v] D(1) iT D(2) Sem(2,3,7,8,10)])
    note q' = sem_effect_queue [OF Sem(10) q(2)]
    have bo: "sem_balance T w B s' j" if "V j = Some w" "j \<noteq> k" for j w
    proof (rule sem_balance_other [OF D(6) [OF that(1)], of s' i ops])
      fix se assume se: "sem_of s j = Some se" "set (sem_wait_queue se) \<subseteq> g_blocked s"
      have "set (sem_wait_queue se) \<inter> set (sem_wait_queue sem) = {}" using D(8) [OF _ kV se(1) Sem(7)] that by auto
      then show "set (sem_wait_queue se) \<subseteq> g_blocked s'" using q'(2) se(2) by blast
    qed (use Sem(2,3,6,9) that in auto)
    have "k' \<in> dom V" if "Wait_on k' \<in> set (g_prog s' j) \<or> Signal_on k' \<in> set (g_prog s' j)" for j k'
      by (rule D(5) [of k' j]) (use that Sem(2,3) in \<open>auto split: if_splits\<close>)
    moreover have "g_prog s' j = []" if "j \<notin> T" for j using D(4) [OF that] that iT Sem(3) by auto
    moreover have "g_blocked s' \<subseteq> T" using q'(3) D(3) iT by blast
    moreover have "sem_balance T w B s' j" if "V j = Some w" for j w
      using bk bo [OF that] that v by (cases "j = k") auto
    moreover have "\<exists>j \<in> dom V. \<exists>se. sem_of s' j = Some se \<and> p \<in> set (sem_wait_queue se)" if "p \<in> g_blocked s'" for p
    proof (cases "p \<in> set (sem_wait_queue sem')")
      case False
      with q'(3) [OF that] have "p \<in> g_blocked s" "p \<notin> set (sem_wait_queue sem)" by auto
      with D(7) [of p] Sem(7,9) show ?thesis by (metis option.inject)
    qed (use kV Sem(8) in blast)
    moreover have "set (sem_wait_queue a) \<inter> set (sem_wait_queue b) = {}"
      if "j \<in> dom V" "j' \<in> dom V" "sem_of s' j = Some a" "sem_of s' j' = Some b" "j \<noteq> j'" for j j' a b
      by (rule queues_stay_apart [OF inv Sem(1) kV Sem(7,8) _ _ that]) (use Sem(9) q'(1) in auto)
    ultimately show ?thesis using D(1,2) unfolding group_inv_def by blast
  qed
qed

lemma group_inv_run: "group_inv T V B s \<Longrightarrow> group_inv T V B (run_group act is s)"
  by (rule run_group_inv [of "group_inv T V B"]) (auto intro: group_inv_step)

text \<open>The units of a semaphore are in its count or held by threads that are not queued on it.\<close>

lemma group_inv_holders:
  assumes g: "group_inv T V B s" and v: "V k = Some v" and sem: "sem_of s k = Some sem"
    and q: "\<And>p. p \<in> set (sem_wait_queue sem) \<Longrightarrow> owes k (g_prog s p) = 1"
  shows "int (unat (sem_count sem)) + (\<Sum>i\<in>T - set (sem_wait_queue sem). owes k (g_prog s i)) = v"
proof -
  let ?q = "sem_wait_queue sem"
  note D = group_invD [OF g]
  have k: "k \<in> dom V" using v by auto
  have sub: "set ?q \<subseteq> T" using group_inv_queue(1) [OF g k sem] D(3) by blast
  have "(\<Sum>i\<in>set ?q. owes k (g_prog s i)) = (\<Sum>i\<in>set ?q. 1)" using q by (intro sum.cong) auto
  also have "\<dots> = int (length ?q)" using group_inv_queue(2) [OF g k sem] by (simp add: distinct_card)
  finally have "(\<Sum>i\<in>T. owes k (g_prog s i)) = (\<Sum>i\<in>T - set ?q. owes k (g_prog s i)) + int (length ?q)"
    using sum.subset_diff [OF sub D(1), of "\<lambda>i. owes k (g_prog s i)"] by simp
  then show ?thesis using D(6) [OF v] sem by (auto simp: sem_balance_def simp del: of_nat_unat)
qed

lemma group_inv_one_holder:
  assumes g: "group_inv T V B s" and v: "V k = Some 1" and sem: "sem_of s k = Some sem"
    and q: "\<And>p. p \<in> set (sem_wait_queue sem) \<Longrightarrow> owes k (g_prog s p) = 1"
    and pos: "\<And>p. 0 \<le> owes k (g_prog s p)"
    and T: "i \<in> T" "j \<in> T" "i \<noteq> j" and free: "i \<notin> g_blocked s" "j \<notin> g_blocked s"
    and held: "0 < owes k (g_prog s i)" "0 < owes k (g_prog s j)"
  shows False
proof -
  have nq: "i \<notin> set (sem_wait_queue sem)" "j \<notin> set (sem_wait_queue sem)"
    using group_inv_queue(1) [OF g _ sem] v free by auto
  have "(\<Sum>x\<in>{i, j}. owes k (g_prog s x)) \<le> (\<Sum>x\<in>T - set (sem_wait_queue sem). owes k (g_prog s x))"
    using nq T group_invD(1) [OF g] pos by (intro sum_mono2) auto
  then show False using group_inv_holders [OF g v sem q] held T(3) by (simp del: of_nat_unat)
qed

section \<open>Groups that cannot get stuck\<close>

text \<open>An invariant under which, as long as a thread has something left to do, some thread can take a step.\<close>

locale live_group =
  fixes act :: "'a \<Rightarrow> 'm \<Rightarrow> 'l \<Rightarrow> 'm \<times> 'l"
    and inv :: "('a, 'm, 'l) group \<Rightarrow> bool"
    and T :: "ProcessId set"
  assumes inv_step: "inv s \<Longrightarrow> thread_step act i s = Some s' \<Longrightarrow> inv s'"
    and inv_threads: "inv s \<Longrightarrow> finite T \<and> (\<forall>i. i \<notin> T \<longrightarrow> g_prog s i = [])"
    and inv_live: "inv s \<Longrightarrow> i \<in> T \<Longrightarrow> g_prog s i \<noteq> [] \<Longrightarrow> \<exists>j \<in> T. j \<notin> g_blocked s \<and> g_prog s j \<noteq> []"
begin

lemma inv_run: "inv s \<Longrightarrow> inv (run_group act is s)"
  by (rule run_group_inv [of inv]) (auto intro: inv_step)

lemma stuck_finished:
  assumes "inv s" and "\<forall>i \<in> T. thread_step act i s = None"
  shows "g_prog s i = []"
proof (rule ccontr)
  assume i: "g_prog s i \<noteq> []"
  then have "i \<in> T" using inv_threads [OF assms(1)] by auto
  then obtain j where "j \<in> T" "j \<notin> g_blocked s" "g_prog s j \<noteq> []" using inv_live [OF assms(1) _ i] by auto
  then have "thread_step act j s \<noteq> None" by (auto simp: thread_step_def split: list.splits op.splits prod.splits)
  with assms(2) \<open>j \<in> T\<close> show False by auto
qed

lemma completes: "inv s \<Longrightarrow> \<exists>js. \<forall>i. g_prog (run_group act js s) i = []"
proof (induction "\<Sum>i\<in>T. length (g_prog s i)" arbitrary: s rule: less_induct)
  case less
  show ?case
  proof (cases "\<exists>i \<in> T. thread_step act i s \<noteq> None")
    case True
    then obtain i s' where i: "i \<in> T" "thread_step act i s = Some s'" by auto
    have "(\<Sum>j\<in>T. length (g_prog s' j)) < (\<Sum>j\<in>T. length (g_prog s j))"
      using thread_step_shorter [OF i(2) _ i(1)] inv_threads [OF less.prems] by simp
    then obtain js where "\<forall>j. g_prog (run_group act js s') j = []" using less inv_step [OF less.prems i(2)] by blast
    then show ?thesis using i(2) by (intro exI [of _ "i # js"]) simp
  next
    case False
    then show ?thesis using stuck_finished [OF less.prems] by (intro exI [of _ "[]"]) auto
  qed
qed

end

section \<open>Ordered acquisition\<close>

text \<open>A program acquires in order when every wait is for a semaphore that it does not hold and that is
  above all those it holds, and every signal returns a unit that it holds.\<close>

fun disciplined :: "'a op list \<Rightarrow> bool" where
  "disciplined [] = True"
| "disciplined (Wait_on k # ops) \<longleftrightarrow> disciplined ops \<and> owes k ops = 1 \<and> (\<forall>j. 0 < owes j ops \<longrightarrow> j \<le> k)"
| "disciplined (Signal_on k # ops) \<longleftrightarrow> disciplined ops \<and> owes k ops = 0"
| "disciplined (Act a # ops) = disciplined ops"

definition balanced :: "'a op list \<Rightarrow> bool" where
  "balanced ops \<longleftrightarrow> disciplined ops \<and> (\<forall>k. owes k ops = 0)"

lemma owes_disciplined: "disciplined ops \<Longrightarrow> 0 \<le> owes k ops \<and> owes k ops \<le> 1"
  by (induction ops rule: disciplined.induct) auto

lemma disciplined_append: "disciplined a \<Longrightarrow> balanced b \<Longrightarrow> disciplined (a @ b)"
  by (induction a rule: disciplined.induct) (auto simp: balanced_def)

lemma balanced_Nil [simp]: "balanced []"
  by (simp add: balanced_def)

lemma balanced_append: "balanced a \<Longrightarrow> balanced b \<Longrightarrow> balanced (a @ b)"
  using disciplined_append [of a b] by (simp add: balanced_def)

lemma balanced_repeat: "balanced a \<Longrightarrow> balanced (concat (replicate n a))"
  by (induction n) (simp_all add: balanced_append)

text \<open>A queued thread has just passed its wait: it owes that unit, and nothing above it.\<close>

definition queue_ok :: "('a, 'm, 'l) group \<Rightarrow> u32 \<Rightarrow> bool" where
  "queue_ok s k \<longleftrightarrow>
     (\<forall>sem p. sem_of s k = Some sem \<longrightarrow> p \<in> set (sem_wait_queue sem) \<longrightarrow>
        owes k (g_prog s p) = 1 \<and> (\<forall>j. 0 < owes j (g_prog s p) \<longrightarrow> j \<le> k))"

definition order_inv :: "ProcessId set \<Rightarrow> u32 set \<Rightarrow> nat \<Rightarrow> ('a, 'm, 'l) group \<Rightarrow> bool" where
  "order_inv T K B s \<longleftrightarrow>
     group_inv T (\<lambda>k. if k \<in> K then Some 1 else None) B s \<and> (\<forall>i. disciplined (g_prog s i)) \<and> (\<forall>k \<in> K. queue_ok s k)"

lemma order_inv_step:
  assumes inv: "order_inv T K B s" and step: "thread_step act i s = Some s'"
  shows "order_inv T K B s'"
proof -
  let ?V = "\<lambda>k. if k \<in> K then Some 1 else None :: int option"
  have K: "dom ?V = K" by (auto split: if_splits)
  from inv have g: "group_inv T ?V B s" and dp: "\<And>j. disciplined (g_prog s j)" and qo: "\<And>k. k \<in> K \<Longrightarrow> queue_ok s k"
    by (auto simp: order_inv_def)
  note D = group_invD [OF g, unfolded K]
  have g': "group_inv T ?V B s'" by (rule group_inv_step [OF g step])
  have tl: "disciplined ops" if "g_prog s i = op # ops" for op ops using dp [of i] that by (cases op) auto
  have q: "p \<in> g_blocked s" if "k \<in> K" "sem_of s k = Some sem" "p \<in> set (sem_wait_queue sem)" for k sem p
    using group_inv_queue(1) [OF g, unfolded K, OF that(1,2)] that(3) by auto
  from step group_inv_touched [OF g] show ?thesis
  proof (cases rule: thread_step_cases)
    case (Act a ops)
    have "queue_ok s' k" if "k \<in> K" for k
      using qo [OF that] q [OF that] Act(1,3,5) unfolding queue_ok_def by (auto simp: sem_of_def)
    moreover have "disciplined (g_prog s' j)" for j using dp [of j] tl [OF Act(2)] Act(5) by auto
    ultimately show ?thesis using g' by (simp add: order_inv_def)
  next
    case (Sem op ops k sem sem')
    have kK: "k \<in> K" using D(5) [of k i] Sem(2,6) by auto
    have "queue_ok s' j" if "j \<in> K" for j
    proof (cases "j = k")
      case False
      then show ?thesis using qo [OF that] q [OF that] Sem(1,3,9) unfolding queue_ok_def by auto
    next
      case True
      from Sem(10) show ?thesis
      proof (cases rule: sem_effect_cases)
        case blocks
        have "owes k ops = 1 \<and> (\<forall>j. 0 < owes j ops \<longrightarrow> j \<le> k)" using dp [of i] Sem(2) blocks(1) by auto
        then show ?thesis using qo [OF kK] q [OF kK Sem(7)] Sem(1,3,7,8) blocks(3) True unfolding queue_ok_def by auto
      qed (use qo [OF kK] q [OF kK Sem(7)] Sem(1,3,7,8) True in \<open>auto simp: queue_ok_def\<close>)
    qed
    moreover have "disciplined (g_prog s' j)" for j using dp [of j] tl [OF Sem(2)] Sem(3) by auto
    ultimately show ?thesis using g' by (simp add: order_inv_def)
  qed
qed

lemma order_inv_run: "order_inv T K B s \<Longrightarrow> order_inv T K B (run_group act is s)"
  by (rule run_group_inv [of "order_inv T K B"]) (auto intro: order_inv_step)

lemma order_inv_holders:
  assumes inv: "order_inv T K B s" and k: "k \<in> K" and sem: "sem_of s k = Some sem"
  shows "int (unat (sem_count sem)) + (\<Sum>i\<in>T - set (sem_wait_queue sem). owes k (g_prog s i)) = 1"
proof (rule group_inv_holders [OF _ _ sem])
  show "group_inv T (\<lambda>k. if k \<in> K then Some 1 else None) B s" using inv by (simp add: order_inv_def)
  show "owes k (g_prog s p) = 1" if "p \<in> set (sem_wait_queue sem)" for p
    using inv k sem that by (auto simp: order_inv_def queue_ok_def)
qed (use k in simp)

lemma order_inv_mutex:
  assumes inv: "order_inv T K B s" and k: "k \<in> K" and T: "i \<in> T" "j \<in> T" "i \<noteq> j"
    and free: "i \<notin> g_blocked s" "j \<notin> g_blocked s" and held: "0 < owes k (g_prog s i)" "0 < owes k (g_prog s j)"
  shows False
proof -
  let ?V = "\<lambda>k. if k \<in> K then Some 1 else None :: int option"
  from inv have g: "group_inv T ?V B s" and dp: "\<And>j. disciplined (g_prog s j)" by (auto simp: order_inv_def)
  obtain sem where sem: "sem_of s k = Some sem" using group_inv_sem [OF g, of k] k by (fastforce simp: dom_def)
  have "owes k (g_prog s p) = 1" if "p \<in> set (sem_wait_queue sem)" for p
    using inv k sem that by (auto simp: order_inv_def queue_ok_def)
  moreover have "0 \<le> owes k (g_prog s p)" for p using owes_disciplined [OF dp] by blast
  ultimately show False using group_inv_one_holder [OF g _ sem _ _ T free held] k by simp
qed

text \<open>No deadlock: the holder of the highest semaphore that has a queue is not blocked.\<close>

lemma order_inv_progress:
  assumes inv: "order_inv T K B s" and fin: "finite K" and j: "j \<in> T" "g_prog s j \<noteq> []"
  shows "\<exists>i \<in> T. i \<notin> g_blocked s \<and> g_prog s i \<noteq> []"
proof (cases "g_blocked s = {}")
  case False
  let ?V = "\<lambda>k. if k \<in> K then Some 1 else None :: int option"
  have K: "dom ?V = K" by (auto split: if_splits)
  from inv have g: "group_inv T ?V B s" and dp: "\<And>j. disciplined (g_prog s j)" and qo: "\<And>k. k \<in> K \<Longrightarrow> queue_ok s k"
    by (auto simp: order_inv_def)
  note D = group_invD [OF g, unfolded K]
  define W where "W = {k \<in> K. \<exists>sem. sem_of s k = Some sem \<and> sem_wait_queue sem \<noteq> []}"
  have "finite W" "W \<noteq> {}" using fin False D(7) by (fastforce simp: W_def)+
  then have kW: "Max W \<in> W" and mx: "\<And>k'. k' \<in> W \<Longrightarrow> k' \<le> Max W" by auto
  define k where "k = Max W"
  obtain sem where sem: "k \<in> K" "sem_of s k = Some sem" "sem_wait_queue sem \<noteq> []" using kW by (auto simp: W_def k_def)
  have "sem_count sem = 0" using D(6) [of k 1] sem by (auto simp: sem_balance_def)
  then have "(\<Sum>i\<in>T - set (sem_wait_queue sem). owes k (g_prog s i)) = 1"
    using order_inv_holders [OF inv sem(1,2)] by simp
  then obtain i where i: "i \<in> T - set (sem_wait_queue sem)" "0 < owes k (g_prog s i)"
    by (metis less_numeral_extra(1) not_less sum_nonpos)
  have "i \<notin> g_blocked s"
  proof
    assume "i \<in> g_blocked s"
    then obtain k' se where k': "k' \<in> K" "sem_of s k' = Some se" "i \<in> set (sem_wait_queue se)" using D(7) by blast
    then have "k \<le> k'" using qo [OF k'(1)] i(2) by (auto simp: queue_ok_def)
    moreover have "k' \<le> k" unfolding k_def by (rule mx) (use k' in \<open>auto simp: W_def\<close>)
    ultimately show False using k' i sem(2) by auto
  qed
  moreover have "g_prog s i \<noteq> []" using i(2) by auto
  ultimately show ?thesis using i(1) by blast
qed (use j in auto)

interpretation ordered: live_group act "order_inv T (set ks) B" T for act T ks B
proof
  show "order_inv T (set ks) B s'" if "order_inv T (set ks) B s" "thread_step act i s = Some s'" for s i s'
    by (rule order_inv_step [OF that])
  show "finite T \<and> (\<forall>i. i \<notin> T \<longrightarrow> g_prog s i = [])" if "order_inv T (set ks) B s" for s
    using that by (auto simp: order_inv_def group_inv_def)
  show "\<exists>j \<in> T. j \<notin> g_blocked s \<and> g_prog s j \<noteq> []" if "order_inv T (set ks) B s" "i \<in> T" "g_prog s i \<noteq> []" for s i
    by (rule order_inv_progress [OF that(1) _ that(2,3)]) simp
qed

section \<open>Groups as their applications start them\<close>

text \<open>\<open>init\<close> of a list of semaphores to one unit each, and the group that the forks then form.\<close>

definition init_sems :: "u32 list \<Rightarrow> SemaphoreSet" where
  "init_sems ks = fold (\<lambda>k ss. snd (SemaphoreSet_insert ss k 1)) ks SemaphoreSet_default"

definition start_group :: "u32 list \<Rightarrow> (ProcessId \<times> 'a op list) list \<Rightarrow> 'm \<Rightarrow> 'l \<Rightarrow> ('a, 'm, 'l) group" where
  "start_group ks ps m l =
     \<lparr>g_sems = init_sems ks, g_mem = m, g_local = (\<lambda>_. l),
      g_prog = (\<lambda>i. case map_of ps i of None \<Rightarrow> [] | Some ops \<Rightarrow> ops), g_blocked = {}\<rparr>"

definition forked_threads :: "(nat \<Rightarrow> 'a op list) \<Rightarrow> ProcessId list \<Rightarrow> (ProcessId \<times> 'a op list) list" where
  "forked_threads prog pids = zip pids (map prog [0..<length pids])"

lemma forked_prog:
  assumes "distinct pids"
  shows "i \<notin> set pids \<Longrightarrow> map_of (forked_threads prog pids) i = None"
    "n < length pids \<Longrightarrow> map_of (forked_threads prog pids) (pids ! n) = Some (prog n)"
proof -
  show "i \<notin> set pids \<Longrightarrow> map_of (forked_threads prog pids) i = None" by (auto simp: forked_threads_def map_of_eq_None_iff dest: set_zip_leftD)
  show "n < length pids \<Longrightarrow> map_of (forked_threads prog pids) (pids ! n) = Some (prog n)"
    using assms by (intro map_of_is_SomeI) (auto simp: forked_threads_def in_set_zip)
qed

lemma init_sems: "sems (init_sems ks) (SemaphoreId_new k) = (if k \<in> set ks then Some (Semaphore_new 1) else None)"
proof -
  have "sems (fold (\<lambda>k ss. snd (SemaphoreSet_insert ss k 1)) ks ss) (SemaphoreId_new k) =
      (if k \<in> set ks then Some (Semaphore_new 1) else sems ss (SemaphoreId_new k))" for ss
    by (induction ks arbitrary: ss) (auto simp: SemaphoreSet_insert_def Let_def)
  then show ?thesis by (simp add: init_sems_def SemaphoreSet_default_def)
qed

definition keys_of :: "'a op list \<Rightarrow> u32 set" where
  "keys_of ops = {k. Wait_on k \<in> set ops \<or> Signal_on k \<in> set ops}"

lemma keys_of_simps [simp]:
  "keys_of [] = {}" "keys_of (Act a # ops) = keys_of ops"
  "keys_of (Wait_on k # ops) = insert k (keys_of ops)" "keys_of (Signal_on k # ops) = insert k (keys_of ops)"
  by (auto simp: keys_of_def)

lemma keys_of_append [simp]: "keys_of (a @ b) = keys_of a \<union> keys_of b"
  by (auto simp: keys_of_def)

lemma keys_of_repeat: "keys_of (concat (replicate n a)) \<subseteq> keys_of a"
  by (induction n) auto

text \<open>An application of this kind: its semaphores, its forked threads with their programs, and how it
  interprets its own actions. The programs acquire in order and give back what they take.\<close>

locale ordered_group =
  fixes act :: "'a \<Rightarrow> 'm \<Rightarrow> 'l \<Rightarrow> 'm \<times> 'l"
    and keys :: "u32 list"
    and prog :: "nat \<Rightarrow> 'a op list"
    and seats :: nat
  assumes prog_balanced: "n < seats \<Longrightarrow> balanced (prog n)"
    and prog_keys: "n < seats \<Longrightarrow> keys_of (prog n) \<subseteq> set keys"
    and prog_short: "n < seats \<Longrightarrow> length (prog n) < 2 ^ 32"
    and seats_pids: "seats < 2 ^ 16"
begin

lemma prog_thread:
  assumes "distinct pids"
  shows "i \<notin> set pids \<Longrightarrow> g_prog (start_group keys (forked_threads prog pids) m l) i = []"
    "n < length pids \<Longrightarrow> g_prog (start_group keys (forked_threads prog pids) m l) (pids ! n) = prog n"
  using forked_prog [OF assms, where prog = prog] by (simp_all add: start_group_def)

lemma start_inv:
  assumes pids: "distinct pids" "length pids = seats"
  shows "order_inv (set pids) (set keys) (2 ^ 48 + 1) (start_group keys (forked_threads prog pids) m l)"
proof -
  let ?s = "start_group keys (forked_threads prog pids) m l"
  have cases: "g_prog ?s i = [] \<or> (\<exists>n < seats. g_prog ?s i = prog n)" for i
    using prog_thread [OF pids(1)] pids(2) by (metis in_set_conv_nth)
  then have bal: "balanced (g_prog ?s i)" for i using prog_balanced by (metis balanced_def disciplined.simps(1) owes_simps(1))
  have keys: "keys_of (g_prog ?s i) \<subseteq> set keys" for i using cases [of i] prog_keys by (metis empty_subsetI keys_of_simps(1))
  have short: "count_list (g_prog ?s i) x \<le> 2 ^ 32" for i x
    using cases [of i] prog_short count_le_length [of "g_prog ?s i" x] by (metis le_trans length_0_conv less_imp_le zero_le)
  have so: "sem_of ?s k = (if k \<in> set keys then Some (Semaphore_new 1) else None)" for k
    by (simp add: sem_of_def start_group_def init_sems)
  have "(\<Sum>i\<in>set pids. count_list (g_prog ?s i) x) \<le> 2 ^ 48" for x
  proof -
    have "(\<Sum>i\<in>set pids. count_list (g_prog ?s i) x) \<le> of_nat (card (set pids)) * 2 ^ 32" by (rule sum_bounded_above) (rule short)
    also have "\<dots> \<le> 2 ^ 16 * 2 ^ 32" using pids seats_pids card_length [of pids] by (intro mult_right_mono) auto
    finally show ?thesis by simp
  qed
  then have "sem_balance (set pids) 1 (2 ^ 48 + 1) ?s k" if "k \<in> set keys" for k
    using that bal unfolding sem_balance_def by (simp add: so balanced_def Semaphore_new_def)
  moreover have "queue_ok ?s k" for k by (simp add: queue_ok_def so Semaphore_new_def)
  moreover have "g_blocked ?s = {}" by (simp add: start_group_def)
  moreover have "Wait_on k \<in> set (g_prog ?s i) \<Longrightarrow> k \<in> set keys" "Signal_on k \<in> set (g_prog ?s i) \<Longrightarrow> k \<in> set keys" for i k
    using keys [of i] by (auto simp: keys_of_def)
  ultimately show ?thesis
    using prog_thread(1) [OF pids(1), of _ m l] bal unfolding order_inv_def group_inv_def
    by (simp add: so balanced_def Semaphore_new_def) (auto split: if_splits)
qed

lemma run_inv:
  "distinct pids \<Longrightarrow> length pids = seats \<Longrightarrow>
   order_inv (set pids) (set keys) (2 ^ 48 + 1) (run_group act is (start_group keys (forked_threads prog pids) m l))"
  by (rule order_inv_run [OF start_inv])

lemma never_deadlocks:
  assumes "distinct pids" "length pids = seats" and s: "s = run_group act is (start_group keys (forked_threads prog pids) m l)"
    and "\<forall>i \<in> set pids. thread_step act i s = None"
  shows "\<forall>i. g_prog s i = []"
  using ordered.stuck_finished [OF run_inv [OF assms(1,2), of "is" m l, folded s] assms(4)] by blast

lemma completes:
  assumes "distinct pids" "length pids = seats"
  shows "\<exists>js. \<forall>i. g_prog (run_group act (is @ js) (start_group keys (forked_threads prog pids) m l)) i = []"
  using ordered.completes [OF run_inv [OF assms, of "is" m l], of act] by (simp add: run_group_append)

lemmas mutual_exclusion = order_inv_mutex [OF run_inv]

end

end
