(* ===== verification/Apps.thy ===== *)
theory Apps
  imports Threads
begin

text \<open>
  The applications of \<^verbatim>\<open>pkg/app\<close> that are programs in their own right: the shared counter
  (\<^verbatim>\<open>app/counter\<close>), the dining philosophers (\<^verbatim>\<open>app/dinner\<close>) and the factorial (\<^verbatim>\<open>app/fab\<close>). The first
  two fork threads over shared memory and are groups of theory \<open>Threads\<close>; a forked child shares the code
  and data segments of its parent, so the statics are the memory of the group and the locals of a
  function live on each child's own stack. Printing is an action without effect on the state, and a
  sleep is a void turn: that it may wait for ever across midnight is shown in theory \<open>UserLib\<close> and left out here.
\<close>

section \<open>The counter\<close>

datatype counter_act = Load | Incr | Store

definition THREAD_COUNT :: nat where
  "THREAD_COUNT = 8"

definition SEMAPHORE :: u32 where
  "SEMAPHORE = 0"

text \<open>The memory is \<^verbatim>\<open>COUNTER\<close>, the local of a thread is the variable \<^verbatim>\<open>val\<close> of \<^verbatim>\<open>inc_counter\<close>.\<close>

fun run_counter_act :: "counter_act \<Rightarrow> isize \<Rightarrow> isize \<Rightarrow> isize \<times> isize" where
  "run_counter_act Load COUNTER val = (COUNTER, COUNTER)"
| "run_counter_act Incr COUNTER val = (COUNTER, val + 1)"
| "run_counter_act Store COUNTER val = (val, val)"

definition inc_counter :: "counter_act op list" where
  "inc_counter = [Act Load, Act Incr, Act Store]"

definition do_counter_inc :: "counter_act op list" where
  "do_counter_inc = concat (replicate 100 ([Wait_on SEMAPHORE] @ inc_counter @ [Signal_on SEMAPHORE]))"

text \<open>The group that \<^verbatim>\<open>main\<close> forks, one entry of \<open>pids\<close> per thread.\<close>

definition counter_group :: "ProcessId list \<Rightarrow> (counter_act, isize, isize) group" where
  "counter_group pids = start_group [SEMAPHORE] (forked_threads (\<lambda>i. do_counter_inc) pids) 0 0"

section \<open>The philosophers\<close>

definition PHI_SIZE :: nat where
  "PHI_SIZE = 5"

definition CHOPSTICK :: "u32 list" where
  "CHOPSTICK = [0, 1, 2, 3, 4]"

datatype dinner_act = Get nat nat | Release nat nat | Sleep | Eating nat | Eat nat

text \<open>\<^verbatim>\<open>PHILOSOPHER[i] += 1\<close> is the only action with an effect.\<close>

fun run_dinner_act :: "dinner_act \<Rightarrow> u32 list \<Rightarrow> unit \<Rightarrow> u32 list \<times> unit" where
  "run_dinner_act (Eat i) PHILOSOPHER _ = (PHILOSOPHER[i := PHILOSOPHER ! i + 1], ())"
| "run_dinner_act _ PHILOSOPHER _ = (PHILOSOPHER, ())"

definition philosopher1_round :: "nat \<Rightarrow> nat \<Rightarrow> nat \<Rightarrow> dinner_act op list" where
  "philosopher1_round i left right =
     [Wait_on (CHOPSTICK ! left), Act (Get i left), Act Sleep,
      Wait_on (CHOPSTICK ! right), Act (Get i right), Act Sleep, Act (Eating i),
      Signal_on (CHOPSTICK ! left), Act (Release i left), Act Sleep,
      Signal_on (CHOPSTICK ! right), Act (Release i right)]"

definition philosopher1 :: "nat \<Rightarrow> dinner_act op list" where
  "philosopher1 i =
     (let left = i; right = (i + 1) mod PHI_SIZE
      in concat (replicate 20 (philosopher1_round i left right)))"

text \<open>The three exclusive ors swap \<open>left\<close> and \<open>right\<close>.\<close>

definition xor_swap :: "nat \<Rightarrow> nat \<Rightarrow> nat \<times> nat" where
  "xor_swap left right =
     (let left = left XOR right; right = left XOR right; left = left XOR right in (left, right))"

definition philosopher2_round :: "nat \<Rightarrow> nat \<Rightarrow> nat \<Rightarrow> dinner_act op list" where
  "philosopher2_round i left right =
     [Wait_on (CHOPSTICK ! left), Act (Get i left), Act Sleep,
      Wait_on (CHOPSTICK ! right), Act (Get i right), Act Sleep, Act (Eat i),
      Signal_on (CHOPSTICK ! left), Act (Release i left), Act Sleep,
      Signal_on (CHOPSTICK ! right), Act (Release i right)]"

text \<open>The swap stands inside the loop: the variables keep their swapped values for the next round.\<close>

fun philosopher2_loop :: "nat \<Rightarrow> nat \<Rightarrow> nat \<Rightarrow> nat \<Rightarrow> dinner_act op list" where
  "philosopher2_loop 0 i left right = []"
| "philosopher2_loop (Suc n) i left right =
     (let (left, right) = (if i mod 2 = 0 then xor_swap left right else (left, right))
      in philosopher2_round i left right @ philosopher2_loop n i left right)"

definition philosopher2 :: "nat \<Rightarrow> dinner_act op list" where
  "philosopher2 i = philosopher2_loop 5 i i ((i + 1) mod PHI_SIZE)"

definition philosopher3_round :: "nat \<Rightarrow> nat \<Rightarrow> nat \<Rightarrow> dinner_act op list" where
  "philosopher3_round i left right =
     [Wait_on (CHOPSTICK ! left), Act Sleep, Wait_on (CHOPSTICK ! right), Act Sleep, Act (Eat i),
      Signal_on (CHOPSTICK ! left), Act Sleep, Signal_on (CHOPSTICK ! right)]"

fun philosopher3_loop :: "nat \<Rightarrow> nat \<Rightarrow> nat \<Rightarrow> nat \<Rightarrow> dinner_act op list" where
  "philosopher3_loop 0 i left right = []"
| "philosopher3_loop (Suc n) i left right =
     (let (left, right) = (if left > right then xor_swap left right else (left, right))
      in philosopher3_round i left right @ philosopher3_loop n i left right)"

definition philosopher3 :: "nat \<Rightarrow> dinner_act op list" where
  "philosopher3 i = philosopher3_loop 10 i i ((i + 1) mod PHI_SIZE)"

text \<open>\<^verbatim>\<open>main\<close>: the chopsticks start with one unit, then the chosen function is forked once per seat. Any
  other input removes the semaphores and returns, so there is no group.\<close>

definition dinner_choice :: "string \<Rightarrow> (nat \<Rightarrow> dinner_act op list) option" where
  "dinner_choice input =
     (if input = ''1'' then Some philosopher1
      else if input = ''2'' then Some philosopher2
      else if input = ''3'' then Some philosopher3 else None)"

definition dinner_group :: "(nat \<Rightarrow> dinner_act op list) \<Rightarrow> ProcessId list \<Rightarrow> (dinner_act, u32 list, unit) group" where
  "dinner_group philosopher pids = start_group CHOPSTICK (forked_threads philosopher pids) (replicate PHI_SIZE 0) ()"

definition deadlocked :: "('a, 'm, 'l) group \<Rightarrow> ProcessId list \<Rightarrow> bool" where
  "deadlocked s pids \<longleftrightarrow> (\<forall>i \<in> set pids. i \<in> g_blocked s) \<and> pids \<noteq> []"

section \<open>The factorial\<close>

definition MOD :: u64 where
  "MOD = 1000000007"

function factorial :: "u64 \<Rightarrow> u64" where
  "factorial n = (if n = 0 then 1 else n * factorial (n - 1) mod MOD)"
  by auto
termination
  by (relation "measure unat") (auto simp: unat_pred unat_gt_0)

declare factorial.simps [simp del]

text \<open>\<^verbatim>\<open>str::parse::<u64>\<close> of the standard library: an optional plus sign, then at least one decimal digit,
  and no value above \<open>2\<^sup>6\<^sup>4 - 1\<close>.\<close>

definition digit_of :: "char \<Rightarrow> nat option" where
  "digit_of c = (let n = of_char c :: nat in if 48 \<le> n \<and> n \<le> 57 then Some (n - 48) else None)"

fun parse_digits :: "nat \<Rightarrow> string \<Rightarrow> nat option" where
  "parse_digits acc [] = Some acc"
| "parse_digits acc (c # cs) =
     (case digit_of c of
        None \<Rightarrow> None
      | Some d \<Rightarrow> if 10 * acc + d < 2 ^ 64 then parse_digits (10 * acc + d) cs else None)"

definition parse_u64 :: "string \<Rightarrow> u64 option" where
  "parse_u64 s =
     (let ds = (case s of c # cs \<Rightarrow> if c = CHR ''+'' then cs else s | [] \<Rightarrow> s)
      in if ds = [] then None else map_option of_nat (parse_digits 0 ds))"

text \<open>\<^verbatim>\<open>main\<close> on its input line: the exit code and the number it prints, if any.\<close>

definition fab_main :: "string \<Rightarrow> (isize \<times> u64 option) res" where
  "fab_main input =
     rbind (expect Unwrap_failed (parse_u64 input))
       (\<lambda>n. if n > 1000000 then Inr (1, None) else Inr (0, Some (factorial n)))"

section \<open>The factorial modulo a prime\<close>

lemma factorial_fact: "unat n \<le> 1000000 \<Longrightarrow> unat (factorial n) = fact (unat n) mod 1000000007"
proof (induction n rule: factorial.induct)
  case (1 n)
  show ?case
  proof (cases "n = 0")
    case False
    then have pred: "unat n = Suc (unat (n - 1))" by (simp add: unat_pred unat_gt_0)
    have IH: "unat (factorial (n - 1)) = fact (unat (n - 1)) mod 1000000007" using 1 False pred by simp
    then have "unat n * unat (factorial (n - 1)) \<le> 1000000 * 1000000007"
      using 1 by (intro mult_le_mono) auto
    then have "unat (n * factorial (n - 1)) = unat n * unat (factorial (n - 1))" by (subst unat_mult_lem [symmetric]) simp
    then have "unat (factorial n) = (unat n * unat (factorial (n - 1))) mod 1000000007"
      using False by (subst factorial.simps) (simp add: unat_mod MOD_def)
    also have "\<dots> = unat n * fact (unat (n - 1)) mod 1000000007" unfolding IH by (simp add: mod_mult_right_eq)
    also have "\<dots> = fact (unat n) mod 1000000007" unfolding pred by simp
    finally show ?thesis .
  qed (simp add: factorial.simps)
qed

text \<open>\<^verbatim>\<open>fab\<close> answers the factorial: for an input line that reads as a number up to a million, the
  wrapping 64-bit recursion computes the factorial of the unbounded number modulo the prime; larger numbers
  make it return 1, and a line that is no \<^verbatim>\<open>u64\<close> makes it panic.\<close>

theorem fab_answers_factorial:
  "fab_main input =
     (case parse_u64 input of
        None \<Rightarrow> Inl Unwrap_failed
      | Some n \<Rightarrow> if unat n \<le> 1000000 then Inr (0, Some (of_nat (fact (unat n) mod 1000000007))) else Inr (1, None))"
proof (cases "parse_u64 input")
  case (Some n)
  have "n > 1000000 \<longleftrightarrow> \<not> unat n \<le> 1000000" by (simp add: word_less_nat_alt not_le)
  moreover have "factorial n = of_nat (fact (unat n) mod 1000000007)" if "unat n \<le> 1000000"
    unfolding factorial_fact [OF that, symmetric] by simp
  ultimately show ?thesis using Some by (simp add: fab_main_def rbind_def expect_def)
qed (simp add: fab_main_def rbind_def expect_def)

section \<open>The counter counts every increment\<close>

definition counter_cycle :: "counter_act op list" where
  "counter_cycle = [Wait_on SEMAPHORE] @ inc_counter @ [Signal_on SEMAPHORE]"

abbreviation cycles :: "nat \<Rightarrow> counter_act op list" where
  "cycles n \<equiv> concat (replicate n counter_cycle)"

lemma do_counter_inc_cycles: "do_counter_inc = cycles 100"
  by (simp add: do_counter_inc_def counter_cycle_def)

lemma balanced_cycles: "balanced (cycles n)"
  by (rule balanced_repeat) (simp add: balanced_def counter_cycle_def inc_counter_def)

interpretation counter: ordered_group run_counter_act "[SEMAPHORE]" "\<lambda>i. do_counter_inc" THREAD_COUNT
proof
  show "THREAD_COUNT < 2 ^ 16" by (simp add: THREAD_COUNT_def)
  show "balanced do_counter_inc" unfolding do_counter_inc_cycles by (rule balanced_cycles)
  show "keys_of do_counter_inc \<subseteq> set [SEMAPHORE]"
    unfolding do_counter_inc_cycles by (rule order_trans [OF keys_of_repeat]) (simp add: counter_cycle_def inc_counter_def)
  show "length do_counter_inc < 2 ^ 32" by (simp add: do_counter_inc_def inc_counter_def length_concat sum_list_replicate)
qed

text \<open>What a thread can have left.\<close>

definition counter_tail :: "counter_act op list \<Rightarrow> bool" where
  "counter_tail ops \<longleftrightarrow>
     (\<exists>n. ops = cycles n \<or>
       (\<exists>k \<le> 3. ops = drop k (inc_counter @ [Signal_on SEMAPHORE]) @ cycles n))"

lemma counter_tail_iff:
  "counter_tail ops \<longleftrightarrow>
     (\<exists>n. ops = cycles n \<or> ops = Act Load # Act Incr # Act Store # Signal_on SEMAPHORE # cycles n \<or>
        ops = Act Incr # Act Store # Signal_on SEMAPHORE # cycles n \<or>
        ops = Act Store # Signal_on SEMAPHORE # cycles n \<or> ops = Signal_on SEMAPHORE # cycles n)"
proof -
  have "(\<exists>k \<le> 3. P k) \<longleftrightarrow> P 0 \<or> P 1 \<or> P 2 \<or> P (3 :: nat)" for P
    by (auto simp: le_Suc_eq numeral_3_eq_3 numeral_2_eq_2)
  then show ?thesis by (simp add: counter_tail_def inc_counter_def)
qed

lemma counter_tail_Cons:
  assumes "counter_tail (x # ops)"
  shows "counter_tail ops" "x = Wait_on k \<Longrightarrow> k = SEMAPHORE \<and> (\<exists>r. ops = Act Load # r)"
    "x = Act Load \<Longrightarrow> \<exists>r. ops = Act Incr # r" "x = Act Incr \<Longrightarrow> \<exists>r. ops = Act Store # r"
    "x = Signal_on k \<or> x = Act Store \<Longrightarrow> (\<nexists>r. ops = Act Incr # r \<or> ops = Act Store # r)"
    "x = Act a \<Longrightarrow> owes SEMAPHORE (x # ops) = 1"
proof -
  have o: "owes SEMAPHORE (cycles n) = 0" for n using balanced_cycles [of n] by (simp add: balanced_def)
  have c: "cycles n = [] \<or> (\<exists>m. cycles n = Wait_on SEMAPHORE # Act Load # Act Incr # Act Store # Signal_on SEMAPHORE # cycles m)" for n
    by (cases n) (auto simp: counter_cycle_def inc_counter_def)
  from assms obtain n where n: "x # ops = cycles n \<or> x # ops = Act Load # Act Incr # Act Store # Signal_on SEMAPHORE # cycles n \<or>
        x # ops = Act Incr # Act Store # Signal_on SEMAPHORE # cycles n \<or>
        x # ops = Act Store # Signal_on SEMAPHORE # cycles n \<or> x # ops = Signal_on SEMAPHORE # cycles n"
    unfolding counter_tail_iff by blast
  from n c [of n] show "counter_tail ops" unfolding counter_tail_iff by auto
  from n c [of n] show "x = Wait_on k \<Longrightarrow> k = SEMAPHORE \<and> (\<exists>r. ops = Act Load # r)" by auto
  from n c [of n] show "x = Act Load \<Longrightarrow> \<exists>r. ops = Act Incr # r" "x = Act Incr \<Longrightarrow> \<exists>r. ops = Act Store # r" by auto
  from n c [of n] show "x = Signal_on k \<or> x = Act Store \<Longrightarrow> (\<nexists>r. ops = Act Incr # r \<or> ops = Act Store # r)" by auto
  from n c [of n] o show "x = Act a \<Longrightarrow> owes SEMAPHORE (x # ops) = 1" by (auto simp del: owes_append)
qed

definition stores_left :: "ProcessId set \<Rightarrow> (counter_act, 'm, 'l) group \<Rightarrow> nat" where
  "stores_left T s = (\<Sum>i\<in>T. count_list (g_prog s i) (Act Store))"

definition counter_inv :: "ProcessId set \<Rightarrow> (counter_act, isize, isize) group \<Rightarrow> bool" where
  "counter_inv T s \<longleftrightarrow>
     order_inv T {SEMAPHORE} (2 ^ 48 + 1) s \<and> (\<forall>i. counter_tail (g_prog s i)) \<and>
     (\<forall>i \<in> g_blocked s. \<exists>ops. g_prog s i = Act Load # ops) \<and>
     (\<forall>i ops. g_prog s i = Act Incr # ops \<longrightarrow> g_local s i = g_mem s) \<and>
     (\<forall>i ops. g_prog s i = Act Store # ops \<longrightarrow> g_local s i = g_mem s + 1) \<and>
     g_mem s + of_nat (stores_left T s) = of_nat (100 * card T)"

lemma counter_step_sem:
  assumes inv: "counter_inv T s" and step: "thread_step run_counter_act i s = Some s'" and sem: "g_mem s' = g_mem s" "g_local s' = g_local s"
    and prog: "i \<notin> g_blocked s" "g_prog s i = op # ops" "g_prog s' = (g_prog s)(i := ops)" "op = Wait_on k \<or> op = Signal_on k"
    and b: "g_blocked s' \<subseteq> (if op = Wait_on k then insert i (g_blocked s) else g_blocked s)"
  shows "counter_inv T s'"
proof -
  from inv have o: "order_inv T {SEMAPHORE} (2 ^ 48 + 1) s" and tails: "\<And>i. counter_tail (g_prog s i)"
    and bl: "\<And>i. i \<in> g_blocked s \<Longrightarrow> \<exists>ops. g_prog s i = Act Load # ops"
    and li: "\<And>i ops. g_prog s i = Act Incr # ops \<Longrightarrow> g_local s i = g_mem s"
    and ls: "\<And>i ops. g_prog s i = Act Store # ops \<Longrightarrow> g_local s i = g_mem s + 1"
    and m: "g_mem s + of_nat (stores_left T s) = of_nat (100 * card T)"
    unfolding counter_inv_def by blast+
  note t = counter_tail_Cons [OF tails [of i, unfolded prog(2)]]
  have heads: "\<nexists>r. ops = Act Incr # r \<or> ops = Act Store # r" using t(2,5) prog(4) by auto
  have "\<exists>ops. g_prog s' j = Act Load # ops" if "j \<in> g_blocked s'" for j
    using that b bl [of j] prog(1,3) t(2) [of k] by (auto split: if_splits)
  moreover have "stores_left T s' = stores_left T s"
    using prog by (auto simp: stores_left_def intro!: sum.cong)
  moreover have "counter_tail (g_prog s' j)" for j using tails [of j] t(1) prog(3) by simp
  moreover have "g_local s' j = g_mem s'" if "g_prog s' j = Act Incr # r" for j r using that li [of j r] sem heads prog(3) by (auto split: if_splits)
  moreover have "g_local s' j = g_mem s' + 1" if "g_prog s' j = Act Store # r" for j r using that ls [of j r] sem heads prog(3) by (auto split: if_splits)
  ultimately show ?thesis using order_inv_step [OF o step] m sem unfolding counter_inv_def by auto
qed

lemma counter_step_act:
  assumes inv: "counter_inv T s" and step: "thread_step run_counter_act i s = Some s'" and iT: "i \<in> T"
    and prog: "i \<notin> g_blocked s" "g_prog s i = Act a # ops" "g_prog s' = (g_prog s)(i := ops)" "g_blocked s' = g_blocked s"
    and act: "(g_mem s', g_local s' i) = run_counter_act a (g_mem s) (g_local s i)" "\<And>j. j \<noteq> i \<Longrightarrow> g_local s' j = g_local s j"
  shows "counter_inv T s'"
proof -
  from inv have o: "order_inv T {SEMAPHORE} (2 ^ 48 + 1) s" and tails: "\<And>i. counter_tail (g_prog s i)"
    and bl: "\<And>i. i \<in> g_blocked s \<Longrightarrow> \<exists>ops. g_prog s i = Act Load # ops"
    and li: "\<And>i ops. g_prog s i = Act Incr # ops \<Longrightarrow> g_local s i = g_mem s"
    and ls: "\<And>i ops. g_prog s i = Act Store # ops \<Longrightarrow> g_local s i = g_mem s + 1"
    and m: "g_mem s + of_nat (stores_left T s) = of_nat (100 * card T)"
    unfolding counter_inv_def by blast+
  have g: "finite T" "\<And>j. j \<notin> T \<Longrightarrow> g_prog s j = []" using o by (auto simp: order_inv_def group_inv_def)
  note t = counter_tail_Cons [OF tails [of i, unfolded prog(2)]]
  have alone: False if "j \<noteq> i" "g_prog s j = Act b # r" "b \<noteq> Load" for j b r
  proof (rule order_inv_mutex [OF o, of SEMAPHORE i j])
    show "0 < owes SEMAPHORE (g_prog s i)" "0 < owes SEMAPHORE (g_prog s j)"
      using t(6) [OF refl] counter_tail_Cons(6) [OF tails [of j, unfolded that(2)] refl] prog(2) that(2) by simp_all
    show "j \<notin> g_blocked s" using bl [of j] that(2,3) by auto
    show "j \<in> T" using g(2) [of j] that(2) by auto
  qed (use that iT prog in auto)
  have left: "stores_left T s = stores_left T s' + of_bool (a = Store)"
    unfolding stores_left_def by (rule sum_change_nat [OF g(1) iT]) (use prog in auto)
  have "g_local s' j = g_mem s'" if "g_prog s' j = Act Incr # r" for j r
    using that alone [of j Incr r] t(3-5) act(1) prog(3) by (cases a) (auto split: if_splits)
  moreover have "g_local s' j = g_mem s' + 1" if "g_prog s' j = Act Store # r" for j r
    using that alone [of j Store r] t(3-5) act(1) prog(2,3) li [of i] by (cases a) (auto split: if_splits)
  moreover have "g_mem s' + of_nat (stores_left T s') = of_nat (100 * card T)"
    using m left act(1) ls [of i ops] prog(2) by (cases a) (auto simp: algebra_simps)
  moreover have "counter_tail (g_prog s' j)" for j using tails [of j] t(1) prog(3) by simp
  moreover have "\<exists>ops. g_prog s' j = Act Load # ops" if "j \<in> g_blocked s'" for j using that bl [of j] prog by auto
  ultimately show ?thesis using order_inv_step [OF o step] unfolding counter_inv_def by auto
qed

lemma counter_inv_step:
  assumes inv: "counter_inv T s" and step: "thread_step run_counter_act i s = Some s'"
  shows "counter_inv T s'"
proof -
  have o: "order_inv T {SEMAPHORE} (2 ^ 48 + 1) s" using inv by (simp add: counter_inv_def)
  then have g: "group_inv T (\<lambda>k. if k \<in> {SEMAPHORE} then Some 1 else None) (2 ^ 48 + 1) s" by (simp add: order_inv_def)
  from step group_inv_touched [OF g] show ?thesis
  proof (cases rule: thread_step_cases)
    case (Act a ops)
    have "i \<in> T" using group_invD(4) [OF g, of i] Act(2) by auto
    from counter_step_act [OF inv step this Act(1,2,5,4,6,7)] show ?thesis .
  next
    case (Sem op ops k sem sem')
    have "g_blocked s' \<subseteq> (if op = Wait_on k then insert i (g_blocked s) else g_blocked s)"
      using Sem(10) by (rule sem_effect_cases) auto
    from counter_step_sem [OF inv step Sem(4,5,1,2,3,6) this] show ?thesis .
  qed
qed

lemma counter_inv_start:
  assumes "distinct pids" and "length pids = THREAD_COUNT"
  shows "counter_inv (set pids) (counter_group pids)"
proof -
  have stores: "count_list (cycles n) (Act Store) = n" for n by (induction n) (simp_all add: counter_cycle_def inc_counter_def)
  have p: "g_prog (counter_group pids) i = (if i \<in> set pids then cycles 100 else [])" for i
  proof (cases "i \<in> set pids")
    case True
    then obtain n where "n < length pids" "i = pids ! n" by (auto simp: in_set_conv_nth)
    with True counter.prog_thread(2) [OF assms(1)] show ?thesis by (simp add: counter_group_def do_counter_inc_cycles)
  next
    case False
    with counter.prog_thread(1) [OF assms(1)] show ?thesis by (simp add: counter_group_def)
  qed
  have "[] = cycles 0" by simp
  then have t: "counter_tail (g_prog (counter_group pids) i)" for i unfolding p counter_tail_iff by metis
  have "cycles n \<noteq> Act a # r" for n a r by (cases n) (simp_all add: counter_cycle_def)
  note h = this [of 100]
  have "stores_left (set pids) (counter_group pids) = 100 * card (set pids)"
    unfolding stores_left_def p by (simp add: stores)
  then show ?thesis
    using counter.start_inv [OF assms, of 0 0] t h unfolding counter_inv_def p
    by (simp add: counter_group_def start_group_def)
qed

text \<open>C25. The shared counter loses no increment: in every interleaving of the eight threads of \<^verbatim>\<open>counter\<close>
  at most one of them is inside the critical section, a group in which nobody can take a step any more has
  counted to 800, and every partial run can be completed. The children are any eight processes.\<close>

theorem counter_counts_every_increment:
  assumes "distinct pids" and "length pids = THREAD_COUNT"
    and "s = run_group run_counter_act sched (counter_group pids)"
  shows "((\<forall>i \<in> set pids. thread_step run_counter_act i s = None) \<longrightarrow> g_mem s = 800) \<and>
    (\<exists>rest. \<forall>i. g_prog (run_group run_counter_act rest s) i = []) \<and>
    (\<forall>i \<in> set pids. \<forall>j \<in> set pids. i \<notin> g_blocked s \<longrightarrow> j \<notin> g_blocked s \<longrightarrow>
       0 < owes SEMAPHORE (g_prog s i) \<longrightarrow> 0 < owes SEMAPHORE (g_prog s j) \<longrightarrow> i = j)"
proof -
  have inv: "counter_inv (set pids) s"
    unfolding assms(3) by (rule run_group_inv [of "counter_inv (set pids)", OF counter_inv_start [OF assms(1,2)]]) (rule counter_inv_step)
  have "g_mem s = 800" if "\<forall>i \<in> set pids. thread_step run_counter_act i s = None"
  proof -
    have "\<forall>i. g_prog s i = []"
      by (rule counter.never_deadlocks [OF assms(1,2) assms(3) [unfolded counter_group_def] that])
    then have "stores_left (set pids) s = 0" by (simp add: stores_left_def)
    moreover have "card (set pids) = 8" using assms(1,2) by (simp add: distinct_card THREAD_COUNT_def)
    ultimately show ?thesis using inv by (simp add: counter_inv_def)
  qed
  moreover have "\<exists>rest. \<forall>i. g_prog (run_group run_counter_act rest s) i = []"
    using counter.completes [OF assms(1,2), of sched 0 0] unfolding assms(3) counter_group_def by (simp add: run_group_append)
  moreover have "i = j" if "i \<in> set pids" "j \<in> set pids" "i \<notin> g_blocked s" "j \<notin> g_blocked s"
      "0 < owes SEMAPHORE (g_prog s i)" "0 < owes SEMAPHORE (g_prog s j)" for i j
    using order_inv_mutex [of "set pids" "{SEMAPHORE}" "2 ^ 48 + 1" s SEMAPHORE i j] inv that by (auto simp: counter_inv_def)
  ultimately show ?thesis by blast
qed

theorem counter_counts_every_increment_witness:
  "let pids = map ProcessId [3, 4, 5, 6, 7, 8, 9, 10]
   in distinct pids \<and> length pids = THREAD_COUNT \<and>
      (\<exists>rest. \<forall>i. g_prog (run_group run_counter_act rest (run_group run_counter_act (take 3 pids) (counter_group pids))) i = [])"
proof -
  let ?pids = "map ProcessId [3, 4, 5, 6, 7, 8, 9, 10]"
  have *: "distinct ?pids" "length ?pids = THREAD_COUNT" by (simp_all add: THREAD_COUNT_def)
  from * counter_counts_every_increment [OF * refl, of "take 3 ?pids"] show ?thesis unfolding Let_def by blast
qed

section \<open>Deadlocks of the philosophers\<close>

text \<open>All five chopsticks taken by the left neighbour: each philosopher of the first program takes one
  turn, then sleeps, then asks for the right one.\<close>

lemma xor_swap [code]: "xor_swap a b = (b, a)"
  unfolding xor_swap_def Let_def by (auto intro!: bit_eqI simp: bit_xor_iff)

definition seats :: "ProcessId list" where
  "seats = map ProcessId [3, 4, 5, 6, 7]"

definition turns :: "nat \<Rightarrow> ProcessId list \<Rightarrow> ProcessId list" where
  "turns n ps = concat (map (replicate n) ps)"

text \<open>The first two programs of the philosophers can deadlock. For \<^verbatim>\<open>philosopher2\<close> the comment of the
  source promises the opposite: its swap is inside the loop, so that an even philosopher takes its chopsticks
  in the other order in every other round. In the schedule below the even philosophers eat once, and then
  everybody takes the left chopstick and waits for the right one.\<close>

theorem philosophers_deadlock:
  "(\<exists>sched. deadlocked (run_group run_dinner_act sched (dinner_group philosopher1 seats)) seats) \<and>
   (\<exists>sched. deadlocked (run_group run_dinner_act sched (dinner_group philosopher2 seats)) seats)"
proof
  have "deadlocked (run_group run_dinner_act (turns 3 seats @ seats) (dinner_group philosopher1 seats)) seats" by code_simp
  then show "\<exists>sched. deadlocked (run_group run_dinner_act sched (dinner_group philosopher1 seats)) seats" by blast
  have "deadlocked (run_group run_dinner_act (turns 12 [ProcessId 3, ProcessId 5, ProcessId 7] @ turns 3 seats @ seats)
    (dinner_group philosopher2 seats)) seats" by code_simp
  then show "\<exists>sched. deadlocked (run_group run_dinner_act sched (dinner_group philosopher2 seats)) seats" by blast
qed

section \<open>The ordered philosophers\<close>

definition low :: "nat \<Rightarrow> nat" where
  "low i = min i ((i + 1) mod PHI_SIZE)"

definition high :: "nat \<Rightarrow> nat" where
  "high i = max i ((i + 1) mod PHI_SIZE)"

lemma philosopher3_loop:
  "a \<le> b \<Longrightarrow> philosopher3_loop n i a b = concat (replicate n (philosopher3_round i a b))"
  by (induction n) (simp_all add: Let_def)

lemma philosopher3_rounds:
  "philosopher3 i = concat (replicate 10 (philosopher3_round i (low i) (high i)))"
proof -
  have "philosopher3_loop (Suc n) i a b = concat (replicate (Suc n) (philosopher3_round i (min a b) (max a b)))" for n a b
    by (simp add: philosopher3_loop xor_swap min_def max_def)
  from this [of 9] show ?thesis by (simp add: philosopher3_def low_def high_def)
qed

lemma low_high: "i < PHI_SIZE \<Longrightarrow> low i < high i \<and> high i < PHI_SIZE"
  by (auto simp: low_def high_def PHI_SIZE_def min_def max_def mod_Suc)

lemma CHOPSTICK_nth: "i < PHI_SIZE \<Longrightarrow> CHOPSTICK ! i = of_nat i"
  by (auto simp: PHI_SIZE_def CHOPSTICK_def less_Suc_eq numeral_eq_Suc)

lemma CHOPSTICK_mem: "i < PHI_SIZE \<Longrightarrow> CHOPSTICK ! i \<in> set CHOPSTICK"
  by (rule nth_mem) (simp add: PHI_SIZE_def CHOPSTICK_def)

lemma philosopher3_round_balanced:
  assumes "a < b" and "b < PHI_SIZE"
  shows "balanced (philosopher3_round i a b)"
proof -
  have "CHOPSTICK ! a = of_nat a" "CHOPSTICK ! b = of_nat b" using assms by (auto intro!: CHOPSTICK_nth)
  moreover have "(of_nat a :: u32) < of_nat b"
    using assms by (simp add: word_less_nat_alt unat_of_nat PHI_SIZE_def)
  ultimately show ?thesis by (auto simp: balanced_def philosopher3_round_def)
qed

interpretation dinner3: ordered_group run_dinner_act CHOPSTICK philosopher3 PHI_SIZE
proof
  fix i assume i: "i < PHI_SIZE"
  then have lh: "low i < high i" "high i < PHI_SIZE" "low i < PHI_SIZE" using low_high [OF i] by auto
  show "balanced (philosopher3 i)"
    unfolding philosopher3_rounds by (rule balanced_repeat [OF philosopher3_round_balanced [OF lh(1,2)]])
  have "CHOPSTICK ! low i \<in> set CHOPSTICK" "CHOPSTICK ! high i \<in> set CHOPSTICK"
    using lh by (simp_all add: CHOPSTICK_mem)
  then show "keys_of (philosopher3 i) \<subseteq> set CHOPSTICK"
    unfolding philosopher3_rounds by (intro order_trans [OF keys_of_repeat]) (auto simp: philosopher3_round_def)
  show "length (philosopher3 i) < 2 ^ 32"
    unfolding philosopher3_rounds by (simp add: philosopher3_round_def length_concat sum_list_replicate)
qed (simp add: PHI_SIZE_def)

text \<open>Philosopher \<open>n\<close> has eaten as often as its remaining program says.\<close>

definition meals_inv :: "ProcessId list \<Rightarrow> (dinner_act, u32 list, unit) group \<Rightarrow> bool" where
  "meals_inv pids s \<longleftrightarrow>
     length (g_mem s) = PHI_SIZE \<and> (\<forall>i. i \<notin> set pids \<longrightarrow> g_prog s i = []) \<and>
     (\<forall>n < PHI_SIZE. (\<forall>m. Act (Eat m) \<in> set (g_prog s (pids ! n)) \<longrightarrow> m = n) \<and>
        g_mem s ! n + of_nat (count_list (g_prog s (pids ! n)) (Act (Eat n))) = 10)"

lemma meals_inv_step:
  assumes inv: "meals_inv pids s" and step: "thread_step run_dinner_act i s = Some s'"
    and pids: "distinct pids" "length pids = PHI_SIZE"
  shows "meals_inv pids s'"
proof -
  obtain op ops where p: "g_prog s i = op # ops" "g_prog s' = (g_prog s)(i := ops)"
      "g_mem s' = (case op of Act a \<Rightarrow> fst (run_dinner_act a (g_mem s) (g_local s i)) | _ \<Rightarrow> g_mem s)"
    using thread_step_mem [OF step] by auto
  have "i \<in> set pids" using inv p(1) unfolding meals_inv_def by (metis list.discI)
  then obtain m where m: "m < PHI_SIZE" "i = pids ! m" using pids(2) by (auto simp: in_set_conv_nth)
  have eq: "pids ! n = pids ! m \<longleftrightarrow> n = m" if "n < PHI_SIZE" for n using nth_eq_iff_index_eq [OF pids(1)] pids(2) m(1) that by simp
  have mem: "g_mem s' = (if op = Act (Eat m) then (g_mem s)[m := g_mem s ! m + 1] else g_mem s)"
  proof (cases "\<exists>k. op = Act (Eat k)")
    case True
    then obtain k where k: "op = Act (Eat k)" by auto
    then have "k = m" using inv m p(1) unfolding meals_inv_def by simp
    with k p(3) show ?thesis by simp
  next
    case False
    then have "g_mem s' = g_mem s" using p(3) by (cases op; simp; rename_tac a; case_tac a) auto
    with False show ?thesis by auto
  qed
  have "Act (Eat k) \<in> set (g_prog s' (pids ! n)) \<longrightarrow> k = n" if "n < PHI_SIZE" for n k
    using inv m p(1,2) that eq [OF that] unfolding meals_inv_def by (auto split: if_splits)
  moreover have "g_mem s' ! n + of_nat (count_list (g_prog s' (pids ! n)) (Act (Eat n))) = 10" if n: "n < PHI_SIZE" for n
  proof -
    have old: "g_mem s ! n + of_nat (count_list (g_prog s (pids ! n)) (Act (Eat n))) = 10" "length (g_mem s) = PHI_SIZE"
      using inv n unfolding meals_inv_def by auto
    then show ?thesis using m p(1,2) eq [OF n] mem n by (auto simp: algebra_simps)
  qed
  moreover have "length (g_mem s') = PHI_SIZE" "\<And>j. j \<notin> set pids \<Longrightarrow> g_prog s' j = []"
    using inv mem p(2) \<open>i \<in> set pids\<close> unfolding meals_inv_def by auto
  ultimately show ?thesis unfolding meals_inv_def by blast
qed

lemma meals_inv_start:
  assumes "distinct pids" "length pids = PHI_SIZE"
  shows "meals_inv pids (dinner_group philosopher3 pids)"
proof -
  have "count_list (philosopher3 n) (Act (Eat n)) = 10" for n
    unfolding philosopher3_rounds by (simp add: philosopher3_round_def numeral_eq_Suc)
  moreover have "m = n" if "Act (Eat m) \<in> set (philosopher3 n)" for n m
    using that unfolding philosopher3_rounds by (auto simp: philosopher3_round_def)
  ultimately show ?thesis
    using dinner3.prog_thread [OF assms(1), of _ "replicate PHI_SIZE 0" "()"] assms(2)
    unfolding meals_inv_def dinner_group_def by (simp add: start_group_def)
qed

text \<open>C26. The third program of the philosophers takes the chopsticks in increasing order, and that makes it
  free of deadlock: in every interleaving, as long as somebody has something left to do, somebody can take a
  step; when nobody can, all five have eaten ten times; and every partial run can be completed. A call of
  \<^verbatim>\<open>sleep\<close> counts as a turn that returns, which it does unless it runs across midnight.\<close>

theorem philosopher3_all_eat:
  assumes "distinct pids" and "length pids = PHI_SIZE"
    and "s = run_group run_dinner_act sched (dinner_group philosopher3 pids)"
  shows "((\<forall>i \<in> set pids. thread_step run_dinner_act i s = None) \<longrightarrow> g_mem s = replicate PHI_SIZE 10) \<and>
    (\<exists>rest. \<forall>i. g_prog (run_group run_dinner_act rest s) i = [])"
proof
  have inv: "meals_inv pids s"
    unfolding assms(3) by (rule run_group_inv [of "meals_inv pids", OF meals_inv_start [OF assms(1,2)]]) (rule meals_inv_step [OF _ _ assms(1,2)])
  show "(\<forall>i \<in> set pids. thread_step run_dinner_act i s = None) \<longrightarrow> g_mem s = replicate PHI_SIZE 10"
  proof
    assume "\<forall>i \<in> set pids. thread_step run_dinner_act i s = None"
    then have "\<forall>i. g_prog s i = []" by (rule dinner3.never_deadlocks [OF assms(1,2) assms(3) [unfolded dinner_group_def]])
    then show "g_mem s = replicate PHI_SIZE 10" using inv unfolding meals_inv_def by (intro nth_equalityI) auto
  qed
  show "\<exists>rest. \<forall>i. g_prog (run_group run_dinner_act rest s) i = []"
    using dinner3.completes [OF assms(1,2), of sched "replicate PHI_SIZE 0" "()"]
    unfolding assms(3) dinner_group_def by (simp add: run_group_append)
qed

theorem philosopher3_all_eat_witness:
  "distinct seats \<and> length seats = PHI_SIZE \<and>
   (\<exists>rest. \<forall>i. g_prog (run_group run_dinner_act rest (run_group run_dinner_act seats (dinner_group philosopher3 seats))) i = [])"
proof -
  have *: "distinct seats" "length seats = PHI_SIZE" by (simp_all add: seats_def PHI_SIZE_def)
  from * philosopher3_all_eat [OF * refl, of seats] show ?thesis by blast
qed

end
