(* ===== verification/Devices.thy ===== *)
theory Devices
  imports Frames
begin

text \<open>
  The device drivers of the kernel: interrupt vectors (\<^verbatim>\<open>interrupt/consts.rs\<close>), the serial port
  (\<^verbatim>\<open>drivers/uart16550.rs\<close>), the I/O APIC (\<^verbatim>\<open>interrupt/apic/ioapic.rs\<close>) and the local APIC
  (\<^verbatim>\<open>interrupt/apic/xapic.rs\<close>). The hardware is a parameter: a bus whose reads and writes act on the
  device state. What the drivers rely on is stated as the predicates \<open>uart_spec\<close>, \<open>ioapic_spec\<close> and
  \<open>lapic_spec\<close>, from the data sheets that the sources refer to.
\<close>

record ('a, 'v, 'd) bus =
  bus_read :: "'d \<Rightarrow> 'a \<Rightarrow> 'v \<times> 'd"
  bus_write :: "'d \<Rightarrow> 'a \<Rightarrow> 'v \<Rightarrow> 'd"

section \<open>Vectors\<close>

datatype Interrupts =
    DivideError | Debug | NonMaskableInterrupt | Breakpoint | Overflow | BoundRangeExceeded
  | InvalidOpcode | DeviceNotAvailable | DoubleFault | CoprocessorSegmentOverrun | InvalidTSS
  | SegmentNotPresent | StackSegmentFault | GeneralProtectionFault | PageFault
  | FloatingPointException | AlignmentCheck | MachineCheck | SIMDFloatingPointException
  | VirtualizationException | SecurityException | IrqBase | SyscallInt

fun interrupt_number :: "Interrupts \<Rightarrow> u8" where
  "interrupt_number DivideError = 0"
| "interrupt_number Debug = 1"
| "interrupt_number NonMaskableInterrupt = 2"
| "interrupt_number Breakpoint = 3"
| "interrupt_number Overflow = 4"
| "interrupt_number BoundRangeExceeded = 5"
| "interrupt_number InvalidOpcode = 6"
| "interrupt_number DeviceNotAvailable = 7"
| "interrupt_number DoubleFault = 8"
| "interrupt_number CoprocessorSegmentOverrun = 9"
| "interrupt_number InvalidTSS = 10"
| "interrupt_number SegmentNotPresent = 11"
| "interrupt_number StackSegmentFault = 12"
| "interrupt_number GeneralProtectionFault = 13"
| "interrupt_number PageFault = 14"
| "interrupt_number FloatingPointException = 16"
| "interrupt_number AlignmentCheck = 17"
| "interrupt_number MachineCheck = 18"
| "interrupt_number SIMDFloatingPointException = 19"
| "interrupt_number VirtualizationException = 20"
| "interrupt_number SecurityException = 30"
| "interrupt_number IrqBase = 0x20"
| "interrupt_number SyscallInt = 0x80"

datatype Irq =
    Timer | Keyboard | Serial1 | Serial0 | Floppy | Parallel | RealTimeClock | Ide0 | Ide1 | ErrorIrq | Spurious

fun irq_number :: "Irq \<Rightarrow> u8" where
  "irq_number Timer = 0"
| "irq_number Keyboard = 1"
| "irq_number Serial1 = 3"
| "irq_number Serial0 = 4"
| "irq_number Floppy = 6"
| "irq_number Parallel = 7"
| "irq_number RealTimeClock = 8"
| "irq_number Ide0 = 14"
| "irq_number Ide1 = 15"
| "irq_number ErrorIrq = 19"
| "irq_number Spurious = 31"

definition irq_vector :: "Irq \<Rightarrow> u8" where
  "irq_vector i = interrupt_number IrqBase + irq_number i"

section \<open>The serial port\<close>

definition PORT :: u16 where
  "PORT = 0x3f8"

record SerialPort =
  sp_data :: u16
  interrupt_enable :: u16
  fifo_ctrl :: u16
  line_ctrl :: u16
  modem_ctrl :: u16
  line_status :: u16

text \<open>The argument is not used: the ports always start at \<^term>\<open>PORT\<close>.\<close>

definition SerialPort_new :: "u16 \<Rightarrow> SerialPort" where
  "SerialPort_new port =
     \<lparr>sp_data = PORT, interrupt_enable = PORT + 1, fifo_ctrl = PORT + 2,
      line_ctrl = PORT + 3, modem_ctrl = PORT + 4, line_status = PORT + 5\<rparr>"

definition SerialPort_init :: "(u16, u8, 'd) bus \<Rightarrow> SerialPort \<Rightarrow> 'd \<Rightarrow> (string + unit) \<times> 'd" where
  "SerialPort_init b sp d =
     (let d = bus_write b d (interrupt_enable sp) 0x00;
          d = bus_write b d (line_ctrl sp) 0x80;
          d = bus_write b d (sp_data sp) 0x03;
          d = bus_write b d (interrupt_enable sp) 0x00;
          d = bus_write b d (line_ctrl sp) 0x03;
          d = bus_write b d (fifo_ctrl sp) 0xC7;
          d = bus_write b d (modem_ctrl sp) 0x0B;
          d = bus_write b d (modem_ctrl sp) 0x1E;
          d = bus_write b d (sp_data sp) 0xAE;
          (v, d) = bus_read b d (sp_data sp)
      in if v \<noteq> 0xAE then (Inl ''Serial port faulty'', d)
         else let d = bus_write b d (modem_ctrl sp) 0x0F;
                  d = bus_write b d (interrupt_enable sp) 0x01
              in (Inr (), d))"

text \<open>The polling loop of \<^verbatim>\<open>send\<close> runs until the transmitter is empty, possibly forever.\<close>

partial_function (option) wait_transmit :: "(u16, u8, 'd) bus \<Rightarrow> SerialPort \<Rightarrow> 'd \<Rightarrow> 'd option" where
  "wait_transmit b sp d =
     (let (v, d') = bus_read b d (line_status sp)
      in if v AND 0x20 = 0 then wait_transmit b sp d' else Some d')"

definition SerialPort_send :: "(u16, u8, 'd) bus \<Rightarrow> SerialPort \<Rightarrow> u8 \<Rightarrow> 'd \<Rightarrow> 'd option" where
  "SerialPort_send b sp data d =
     (case wait_transmit b sp d of None \<Rightarrow> None | Some d \<Rightarrow> Some (bus_write b d (sp_data sp) data))"

definition SerialPort_receive :: "(u16, u8, 'd) bus \<Rightarrow> SerialPort \<Rightarrow> 'd \<Rightarrow> u8 option \<times> 'd" where
  "SerialPort_receive b sp d =
     (let (v, d) = bus_read b d (line_status sp)
      in if v AND 1 \<noteq> 0 then (let (x, d) = bus_read b d (sp_data sp) in (Some x, d)) else (None, d))"

fun SerialPort_write_str :: "(u16, u8, 'd) bus \<Rightarrow> SerialPort \<Rightarrow> u8 list \<Rightarrow> 'd \<Rightarrow> 'd option" where
  "SerialPort_write_str b sp [] d = Some d"
| "SerialPort_write_str b sp (byte # bytes) d =
     (case SerialPort_send b sp byte d of None \<Rightarrow> None | Some d \<Rightarrow> SerialPort_write_str b sp bytes d)"

definition SERIAL_IO_PORT :: u16 where
  "SERIAL_IO_PORT = 0x3F8"

text \<open>\<^verbatim>\<open>serial::init\<close>: the result of \<^verbatim>\<open>SerialPort::init\<close> is dropped; the banner, then the message, go out as
  text.\<close>

definition serial_init :: "(u16, u8, 'd) bus \<Rightarrow> u8 list \<Rightarrow> 'd \<Rightarrow> (SerialPort \<times> 'd) option" where
  "serial_init b banner d =
     (let sp = SerialPort_new SERIAL_IO_PORT; (_, d) = SerialPort_init b sp d
      in map_option (Pair sp) (SerialPort_write_str b sp banner d))"

section \<open>The I/O APIC\<close>

definition IOAPIC_ADDR :: u64 where
  "IOAPIC_ADDR = 0xFEC00000"

text \<open>The flags \<^verbatim>\<open>RedirectionEntry\<close>.\<close>

definition DISABLED :: u32 where
  "DISABLED = 0x00010000"

definition LEVEL :: u32 where
  "LEVEL = 0x00008000"

definition ACTIVELOW :: u32 where
  "ACTIVELOW = 0x00002000"

definition LOGICAL :: u32 where
  "LOGICAL = 0x00000800"

definition NONE :: u32 where
  "NONE = 0x00000000"

record IoApic =
  io_reg :: u64
  io_data :: u64

definition IoApic_new :: "u64 \<Rightarrow> IoApic" where
  "IoApic_new addr = \<lparr>io_reg = addr, io_data = addr + 0x10\<rparr>"

definition IoApic_read :: "(u64, u32, 'd) bus \<Rightarrow> IoApic \<Rightarrow> u8 \<Rightarrow> 'd \<Rightarrow> u32 \<times> 'd" where
  "IoApic_read b io reg d = (let d = bus_write b d (io_reg io) (ucast reg) in bus_read b d (io_data io))"

definition IoApic_write :: "(u64, u32, 'd) bus \<Rightarrow> IoApic \<Rightarrow> u8 \<Rightarrow> u32 \<Rightarrow> 'd \<Rightarrow> 'd" where
  "IoApic_write b io reg data d =
     (let d = bus_write b d (io_reg io) (ucast reg) in bus_write b d (io_data io) data)"

definition write_irq :: "(u64, u32, 'd) bus \<Rightarrow> IoApic \<Rightarrow> u8 \<Rightarrow> u32 \<Rightarrow> u8 \<Rightarrow> 'd \<Rightarrow> 'd" where
  "write_irq b io irq flags dest d =
     (let d = IoApic_write b io (0x10 + 2 * irq) (ucast (32 + irq) OR flags) d
      in IoApic_write b io (0x10 + 2 * irq + 1) (push_bit 24 (ucast dest)) d)"

definition IoApic_enable :: "(u64, u32, 'd) bus \<Rightarrow> IoApic \<Rightarrow> u8 \<Rightarrow> u8 \<Rightarrow> 'd \<Rightarrow> 'd" where
  "IoApic_enable b io irq cpuid d = write_irq b io irq NONE cpuid d"

definition IoApic_disable :: "(u64, u32, 'd) bus \<Rightarrow> IoApic \<Rightarrow> u8 \<Rightarrow> u8 \<Rightarrow> 'd \<Rightarrow> 'd" where
  "IoApic_disable b io irq cpuid d = write_irq b io irq DISABLED cpuid d"

text \<open>\<^verbatim>\<open>get_bits(lo..hi)\<close>\<close>

definition get_bits :: "nat \<Rightarrow> nat \<Rightarrow> 'a::len word \<Rightarrow> 'a word" where
  "get_bits lo hi w = take_bit (hi - lo) (drop_bit lo w)"

definition IoApic_id :: "(u64, u32, 'd) bus \<Rightarrow> IoApic \<Rightarrow> 'd \<Rightarrow> u8 \<times> 'd" where
  "IoApic_id b io d = (let (v, d) = IoApic_read b io 0x00 d in (ucast (get_bits 24 28 v), d))"

definition IoApic_version :: "(u64, u32, 'd) bus \<Rightarrow> IoApic \<Rightarrow> 'd \<Rightarrow> u8 \<times> 'd" where
  "IoApic_version b io d = (let (v, d) = IoApic_read b io 0x01 d in (ucast (get_bits 0 8 v), d))"

definition maxintr :: "(u64, u32, 'd) bus \<Rightarrow> IoApic \<Rightarrow> 'd \<Rightarrow> u8 \<times> 'd" where
  "maxintr b io d = (let (v, d) = IoApic_read b io 0x01 d in (ucast (get_bits 16 24 v), d))"

definition disable_all :: "(u64, u32, 'd) bus \<Rightarrow> IoApic \<Rightarrow> 'd \<Rightarrow> 'd" where
  "disable_all b io d =
     (let (m, d) = maxintr b io d
      in fold (\<lambda>i. write_irq b io (of_nat i) DISABLED 0) [0..<Suc (unat m)] d)"

section \<open>The local APIC\<close>

definition LAPIC_ADDR :: u64 where
  "LAPIC_ADDR = 0xFEE00000"

record XApic =
  apic_addr :: u64

definition XApic_new :: "u64 \<Rightarrow> XApic" where
  "XApic_new addr = \<lparr>apic_addr = addr\<rparr>"

definition XApic_read :: "(u64, u32, 'd) bus \<Rightarrow> XApic \<Rightarrow> u32 \<Rightarrow> 'd \<Rightarrow> u32 \<times> 'd" where
  "XApic_read b a reg d = bus_read b d (apic_addr a + ucast reg)"

definition XApic_write :: "(u64, u32, 'd) bus \<Rightarrow> XApic \<Rightarrow> u32 \<Rightarrow> u32 \<Rightarrow> 'd \<Rightarrow> 'd" where
  "XApic_write b a reg value d =
     (let d = bus_write b d (apic_addr a + ucast reg) value in snd (XApic_read b a 0x20 d))"

text \<open>\<^verbatim>\<open>support\<close>: the feature information of \<^verbatim>\<open>cpuid\<close>, when there is one, says whether there is an APIC.\<close>

definition XApic_support :: "bool option \<Rightarrow> bool" where
  "XApic_support has_apic = (case has_apic of None \<Rightarrow> False | Some f \<Rightarrow> f)"

definition BCAST :: u32 where
  "BCAST = push_bit 19 1"

definition INIT :: u32 where
  "INIT = push_bit 8 5"

definition TMLV :: u32 where
  "TMLV = push_bit 15 1"

definition DS :: u32 where
  "DS = push_bit 12 1"

partial_function (option) wait_delivery :: "(u64, u32, 'd) bus \<Rightarrow> XApic \<Rightarrow> 'd \<Rightarrow> 'd option" where
  "wait_delivery b a d =
     (let (v, d') = XApic_read b a 0x300 d
      in if v AND DS \<noteq> 0 then wait_delivery b a d' else Some d')"

definition cpu_init :: "(u64, u32, 'd) bus \<Rightarrow> XApic \<Rightarrow> 'd \<Rightarrow> 'd option" where
  "cpu_init b a d =
     (let (spiv, d) = XApic_read b a 0xF0 d;
          spiv = spiv OR push_bit 8 1;
          spiv = spiv AND NOT 0xFF;
          spiv = spiv OR (ucast (interrupt_number IrqBase) + ucast (irq_number Spurious));
          d = XApic_write b a 0xF0 spiv d;
          d = XApic_write b a 0x3E0 11 d;
          d = XApic_write b a 0x380 0x20000 d;
          (lvt_timer, d) = XApic_read b a 0x320 d;
          lvt_timer = lvt_timer AND NOT 0xFF;
          lvt_timer = lvt_timer OR (ucast (interrupt_number IrqBase) + ucast (irq_number Timer));
          lvt_timer = lvt_timer AND NOT (push_bit 16 1);
          lvt_timer = lvt_timer OR push_bit 17 1;
          d = XApic_write b a 0x320 lvt_timer d;
          d = XApic_write b a 0x350 (push_bit 16 1) d;
          d = XApic_write b a 0x360 (push_bit 16 1) d;
          d = XApic_write b a 0x340 (push_bit 16 1) d;
          (lvt_error, d) = XApic_read b a 0x370 d;
          lvt_error = lvt_error AND NOT 0xFF;
          lvt_error = lvt_error OR (ucast (interrupt_number IrqBase) + ucast (irq_number Timer));
          d = XApic_write b a 0x370 lvt_error d;
          d = XApic_write b a 0x280 0 d;
          d = XApic_write b a 0x280 0 d;
          d = XApic_write b a 0x0B0 0 d;
          d = XApic_write b a 0x310 0 d;
          d = XApic_write b a 0x300 (BCAST OR INIT OR TMLV) d
      in case wait_delivery b a d of
           None \<Rightarrow> None
         | Some d \<Rightarrow> Some (XApic_write b a 0x080 0 d))"

definition XApic_id :: "(u64, u32, 'd) bus \<Rightarrow> XApic \<Rightarrow> 'd \<Rightarrow> u32 \<times> 'd" where
  "XApic_id b a d = (let (v, d) = XApic_read b a 0x0020 d in (drop_bit 24 v, d))"

definition XApic_version :: "(u64, u32, 'd) bus \<Rightarrow> XApic \<Rightarrow> 'd \<Rightarrow> u32 \<times> 'd" where
  "XApic_version b a d = XApic_read b a 0x0030 d"

definition icr :: "(u64, u32, 'd) bus \<Rightarrow> XApic \<Rightarrow> 'd \<Rightarrow> u64 \<times> 'd" where
  "icr b a d =
     (let (hi, d) = XApic_read b a 0x0310 d; (lo, d) = XApic_read b a 0x0300 d
      in (push_bit 32 (ucast hi) OR ucast lo, d))"

partial_function (option) wait_icr :: "(u64, u32, 'd) bus \<Rightarrow> XApic \<Rightarrow> 'd \<Rightarrow> 'd option" where
  "wait_icr b a d =
     (let (v, d') = XApic_read b a 0x0300 d in if bit v 12 then wait_icr b a d' else Some d')"

definition set_icr :: "(u64, u32, 'd) bus \<Rightarrow> XApic \<Rightarrow> u64 \<Rightarrow> 'd \<Rightarrow> 'd option" where
  "set_icr b a value d =
     (case wait_icr b a d of
        None \<Rightarrow> None
      | Some d \<Rightarrow>
          (let d = XApic_write b a 0x0310 (ucast (drop_bit 32 value)) d;
               d = XApic_write b a 0x0300 (ucast value) d
           in wait_icr b a d))"

definition eoi :: "(u64, u32, 'd) bus \<Rightarrow> XApic \<Rightarrow> 'd \<Rightarrow> 'd" where
  "eoi b a d = XApic_write b a 0x00B0 0 d"

section \<open>The local APIC on the documented hardware\<close>

text \<open>The registers of the local APIC that the driver uses: reads return the register, writes to the plain
  registers set it, writes to a command register change no other register, and the delivery status of the
  interrupt command register clears after finitely many polls. Hardware that ignores writes to reserved bits is
  idealised to hardware that keeps them.\<close>

definition lapic_readable :: "u32 set" where
  "lapic_readable = {0x20, 0x30, 0xF0, 0x310, 0x320, 0x370}"

definition lapic_plain :: "u32 set" where
  "lapic_plain = {0x080, 0xF0, 0x310, 0x320, 0x340, 0x350, 0x360, 0x370, 0x380, 0x3E0}"

definition lapic_command :: "u32 set" where
  "lapic_command = {0xB0, 0x280, 0x300}"

lemmas lapic_sets = lapic_readable_def lapic_plain_def lapic_command_def

definition lapic_spec :: "(u64, u32, 'd) bus \<Rightarrow> u64 \<Rightarrow> ('d \<Rightarrow> u32 \<Rightarrow> u32) \<Rightarrow> ('d \<Rightarrow> nat) \<Rightarrow> bool" where
  "lapic_spec b base reg pend \<longleftrightarrow>
     (\<forall>d r. r \<in> lapic_readable \<longrightarrow>
        fst (bus_read b d (base + ucast r)) = reg d r \<and> reg (snd (bus_read b d (base + ucast r))) = reg d) \<and>
     (\<forall>d. reg (snd (bus_read b d (base + 0x300))) = reg d \<and> (bit (fst (bus_read b d (base + 0x300))) 12 \<longleftrightarrow> pend d \<noteq> 0) \<and>
        pend (snd (bus_read b d (base + 0x300))) = pend d - 1) \<and>
     (\<forall>d r v. r \<in> lapic_plain \<longrightarrow>
        reg (bus_write b d (base + ucast r) v) = (reg d)(r := v)) \<and>
     (\<forall>d r v r'. r \<in> lapic_command \<longrightarrow> r' \<noteq> r \<longrightarrow> reg (bus_write b d (base + ucast r) v) r' = reg d r')"

lemma lapic_read:
  assumes "lapic_spec b (apic_addr a) reg pend"
  shows "r \<in> lapic_readable \<Longrightarrow> fst (XApic_read b a r d) = reg d r"
    "r \<in> lapic_readable \<Longrightarrow> reg (snd (XApic_read b a r d)) = reg d"
  using assms unfolding lapic_spec_def XApic_read_def by blast+

lemma lapic_write:
  assumes "lapic_spec b (apic_addr a) reg pend"
  shows "r \<in> lapic_plain \<Longrightarrow>
      reg (XApic_write b a r v d) = (reg d)(r := v)"
    "r \<in> lapic_command \<Longrightarrow> r' \<noteq> r \<Longrightarrow> reg (XApic_write b a r v d) r' = reg d r'"
proof -
  have *: "reg (XApic_write b a r v d) = reg (bus_write b d (apic_addr a + ucast r) v)"
    using lapic_read(2) [OF assms, of "0x20"] by (simp add: XApic_write_def lapic_readable_def)
  then show "r \<in> lapic_plain \<Longrightarrow>
      reg (XApic_write b a r v d) = (reg d)(r := v)"
    using assms unfolding lapic_spec_def by metis
  show "r \<in> lapic_command \<Longrightarrow> r' \<noteq> r \<Longrightarrow> reg (XApic_write b a r v d) r' = reg d r'"
    using assms * unfolding lapic_spec_def by metis
qed

lemma bit_DS: "v AND DS \<noteq> 0 \<longleftrightarrow> bit (v :: u32) 12"
  unfolding DS_def by (simp add: bit_iff_and_push_bit_not_eq_0)

lemma wait_delivery_ends:
  assumes "lapic_spec b (apic_addr a) reg pend"
  shows "\<exists>d'. wait_delivery b a d = Some d' \<and> reg d' = reg d"
proof (induction "pend d" arbitrary: d)
  case 0
  have "bit (fst (XApic_read b a 0x300 d)) 12 \<longleftrightarrow> pend d \<noteq> 0" "reg (snd (XApic_read b a 0x300 d)) = reg d"
    using assms unfolding lapic_spec_def XApic_read_def by simp_all
  with 0 show ?case by (subst wait_delivery.simps) (simp add: bit_DS split_beta)
next
  case (Suc n)
  have "bit (fst (XApic_read b a 0x300 d)) 12 \<longleftrightarrow> pend d \<noteq> 0" "reg (snd (XApic_read b a 0x300 d)) = reg d"
      "pend (snd (XApic_read b a 0x300 d)) = pend d - 1"
    using assms unfolding lapic_spec_def XApic_read_def by simp_all
  with Suc(2) Suc(1) [of "snd (XApic_read b a 0x300 d)"] show ?case by (subst wait_delivery.simps) (simp add: bit_DS split_beta)
qed

lemma cpu_init_regs:
  assumes "lapic_spec b (apic_addr a) reg pend"
  shows "\<exists>d'. cpu_init b a d = Some d' \<and>
    reg d' 0xF0 = ((reg d 0xF0 OR 0x100) AND NOT 0xFF) OR 0x3F \<and>
    reg d' 0x320 = (((reg d 0x320 AND NOT 0xFF) OR 0x20) AND NOT 0x10000) OR 0x20000 \<and>
    reg d' 0x370 = (reg d 0x370 AND NOT 0xFF) OR 0x20 \<and>
    reg d' 0x350 = 0x10000 \<and> reg d' 0x360 = 0x10000 \<and> reg d' 0x340 = 0x10000 \<and>
    reg d' 0x3E0 = 11 \<and> reg d' 0x380 = 0x20000 \<and> reg d' 0x080 = 0 \<and> reg d' 0x20 = reg d 0x20"
proof -
  note [simp] = lapic_read [OF assms] lapic_write [OF assms]
  have w: "(\<exists>d'. (case wait_delivery b a d of None \<Rightarrow> None | Some d \<Rightarrow> Some (f d)) = Some d' \<and> P d') \<longleftrightarrow>
      (\<exists>d'. wait_delivery b a d = Some d' \<and> reg d' = reg d \<and> P (f d'))" for d f P
    using wait_delivery_ends [OF assms, of d] by auto
  have *: "(\<exists>d'. wait_delivery b a d = Some d' \<and> reg d' = reg d \<and> Q d')" if "\<And>d'. reg d' = reg d \<Longrightarrow> Q d'" for d Q
    using wait_delivery_ends [OF assms, of d] that by auto
  show ?thesis
    unfolding cpu_init_def Let_def split_beta w by (rule *) (simp add: push_bit_eq_mult lapic_sets)
qed

text \<open>C30. The local APIC after \<^verbatim>\<open>cpu_init\<close>, on every device with the documented registers (where reserved bits keep what is
  written to them): the call returns, the
  APIC is enabled with the spurious vector, the timer is periodic, unmasked and on the timer vector, both local
  interrupt lines and the performance counter are masked and all priorities are accepted. The error entry gets
  the timer vector as well, although the comment above it names the error interrupt.\<close>

theorem lapic_initialised:
  assumes "lapic_spec b (apic_addr a) reg pend"
  shows "\<exists>d'. cpu_init b a d = Some d' \<and>
    bit (reg d' 0xF0) 8 \<and> take_bit 8 (reg d' 0xF0) = ucast (irq_vector Spurious) \<and>
    take_bit 8 (reg d' 0x320) = ucast (irq_vector Timer) \<and> bit (reg d' 0x320) 17 \<and> \<not> bit (reg d' 0x320) 16 \<and>
    bit (reg d' 0x350) 16 \<and> bit (reg d' 0x360) 16 \<and> bit (reg d' 0x340) 16 \<and> reg d' 0x080 = 0 \<and>
    take_bit 8 (reg d' 0x370) = ucast (irq_vector Timer) \<and> irq_vector Timer \<noteq> irq_vector ErrorIrq"
proof -
  obtain d' where d': "cpu_init b a d = Some d'"
    "reg d' 0xF0 = ((reg d 0xF0 OR 0x100) AND NOT 0xFF) OR 0x3F"
    "reg d' 0x320 = (((reg d 0x320 AND NOT 0xFF) OR 0x20) AND NOT 0x10000) OR 0x20000"
    "reg d' 0x370 = (reg d 0x370 AND NOT 0xFF) OR 0x20"
    "reg d' 0x350 = 0x10000" "reg d' 0x360 = 0x10000" "reg d' 0x340 = 0x10000" "reg d' 0x080 = 0"
    using cpu_init_regs [OF assms, of d] by blast
  have vec: "take_bit 8 ((x AND NOT 0xFF) OR y) = take_bit 8 y" for x y :: u32
    by (simp add: take_bit_or take_bit_and)
  have "bit (reg d' 0xF0) 8" unfolding d' by (simp add: bit_simps)
  moreover have "bit (reg d' 0x320) 17" "\<not> bit (reg d' 0x320) 16" unfolding d' by (simp_all add: bit_simps)
  moreover have "take_bit 8 (reg d' 0x320) = 0x20" unfolding d' by (simp add: take_bit_or take_bit_and)
  ultimately show ?thesis using d' vec by (intro exI [of _ d']) (simp add: irq_vector_def)
qed

definition lapic_model :: "(u64, u32, u64 \<Rightarrow> u32) bus" where
  "lapic_model = \<lparr>bus_read = (\<lambda>d p. (if p = LAPIC_ADDR + 0x300 then d p AND NOT DS else d p, d)), bus_write = (\<lambda>d p v. d(p := v))\<rparr>"

theorem lapic_initialised_witness:
  "lapic_spec lapic_model (apic_addr (XApic_new LAPIC_ADDR)) (\<lambda>d r. d (LAPIC_ADDR + ucast r)) (\<lambda>_. 0) \<and>
   (\<exists>d'. cpu_init lapic_model (XApic_new LAPIC_ADDR) (\<lambda>_. 0) = Some d' \<and> d' (LAPIC_ADDR + 0x80) = 0)"
proof -
  have uc: "ucast (ucast r :: u64) = r" for r :: u32 by (simp add: ucast_up_ucast_id is_up)
  then have inj: "(ucast r :: u64) = ucast r' \<longleftrightarrow> r = r'" for r r' :: u32 by metis
  have *: "lapic_spec lapic_model (apic_addr (XApic_new LAPIC_ADDR)) (\<lambda>d r. d (LAPIC_ADDR + ucast r)) (\<lambda>_. 0)"
    unfolding lapic_spec_def lapic_model_def XApic_new_def
    by (auto simp: inj fun_eq_iff bit_simps DS_def lapic_sets)
  from * lapic_initialised [OF *, of "\<lambda>_. 0"] show ?thesis by auto
qed

section \<open>The I/O APIC on the documented hardware\<close>

text \<open>A register select port and a data window.\<close>

definition ioapic_spec :: "(u64, u32, 'd) bus \<Rightarrow> IoApic \<Rightarrow> ('d \<Rightarrow> u32) \<Rightarrow> ('d \<Rightarrow> u32 \<Rightarrow> u32) \<Rightarrow> bool" where
  "ioapic_spec b io sel tab \<longleftrightarrow>
     (\<forall>d v. sel (bus_write b d (io_reg io) v) = v \<and> tab (bus_write b d (io_reg io) v) = tab d) \<and>
     (\<forall>d v. 0x10 \<le> sel d \<longrightarrow> tab (bus_write b d (io_data io) v) = (tab d)(sel d := v)) \<and>
     (\<forall>d. fst (bus_read b d (io_data io)) = tab d (sel d) \<and> tab (snd (bus_read b d (io_data io))) = tab d)"

lemma unat_ucast_u8_u32: "unat (ucast (w :: u8) :: u32) = unat w"
  using unat_word_less_pow [of w] by (simp add: unsigned_ucast_eq take_bit_nat_eq_self_iff)

lemma ioapic_write:
  assumes "ioapic_spec b io sel tab" and "0x10 \<le> reg"
  shows "tab (IoApic_write b io reg v d) = (tab d)(ucast reg := v)"
proof -
  have "(0x10 :: u32) \<le> ucast reg" using assms(2) by (simp add: word_le_nat_alt unat_ucast_u8_u32)
  then show ?thesis using assms(1) unfolding ioapic_spec_def IoApic_write_def Let_def by simp
qed

lemma irq_register:
  fixes irq :: u8
  assumes "unat irq < 120"
  shows "unat (0x10 + 2 * irq) = 0x10 + 2 * unat irq" "unat (0x10 + 2 * irq + 1) = 0x11 + 2 * unat irq"
    "unat (32 + irq) = 32 + unat irq"
proof -
  have "unat (2 * irq) = 2 * unat irq" using assms by (simp add: unat_word_ariths)
  then show "unat (0x10 + 2 * irq) = 0x10 + 2 * unat irq" "unat (0x10 + 2 * irq + 1) = 0x11 + 2 * unat irq"
    "unat (32 + irq) = 32 + unat irq" using assms by (simp_all add: unat_word_ariths)
qed

lemma write_irq_entry:
  assumes "ioapic_spec b io sel tab" and "unat irq < 120"
  shows "tab (write_irq b io irq flags dest d) =
    (tab d)(of_nat (0x10 + 2 * unat irq) := of_nat (32 + unat irq) OR flags,
            of_nat (0x11 + 2 * unat irq) := push_bit 24 (ucast dest))"
proof -
  note r = irq_register [OF assms(2)]
  have le: "0x10 \<le> 0x10 + 2 * irq" "0x10 \<le> 0x10 + 2 * irq + 1" using r by (simp_all add: word_le_nat_alt)
  have u: "(ucast w :: u32) = of_nat (unat w)" for w :: u8 by simp
  show ?thesis
    unfolding write_irq_def Let_def ioapic_write [OF assms(1) le(1)] ioapic_write [OF assms(1) le(2)] u r(1,2)
    using r(3) by simp
qed

lemma of_nat_eq_u32: "a < 1000 \<Longrightarrow> b < 1000 \<Longrightarrow> (of_nat a :: u32) = of_nat b \<longleftrightarrow> a = b"
  by (simp add: of_nat_inverse word_unat_eq_iff unat_of_nat)

lemma disable_all_entries:
  assumes "ioapic_spec b io sel tab" and "n \<le> 120" and "i < n"
  shows "tab (fold (\<lambda>i. write_irq b io (of_nat i) DISABLED 0) [0..<n] d) (of_nat (0x10 + 2 * i)) = of_nat (32 + i) OR DISABLED"
  using assms(2,3)
proof (induction n)
  case (Suc n)
  have un: "unat (of_nat n :: u8) = n" using Suc.prems by (simp add: unat_of_nat)
  have "(of_nat (0x10 + 2 * i) :: u32) \<noteq> of_nat (0x11 + 2 * n)" using Suc.prems by (subst of_nat_eq_u32) presburger+
  moreover have "(of_nat (0x10 + 2 * i) :: u32) = of_nat (0x10 + 2 * n) \<longleftrightarrow> i = n" using Suc.prems by (subst of_nat_eq_u32) auto
  ultimately show ?case
    using Suc write_irq_entry [OF assms(1), of "of_nat n", unfolded un] by (auto simp del: of_nat_add of_nat_mult)
qed simp

lemma ioapic_read:
  assumes "ioapic_spec b io sel tab"
  shows "fst (IoApic_read b io r d) = tab d (ucast r)" "tab (snd (IoApic_read b io r d)) = tab d"
  using assms unfolding ioapic_spec_def IoApic_read_def Let_def by simp_all

lemma ioapic_routing:
  assumes "ioapic_spec b io sel tab"
  shows "unat irq < 120 \<Longrightarrow> tab (IoApic_enable b io irq cpuid d) =
      (tab d)(of_nat (0x10 + 2 * unat irq) := of_nat (32 + unat irq), of_nat (0x11 + 2 * unat irq) := push_bit 24 (ucast cpuid))"
    "i \<le> unat (fst (maxintr b io d)) \<Longrightarrow> unat (fst (maxintr b io d)) < 120 \<Longrightarrow>
     tab (disable_all b io d) (of_nat (0x10 + 2 * i)) = of_nat (32 + i) OR DISABLED"
proof -
  show "unat irq < 120 \<Longrightarrow> tab (IoApic_enable b io irq cpuid d) =
      (tab d)(of_nat (0x10 + 2 * unat irq) := of_nat (32 + unat irq), of_nat (0x11 + 2 * unat irq) := push_bit 24 (ucast cpuid))"
    unfolding IoApic_enable_def NONE_def by (subst write_irq_entry [OF assms]) simp_all
  assume "i \<le> unat (fst (maxintr b io d))" "unat (fst (maxintr b io d)) < 120"
  then show "tab (disable_all b io d) (of_nat (0x10 + 2 * i)) = of_nat (32 + i) OR DISABLED"
    unfolding disable_all_def by (simp only: Let_def split_beta) (rule disable_all_entries [OF assms], auto)
qed

section \<open>The serial port on the documented hardware\<close>

text \<open>A 16550. While the divisor latch bit of the line control register is set, the first two ports address the
  divisor; in loopback mode the data port returns the byte last written, unless the chip is faulty; otherwise
  writing it transmits and reading it takes the next received byte. The transmitter is busy for a number of
  polls of the status register.\<close>

record uart_cfg =
  ier :: u8
  lcr :: u8
  mcr :: u8
  divisor_low :: u8
  divisor_high :: u8
  last_byte :: u8

definition uart_cfg_write :: "SerialPort \<Rightarrow> u16 \<Rightarrow> u8 \<Rightarrow> uart_cfg \<Rightarrow> uart_cfg" where
  "uart_cfg_write sp p v c =
     (if p = sp_data sp then (if bit (lcr c) 7 then c\<lparr>divisor_low := v\<rparr> else c\<lparr>last_byte := v\<rparr>)
      else if p = interrupt_enable sp then (if bit (lcr c) 7 then c\<lparr>divisor_high := v\<rparr> else c\<lparr>ier := v\<rparr>)
      else if p = line_ctrl sp then c\<lparr>lcr := v\<rparr>
      else if p = modem_ctrl sp then c\<lparr>mcr := v\<rparr> else c)"

definition online :: "uart_cfg \<Rightarrow> bool" where
  "online c \<longleftrightarrow> \<not> bit (lcr c) 7 \<and> \<not> bit (mcr c) 4"

definition uart_spec ::
    "(u16, u8, 'd) bus \<Rightarrow> SerialPort \<Rightarrow> ('d \<Rightarrow> uart_cfg) \<Rightarrow> bool \<Rightarrow> ('d \<Rightarrow> nat) \<Rightarrow> ('d \<Rightarrow> u8 list) \<Rightarrow> ('d \<Rightarrow> u8 list) \<Rightarrow> bool" where
  "uart_spec b sp cfg faulty busy sent received \<longleftrightarrow>
     (\<forall>d p v. cfg (bus_write b d p v) = uart_cfg_write sp p v (cfg d) \<and>
        (if p = sp_data sp \<and> online (cfg d)
         then (busy d = 0 \<longrightarrow> sent (bus_write b d p v) = sent d @ [v] \<and> received (bus_write b d p v) = received d)
         else sent (bus_write b d p v) = sent d)) \<and>
     (\<forall>d. let (v, d') = bus_read b d (line_status sp)
          in (bit v 5 \<longleftrightarrow> busy d = 0) \<and> (bit v 0 \<longleftrightarrow> received d \<noteq> []) \<and>
             busy d' = busy d - 1 \<and> sent d' = sent d \<and> received d' = received d \<and> cfg d' = cfg d) \<and>
     (\<forall>d. let (v, d') = bus_read b d (sp_data sp)
          in cfg d' = cfg d \<and> sent d' = sent d \<and>
             (bit (mcr (cfg d)) 4 \<and> \<not> bit (lcr (cfg d)) 7 \<longrightarrow> (v = last_byte (cfg d) \<longleftrightarrow> \<not> faulty)) \<and>
             (\<forall>x xs. online (cfg d) \<and> received d = x # xs \<longrightarrow> v = x \<and> received d' = xs))"

lemma and_mask_bits: "(v :: u8) AND 0x20 = 0 \<longleftrightarrow> \<not> bit v 5" "v AND 1 = 0 \<longleftrightarrow> \<not> bit v 0"
  using bit_iff_and_push_bit_not_eq_0 [of v 5] bit_iff_and_push_bit_not_eq_0 [of v 0] by (simp_all add: push_bit_eq_mult)

lemma uart_status:
  assumes "uart_spec b sp cfg faulty busy sent received"
  shows "fst (bus_read b d (line_status sp)) AND 0x20 = 0 \<longleftrightarrow> busy d \<noteq> 0"
    "fst (bus_read b d (line_status sp)) AND 1 = 0 \<longleftrightarrow> received d = []"
    "busy (snd (bus_read b d (line_status sp))) = busy d - 1"
    "sent (snd (bus_read b d (line_status sp))) = sent d"
    "received (snd (bus_read b d (line_status sp))) = received d"
    "cfg (snd (bus_read b d (line_status sp))) = cfg d"
  using assms unfolding uart_spec_def and_mask_bits by (auto simp: split_beta)

lemma uart_write:
  assumes "uart_spec b sp cfg faulty busy sent received"
  shows "cfg (bus_write b d p v) = uart_cfg_write sp p v (cfg d)"
    "online (cfg d) \<Longrightarrow> busy d = 0 \<Longrightarrow> sent (bus_write b d (sp_data sp) v) = sent d @ [v]"
    "p \<noteq> sp_data sp \<or> \<not> online (cfg d) \<Longrightarrow> sent (bus_write b d p v) = sent d"
  using assms unfolding uart_spec_def by (metis (lifting))+

lemma uart_read:
  assumes "uart_spec b sp cfg faulty busy sent received"
  shows "cfg (snd (bus_read b d (sp_data sp))) = cfg d" "sent (snd (bus_read b d (sp_data sp))) = sent d"
    "bit (mcr (cfg d)) 4 \<Longrightarrow> \<not> bit (lcr (cfg d)) 7 \<Longrightarrow> fst (bus_read b d (sp_data sp)) = last_byte (cfg d) \<longleftrightarrow> \<not> faulty"
    "online (cfg d) \<Longrightarrow> received d = x # xs \<Longrightarrow> fst (bus_read b d (sp_data sp)) = x \<and> received (snd (bus_read b d (sp_data sp))) = xs"
  using assms unfolding uart_spec_def by (simp_all add: split_beta)

lemma wait_transmit_ends:
  assumes "uart_spec b sp cfg faulty busy sent received"
  shows "\<exists>d'. wait_transmit b sp d = Some d' \<and> busy d' = 0 \<and> sent d' = sent d \<and> cfg d' = cfg d"
proof (induction "busy d" arbitrary: d)
  case 0
  then show ?case by (subst wait_transmit.simps) (simp add: split_beta uart_status [OF assms])
next
  case (Suc n)
  then show ?case
    using Suc(1) [of "snd (bus_read b d (line_status sp))"]
    by (subst wait_transmit.simps) (simp add: split_beta uart_status [OF assms])
qed

text \<open>Text goes out in order when the port is online, and nowhere otherwise; sending ends either way.\<close>

lemma write_str_sends:
  assumes "uart_spec b sp cfg faulty busy sent received" and "\<not> bit (lcr (cfg d)) 7"
  shows "\<exists>d'. SerialPort_write_str b sp bytes d = Some d' \<and> (\<exists>x. cfg d' = (cfg d)\<lparr>last_byte := x\<rparr>) \<and>
    sent d' = sent d @ (if online (cfg d) then bytes else [])"
  using assms(2)
proof (induction bytes arbitrary: d)
  case (Cons v bytes)
  obtain d1 where d1: "wait_transmit b sp d = Some d1" "busy d1 = 0" "sent d1 = sent d" "cfg d1 = cfg d"
    using wait_transmit_ends [OF assms(1)] by blast
  let ?d = "bus_write b d1 (sp_data sp) v"
  have c: "cfg ?d = (cfg d)\<lparr>last_byte := v\<rparr>" using uart_write(1) [OF assms(1)] d1 Cons.prems by (simp add: uart_cfg_write_def)
  have "sent ?d = sent d @ (if online (cfg d) then [v] else [])" using uart_write(2,3) [OF assms(1)] d1 by simp
  moreover have "online (cfg ?d) = online (cfg d)" using c by (simp add: online_def)
  ultimately show ?case using Cons.IH [of ?d] Cons.prems c d1(1) by (auto simp: SerialPort_send_def split: if_splits)
next
  case Nil
  have "cfg d = (cfg d)\<lparr>last_byte := last_byte (cfg d)\<rparr>" by simp
  then show ?case unfolding SerialPort_write_str.simps by fastforce
qed

lemma receive_next:
  assumes "uart_spec b sp cfg faulty busy sent received" and "online (cfg d)"
  shows "fst (SerialPort_receive b sp d) = (case received d of [] \<Rightarrow> None | x # xs \<Rightarrow> Some x)"
    "received (snd (SerialPort_receive b sp d)) = tl (received d)"
  using uart_status(2,5,6) [OF assms(1), of d] uart_read(4) [OF assms(1), of "snd (bus_read b d (line_status sp))"] assms(2)
  by (cases "received d"; simp add: SerialPort_receive_def split_beta)+

lemma serial_init_config:
  assumes "uart_spec b (SerialPort_new port) cfg faulty busy sent received"
  shows "\<exists>d'. SerialPort_init b (SerialPort_new port) d = (if faulty then Inl ''Serial port faulty'' else Inr (), d') \<and>
    sent d' = sent d \<and> lcr (cfg d') = 3 \<and> mcr (cfg d') = (if faulty then 0x1E else 0x0F) \<and>
    (\<not> faulty \<longrightarrow> ier (cfg d') = 1 \<and> divisor_low (cfg d') = 3 \<and> divisor_high (cfg d') = 0)"
proof -
  let ?sp = "SerialPort_new port"
  note w = uart_write(1) [OF assms]
  define e where "e = fold (\<lambda>(p, v) d. bus_write b d p v)
    [(interrupt_enable ?sp, 0), (line_ctrl ?sp, 0x80), (sp_data ?sp, 3), (interrupt_enable ?sp, 0), (line_ctrl ?sp, 3),
     (fifo_ctrl ?sp, 0xC7), (modem_ctrl ?sp, 0x0B), (modem_ctrl ?sp, 0x1E), (sp_data ?sp, 0xAE)] d"
  have e: "lcr (cfg e) = 3" "mcr (cfg e) = 0x1E" "divisor_low (cfg e) = 3" "divisor_high (cfg e) = 0" "last_byte (cfg e) = 0xAE"
    unfolding e_def by (simp_all add: w uart_cfg_write_def SerialPort_new_def PORT_def)
  have s: "sent e = sent d"
    unfolding e_def by (simp add: uart_write(3) [OF assms] w online_def uart_cfg_write_def SerialPort_new_def PORT_def)
  have i: "SerialPort_init b ?sp d =
    (let (v, d) = bus_read b e (sp_data ?sp)
     in if v \<noteq> 0xAE then (Inl ''Serial port faulty'', d)
        else (Inr (), bus_write b (bus_write b d (modem_ctrl ?sp) 0x0F) (interrupt_enable ?sp) 1))"
    unfolding SerialPort_init_def Let_def e_def by (simp add: SerialPort_new_def)
  have p: "modem_ctrl ?sp \<noteq> sp_data ?sp" "interrupt_enable ?sp \<noteq> sp_data ?sp" "interrupt_enable ?sp \<noteq> modem_ctrl ?sp"
      "interrupt_enable ?sp \<noteq> line_ctrl ?sp" "modem_ctrl ?sp \<noteq> line_ctrl ?sp"
    by (simp_all add: SerialPort_new_def PORT_def)
  show ?thesis
    unfolding i using uart_read [OF assms, of e] uart_write(3) [OF assms] e s p
    by (auto simp: split_beta w uart_cfg_write_def)
qed

text \<open>C29. The console port. On every 16550 \<^verbatim>\<open>serial::init\<close> returns; on a working chip it leaves the port online
  with 38400 baud, 8N1 and receive interrupts, so that the banner and every later text go out byte for byte and
  \<^verbatim>\<open>receive\<close> delivers the next received byte. On a faulty chip the error is dropped and the port stays in
  loopback mode: nothing that is printed goes out.\<close>

theorem serial_init_output:
  assumes "uart_spec b (SerialPort_new SERIAL_IO_PORT) cfg faulty busy sent received"
  shows "\<exists>sp d'. serial_init b banner d = Some (sp, d') \<and>
    sent d' = sent d @ (if faulty then [] else banner) \<and>
    (\<exists>d''. SerialPort_write_str b sp out d' = Some d'' \<and> sent d'' = sent d' @ (if faulty then [] else out)) \<and>
    (\<not> faulty \<longrightarrow> ier (cfg d') = 1 \<and> lcr (cfg d') = 3 \<and> divisor_low (cfg d') = 3 \<and> divisor_high (cfg d') = 0 \<and>
       fst (SerialPort_receive b sp d') = (case received d' of [] \<Rightarrow> None | x # xs \<Rightarrow> Some x) \<and>
       received (snd (SerialPort_receive b sp d')) = tl (received d'))"
proof -
  let ?sp = "SerialPort_new SERIAL_IO_PORT"
  obtain d1 where d1: "SerialPort_init b ?sp d = (if faulty then Inl ''Serial port faulty'' else Inr (), d1)"
    "sent d1 = sent d" "lcr (cfg d1) = 3" "mcr (cfg d1) = (if faulty then 0x1E else 0x0F)"
    "\<not> faulty \<Longrightarrow> ier (cfg d1) = 1 \<and> divisor_low (cfg d1) = 3 \<and> divisor_high (cfg d1) = 0"
    using serial_init_config [OF assms, of d] by blast
  have on: "online (cfg d1) \<longleftrightarrow> \<not> faulty" using d1(3,4) by (simp add: online_def)
  obtain d2 x where d2: "SerialPort_write_str b ?sp banner d1 = Some d2" "cfg d2 = (cfg d1)\<lparr>last_byte := x\<rparr>"
      "sent d2 = sent d1 @ (if online (cfg d1) then banner else [])"
    using write_str_sends [OF assms, of d1 banner] d1(3) by auto
  have on2: "online (cfg d2) \<longleftrightarrow> \<not> faulty" using d2(2) on by (simp add: online_def)
  have i: "serial_init b banner d = Some (?sp, d2)" using d1(1) d2(1) by (simp add: serial_init_def)
  have t: "\<exists>d''. SerialPort_write_str b ?sp out d2 = Some d'' \<and> sent d'' = sent d2 @ (if faulty then [] else out)"
    using write_str_sends [OF assms, of d2 out] d2(2) d1(3) on2 by auto
  show ?thesis
    using d1(2-5) d2(2,3) on on2 t receive_next [OF assms, of d2]
    by (intro exI [of _ ?sp] exI [of _ d2] conjI impI i t) simp_all
qed

record uart_model =
  um_cfg :: uart_cfg
  um_sent :: "u8 list"
  um_received :: "u8 list"

text \<open>A working chip whose transmitter is never busy.\<close>

definition uart_device :: "(u16, u8, uart_model) bus" where
  "uart_device =
     \<lparr>bus_read = (\<lambda>d p.
        if p = PORT
        then if online (um_cfg d) \<and> um_received d \<noteq> [] then (hd (um_received d), d\<lparr>um_received := tl (um_received d)\<rparr>)
             else (last_byte (um_cfg d), d)
        else if p = PORT + 5 then (if um_received d \<noteq> [] then 0x21 else 0x20, d) else (0, d)),
      bus_write = (\<lambda>d p v.
        (if p = PORT \<and> online (um_cfg d) then d\<lparr>um_sent := um_sent d @ [v]\<rparr> else d)
          \<lparr>um_cfg := uart_cfg_write (SerialPort_new PORT) p v (um_cfg d)\<rparr>)\<rparr>"

theorem serial_init_output_witness:
  "let d = \<lparr>um_cfg = \<lparr>ier = 0, lcr = 0, mcr = 0, divisor_low = 0, divisor_high = 0, last_byte = 0\<rparr>, um_sent = [], um_received = [65]\<rparr>
   in uart_spec uart_device (SerialPort_new SERIAL_IO_PORT) um_cfg False (\<lambda>_. 0) um_sent um_received \<and>
      (\<exists>sp d'. serial_init uart_device [79, 75] d = Some (sp, d') \<and> um_sent d' = [79, 75])"
proof -
  have *: "uart_spec uart_device (SerialPort_new SERIAL_IO_PORT) um_cfg False (\<lambda>_. 0) um_sent um_received"
    unfolding uart_spec_def uart_device_def
    by (auto simp: SerialPort_new_def PORT_def split_beta online_def bit_simps cong: if_cong)
  show ?thesis
    unfolding Let_def
    by (intro conjI *) (insert serial_init_output [OF *, of "[79, 75]"
      "\<lparr>um_cfg = \<lparr>ier = 0, lcr = 0, mcr = 0, divisor_low = 0, divisor_high = 0, last_byte = 0\<rparr>, um_sent = [], um_received = [65]\<rparr>" "[]"], auto)
qed

end
