(* ===== verification/Interrupts.thy ===== *)
theory Interrupts
  imports Syscall Devices
begin

text \<open>
  The interrupt system: interrupt stacks and the task state segment (\<^verbatim>\<open>memory/gdt.rs\<close>), the descriptor table
  that \<^verbatim>\<open>interrupt/mod.rs\<close> fills from its sub-modules, the exception handlers (\<^verbatim>\<open>interrupt/exceptions.rs\<close>), the
  clock (\<^verbatim>\<open>interrupt/clock.rs\<close>), and the assembly stub of \<^verbatim>\<open>as_handler!\<close> (\<^verbatim>\<open>utils/regs.rs\<close>) that turns the machine
  state into a \<^verbatim>\<open>ProcessContext\<close> and back.
\<close>

section \<open>Interrupt stacks\<close>

definition DOUBLE_FAULT_IST_INDEX :: u16 where
  "DOUBLE_FAULT_IST_INDEX = 0"

definition PAGE_FAULT_IST_INDEX :: u16 where
  "PAGE_FAULT_IST_INDEX = 1"

definition CLOCK_IST_INDEX :: u16 where
  "CLOCK_IST_INDEX = 2"

definition SYSCALL_IST_INDEX :: u16 where
  "SYSCALL_IST_INDEX = 3"

lemmas ist_index_defs = DOUBLE_FAULT_IST_INDEX_def PAGE_FAULT_IST_INDEX_def CLOCK_IST_INDEX_def SYSCALL_IST_INDEX_def

definition IST_SIZES :: "usize list" where
  "IST_SIZES = [0x1000, 0x1000, 0x1000, 0x1000, 0x1000]"

text \<open>The two tables of the crate's \<^verbatim>\<open>TaskStateSegment\<close>, all zero when it is new.\<close>

record TaskStateSegment =
  privilege_stack_table :: "u64 list"
  interrupt_stack_table :: "u64 list"

definition TaskStateSegment_new :: TaskStateSegment where
  "TaskStateSegment_new = \<lparr>privilege_stack_table = replicate 3 0, interrupt_stack_table = replicate 7 0\<rparr>"

text \<open>The end of the static buffer number \<open>i\<close>, whose address the linker chooses.\<close>

definition stack_top :: "'x addr_ops_scheme \<Rightarrow> (nat \<Rightarrow> u64) \<Rightarrow> nat \<Rightarrow> u64 res" where
  "stack_top X buffer i = expect Address_panic (va_add X (buffer i) (IST_SIZES ! i))"

definition TSS_init :: "'x addr_ops_scheme \<Rightarrow> (nat \<Rightarrow> u64) \<Rightarrow> TaskStateSegment res" where
  "TSS_init X buffer =
     rbind (stack_top X buffer 0) (\<lambda>privilege.
     rbind (stack_top X buffer 1) (\<lambda>double_fault.
     rbind (stack_top X buffer 2) (\<lambda>page_fault.
     rbind (stack_top X buffer 3) (\<lambda>clock.
     rbind (stack_top X buffer 4) (\<lambda>syscall.
       (let tss = TaskStateSegment_new;
            tss = tss\<lparr>privilege_stack_table := (privilege_stack_table tss)[0 := privilege]\<rparr>;
            tss = tss\<lparr>interrupt_stack_table := (interrupt_stack_table tss)[unat DOUBLE_FAULT_IST_INDEX := double_fault]\<rparr>;
            tss = tss\<lparr>interrupt_stack_table := (interrupt_stack_table tss)[unat PAGE_FAULT_IST_INDEX := page_fault]\<rparr>;
            tss = tss\<lparr>interrupt_stack_table := (interrupt_stack_table tss)[unat CLOCK_IST_INDEX := clock]\<rparr>;
            tss = tss\<lparr>interrupt_stack_table := (interrupt_stack_table tss)[unat SYSCALL_IST_INDEX := syscall]\<rparr>
        in Inr tss))))))"

section \<open>The descriptor table\<close>

datatype handler =
    Divide_error_handler | Double_fault_handler | Page_fault_handler | General_protection_fault_handler
  | Alignment_check_handler | Breakpoint_handler | Bound_range_exceeded_handler | Cp_protection_exception_handler
  | Debug_handler | Hv_injection_exception_handler | Invalid_tss_handler | Invalid_opcode | Machine_check_handler
  | Non_maskable_interrupt | Overflow_handler | Security_exception_handler | Segment_not_present_handler
  | Simd_floating_point_handler | Stack_segment_fault | Virtualization_handler | X87_floating_point_handler
  | Device_not_available_handler | Vmm_communication_exception_handler
  | Clock_handler | Serial_handler | Syscall_handler

record idt_entry =
  ie_handler :: handler
  ie_stack_index :: "u16 option"
  ie_privilege :: nat

type_synonym idt = "u8 \<rightharpoonup> idt_entry"

text \<open>\<^verbatim>\<open>set_handler_fn\<close> makes an entry present with no stack index and privilege level 0.\<close>

definition set_handler_fn :: "u8 \<Rightarrow> handler \<Rightarrow> idt \<Rightarrow> idt" where
  "set_handler_fn v h idt = idt(v \<mapsto> \<lparr>ie_handler = h, ie_stack_index = None, ie_privilege = 0\<rparr>)"

definition set_stack_index :: "u8 \<Rightarrow> u16 \<Rightarrow> idt \<Rightarrow> idt" where
  "set_stack_index v i idt = idt(v := map_option (\<lambda>e. e\<lparr>ie_stack_index := Some i\<rparr>) (idt v))"

definition set_privilege_level :: "u8 \<Rightarrow> nat \<Rightarrow> idt \<Rightarrow> idt" where
  "set_privilege_level v l idt = idt(v := map_option (\<lambda>e. e\<lparr>ie_privilege := l\<rparr>) (idt v))"

text \<open>The fields of the table have the vectors of the processor manual.\<close>

definition exceptions_register_idt :: "idt \<Rightarrow> idt" where
  "exceptions_register_idt idt =
     (let idt = set_handler_fn (interrupt_number DivideError) Divide_error_handler idt;
          idt = set_stack_index (interrupt_number DoubleFault) DOUBLE_FAULT_IST_INDEX
                  (set_handler_fn (interrupt_number DoubleFault) Double_fault_handler idt);
          idt = set_stack_index (interrupt_number PageFault) PAGE_FAULT_IST_INDEX
                  (set_handler_fn (interrupt_number PageFault) Page_fault_handler idt);
          idt = set_handler_fn (interrupt_number GeneralProtectionFault) General_protection_fault_handler idt;
          idt = set_handler_fn (interrupt_number AlignmentCheck) Alignment_check_handler idt;
          idt = set_handler_fn (interrupt_number Breakpoint) Breakpoint_handler idt;
          idt = set_handler_fn (interrupt_number BoundRangeExceeded) Bound_range_exceeded_handler idt;
          idt = set_handler_fn 21 Cp_protection_exception_handler idt;
          idt = set_handler_fn (interrupt_number Debug) Debug_handler idt;
          idt = set_handler_fn (interrupt_number GeneralProtectionFault) General_protection_fault_handler idt;
          idt = set_handler_fn 28 Hv_injection_exception_handler idt;
          idt = set_handler_fn (interrupt_number InvalidTSS) Invalid_tss_handler idt;
          idt = set_handler_fn (interrupt_number InvalidOpcode) Invalid_opcode idt;
          idt = set_handler_fn (interrupt_number MachineCheck) Machine_check_handler idt;
          idt = set_handler_fn (interrupt_number NonMaskableInterrupt) Non_maskable_interrupt idt;
          idt = set_handler_fn (interrupt_number Overflow) Overflow_handler idt;
          idt = set_handler_fn (interrupt_number SecurityException) Security_exception_handler idt;
          idt = set_handler_fn (interrupt_number SegmentNotPresent) Segment_not_present_handler idt;
          idt = set_handler_fn (interrupt_number SIMDFloatingPointException) Simd_floating_point_handler idt;
          idt = set_handler_fn (interrupt_number StackSegmentFault) Stack_segment_fault idt;
          idt = set_handler_fn (interrupt_number VirtualizationException) Virtualization_handler idt;
          idt = set_handler_fn (interrupt_number FloatingPointException) X87_floating_point_handler idt;
          idt = set_handler_fn (interrupt_number DeviceNotAvailable) Device_not_available_handler idt
      in set_handler_fn 29 Vmm_communication_exception_handler idt)"

definition clock_register_idt :: "idt \<Rightarrow> idt" where
  "clock_register_idt idt =
     (let v = interrupt_number IrqBase + irq_number Timer
      in set_stack_index v CLOCK_IST_INDEX (set_handler_fn v Clock_handler idt))"

definition serial_register_idt :: "idt \<Rightarrow> idt" where
  "serial_register_idt idt = set_handler_fn (interrupt_number IrqBase + irq_number Serial0) Serial_handler idt"

definition syscall_register_idt :: "idt \<Rightarrow> idt" where
  "syscall_register_idt idt =
     (let v = interrupt_number SyscallInt
      in set_privilege_level v 3 (set_stack_index v SYSCALL_IST_INDEX (set_handler_fn v Syscall_handler idt)))"

definition IDT :: idt where
  "IDT = syscall_register_idt (serial_register_idt (clock_register_idt (exceptions_register_idt Map.empty)))"

section \<open>Exception handlers\<close>

text \<open>The message with which a handler panics, without the stack frame and error code that are printed with
  it. The page fault handler and the three interrupt handlers do not panic.\<close>

fun exception_message :: "handler \<Rightarrow> string option" where
  "exception_message Divide_error_handler = Some ''EXCEPTION: DIVIDE ERROR''"
| "exception_message Double_fault_handler = Some ''EXCEPTION: DOUBLE FAULT''"
| "exception_message General_protection_fault_handler = Some ''EXCEPTION: GENERAL PROTECTION FAULT''"
| "exception_message Alignment_check_handler = Some ''EXCEPTION: ALIGNMENT CHECK''"
| "exception_message Bound_range_exceeded_handler = Some ''EXCEPTION: BOUND RANGE EXCEEDED''"
| "exception_message Breakpoint_handler = Some ''EXCEPTION: BREAKPOINT''"
| "exception_message Cp_protection_exception_handler = Some ''EXCEPTION: COPROCESSOR PROTECTION EXCEPTION''"
| "exception_message Stack_segment_fault = Some ''EXCEPTION: STACK SEGMENT FAULT''"
| "exception_message Invalid_opcode = Some ''EXCEPTION: INVALID OPCODE''"
| "exception_message X87_floating_point_handler = Some ''EXCEPTION: x87 FLOATING POINT''"
| "exception_message Machine_check_handler = Some ''EXCEPTION: MACHINE CHECK''"
| "exception_message Debug_handler = Some ''EXCEPTION: DEBUG''"
| "exception_message Hv_injection_exception_handler = Some ''EXCEPTION: HV INJECTION EXCEPTION''"
| "exception_message Invalid_tss_handler = Some ''EXCEPTION: INVALID TSS''"
| "exception_message Non_maskable_interrupt = Some ''EXCEPTION: NON MASKABLE INTERRUPT''"
| "exception_message Overflow_handler = Some ''EXCEPTION: OVERFLOW''"
| "exception_message Security_exception_handler = Some ''EXCEPTION: SECURITY EXCEPTION''"
| "exception_message Segment_not_present_handler = Some ''EXCEPTION: SEGMENT NOT PRESENT''"
| "exception_message Simd_floating_point_handler = Some ''EXCEPTION: SIMD FLOATING POINT''"
| "exception_message Virtualization_handler = Some ''EXCEPTION: VIRTUALIZATION''"
| "exception_message Device_not_available_handler = Some ''EXCEPTION: DEVICE NOT AVAILABLE''"
| "exception_message Vmm_communication_exception_handler = Some ''EXCEPTION: VMM COMMUNICATION EXCEPTION''"
| "exception_message Page_fault_handler = None"
| "exception_message Clock_handler = None"
| "exception_message Serial_handler = None"
| "exception_message Syscall_handler = None"

text \<open>The page fault handler; \<open>cr2\<close> is \<^term>\<open>None\<close> when the register does not hold a canonical address. A fault
  that cannot be handled is logged, with the current process, and the handler returns.\<close>

definition page_fault_handler :: "('m, 'a) env \<Rightarrow> u64 option \<Rightarrow> bool \<Rightarrow> ('m, 'a, 'q) kernel \<Rightarrow> ('m, 'a, 'q) kernel res" where
  "page_fault_handler E cr2 caused_by_write k =
     rbind (expect Unwrap_failed cr2) (\<lambda>addr.
     rbind (proc_handle_page_fault E addr caused_by_write k) (\<lambda>(handled, k').
       if \<not> handled then rbind (current k') (\<lambda>_. Inr k') else Inr k'))"

section \<open>The handler stub\<close>

datatype gpr = Rbp | Rax | Rbx | Rcx | Rdx | Rsi | Rdi | R8 | R9 | R10 | R11 | R12 | R13 | R14 | R15

fun gpr_get :: "gpr \<Rightarrow> RegistersValue \<Rightarrow> u64" where
  "gpr_get Rbp r = rbp r"
| "gpr_get Rax r = rax r"
| "gpr_get Rbx r = rbx r"
| "gpr_get Rcx r = rcx r"
| "gpr_get Rdx r = rdx r"
| "gpr_get Rsi r = rsi r"
| "gpr_get Rdi r = rdi r"
| "gpr_get R8 r = r8 r"
| "gpr_get R9 r = r9 r"
| "gpr_get R10 r = r10 r"
| "gpr_get R11 r = r11 r"
| "gpr_get R12 r = r12 r"
| "gpr_get R13 r = r13 r"
| "gpr_get R14 r = r14 r"
| "gpr_get R15 r = r15 r"

fun gpr_set :: "gpr \<Rightarrow> u64 \<Rightarrow> RegistersValue \<Rightarrow> RegistersValue" where
  "gpr_set Rbp w r = r\<lparr>rbp := w\<rparr>"
| "gpr_set Rax w r = r\<lparr>rax := w\<rparr>"
| "gpr_set Rbx w r = r\<lparr>rbx := w\<rparr>"
| "gpr_set Rcx w r = r\<lparr>rcx := w\<rparr>"
| "gpr_set Rdx w r = r\<lparr>rdx := w\<rparr>"
| "gpr_set Rsi w r = r\<lparr>rsi := w\<rparr>"
| "gpr_set Rdi w r = r\<lparr>rdi := w\<rparr>"
| "gpr_set R8 w r = r\<lparr>r8 := w\<rparr>"
| "gpr_set R9 w r = r\<lparr>r9 := w\<rparr>"
| "gpr_set R10 w r = r\<lparr>r10 := w\<rparr>"
| "gpr_set R11 w r = r\<lparr>r11 := w\<rparr>"
| "gpr_set R12 w r = r\<lparr>r12 := w\<rparr>"
| "gpr_set R13 w r = r\<lparr>r13 := w\<rparr>"
| "gpr_set R14 w r = r\<lparr>r14 := w\<rparr>"
| "gpr_set R15 w r = r\<lparr>r15 := w\<rparr>"

datatype instr = Push gpr | Pop gpr | CallFn

text \<open>The instructions of \<^verbatim>\<open>as_handler!\<close> up to \<^verbatim>\<open>iretq\<close>.\<close>

definition as_handler :: "instr list" where
  "as_handler =
     [Push Rbp, Push Rax, Push Rbx, Push Rcx, Push Rdx, Push Rsi, Push Rdi, Push R8,
      Push R9, Push R10, Push R11, Push R12, Push R13, Push R14, Push R15, CallFn,
      Pop R15, Pop R14, Pop R13, Pop R12, Pop R11, Pop R10, Pop R9, Pop R8,
      Pop Rdi, Pop Rsi, Pop Rdx, Pop Rcx, Pop Rbx, Pop Rax, Pop Rbp]"

text \<open>A \<^verbatim>\<open>ProcessContext\<close> in memory, lowest address first: the fields of \<^verbatim>\<open>RegistersValue\<close> in the order of its
  declaration (\<^verbatim>\<open>repr(C)\<close>), then the frame that the processor pushes.\<close>

definition regs_words :: "RegistersValue \<Rightarrow> u64 list" where
  "regs_words r = [r15 r, r14 r, r13 r, r12 r, r11 r, r10 r, r9 r, r8 r, rdi r, rsi r, rdx r, rcx r, rbx r, rax r, rbp r]"

definition frame_words :: "InterruptStackFrameValue \<Rightarrow> u64 list" where
  "frame_words f = [instruction_pointer f, ucast (code_segment f), cpu_flags f, stack_pointer f, ucast (stack_segment f)]"

definition regs_at :: "u64 list \<Rightarrow> RegistersValue" where
  "regs_at ws = \<lparr>r15 = ws ! 0, r14 = ws ! 1, r13 = ws ! 2, r12 = ws ! 3, r11 = ws ! 4, r10 = ws ! 5, r9 = ws ! 6, r8 = ws ! 7, rdi = ws ! 8, rsi = ws ! 9, rdx = ws ! 10, rcx = ws ! 11, rbx = ws ! 12, rax = ws ! 13, rbp = ws ! 14\<rparr>"

definition frame_at :: "u64 list \<Rightarrow> InterruptStackFrameValue" where
  "frame_at ws = \<lparr>instruction_pointer = ws ! 0, code_segment = ucast (ws ! 1), cpu_flags = ws ! 2, stack_pointer = ws ! 3,
     stack_segment = ucast (ws ! 4)\<rparr>"

definition context_at :: "u64 list \<Rightarrow> ProcessContext" where
  "context_at ws = \<lparr>ctx_regs = regs_at ws, ctx_frame = frame_at (drop 15 ws)\<rparr>"

definition context_words :: "ProcessContext \<Rightarrow> u64 list" where
  "context_words c = regs_words (ctx_regs c) @ frame_words (ctx_frame c)"

text \<open>The stub over a stack of words, topmost first. The called function finds its argument on top of the
  stack, changes it there, and may leave anything in the registers (\<open>clobber\<close>).\<close>

fun exec_stub :: "(RegistersValue \<Rightarrow> RegistersValue) \<Rightarrow> (ProcessContext \<Rightarrow> 'k \<Rightarrow> (ProcessContext \<times> 'k) res option) \<Rightarrow>
    instr list \<Rightarrow> RegistersValue \<Rightarrow> u64 list \<Rightarrow> 'k \<Rightarrow> (RegistersValue \<times> u64 list \<times> 'k) res option" where
  "exec_stub clobber f [] r st k = Some (Inr (r, st, k))"
| "exec_stub clobber f (Push g # is) r st k = exec_stub clobber f is r (gpr_get g r # st) k"
| "exec_stub clobber f (Pop g # is) r st k = exec_stub clobber f is (gpr_set g (hd st) r) (tl st) k"
| "exec_stub clobber f (CallFn # is) r st k =
     obind (f (context_at (take 20 st)) k) (\<lambda>(c, k'). exec_stub clobber f is (clobber r) (context_words c @ drop 20 st) k')"

record cpu =
  cpu_regs :: RegistersValue
  cpu_frame :: InterruptStackFrameValue

text \<open>An interrupt: the processor pushes the frame on the interrupt stack, runs the stub, and \<^verbatim>\<open>iretq\<close> loads the
  frame that is there.\<close>

definition run_interrupt :: "(RegistersValue \<Rightarrow> RegistersValue) \<Rightarrow> (ProcessContext \<Rightarrow> 'k \<Rightarrow> (ProcessContext \<times> 'k) res option) \<Rightarrow>
    u64 list \<Rightarrow> cpu \<Rightarrow> 'k \<Rightarrow> (cpu \<times> 'k) res option" where
  "run_interrupt clobber f below c k =
     obind (exec_stub clobber f as_handler (cpu_regs c) (frame_words (cpu_frame c) @ below) k)
       (\<lambda>(r, st, k'). Some (Inr (\<lparr>cpu_regs = r, cpu_frame = frame_at st\<rparr>, k')))"

section \<open>The clock and the controllers\<close>

definition enable_irq :: "(u64, u32, 'd) bus \<Rightarrow> u64 option \<Rightarrow> u8 \<Rightarrow> u8 \<Rightarrow> 'd \<Rightarrow> 'd res" where
  "enable_irq b off irq cpuid d =
     rbind (physical_to_virtual off IOAPIC_ADDR) (\<lambda>addr. Inr (IoApic_enable b (IoApic_new addr) irq cpuid d))"

definition ack :: "(u64, u32, 'd) bus \<Rightarrow> u64 option \<Rightarrow> 'd \<Rightarrow> 'd res" where
  "ack b off d = rbind (physical_to_virtual off LAPIC_ADDR) (\<lambda>addr. Inr (eoi b (XApic_new addr) d))"

definition clock :: "(u64, u32, 'd) bus \<Rightarrow> u64 option \<Rightarrow> ProcessContext \<Rightarrow> ('m, 'a, 'q) kernel \<times> 'd \<Rightarrow>
    (ProcessContext \<times> ('m, 'a, 'q) kernel \<times> 'd) res option" where
  "clock b off context kd =
     obind (switch context (fst kd)) (\<lambda>(context', k').
     obind (lift (ack b off (snd kd))) (\<lambda>d'. lift (Inr (context', k', d'))))"

text \<open>The counter of clock ticks, an atomic 64-bit number.\<close>

definition read_counter :: "u64 \<Rightarrow> u64" where
  "read_counter counter = counter"

definition clock_inc_counter :: "u64 \<Rightarrow> u64 \<times> u64" where
  "clock_inc_counter counter = (counter, counter + 1)"

text \<open>\<^verbatim>\<open>interrupt::init\<close>: the table it loads, and the controllers when the processor has an APIC. The local APIC is
  reached at its physical address here, the I/O APIC through the offset mapping.\<close>

definition interrupt_init :: "(u64, u32, 'd) bus \<Rightarrow> u64 option \<Rightarrow> bool option \<Rightarrow> 'd \<Rightarrow> (idt \<times> 'd) res option" where
  "interrupt_init b off has_apic d =
     (if XApic_support has_apic
      then (case cpu_init b (XApic_new LAPIC_ADDR) d of
              None \<Rightarrow> None
            | Some d \<Rightarrow>
                (let (id, d) = XApic_id b (XApic_new LAPIC_ADDR) d; cpuid = ucast id
                 in lift (rbind (enable_irq b off (irq_number Serial0) cpuid d) (\<lambda>d. Inr (IDT, d)))))
      else lift (Inr (IDT, d)))"

section \<open>The stub is a function on contexts\<close>

lemma ucast_u16_u64: "ucast (ucast (w :: u16) :: u64) = w"
  by (simp add: ucast_up_ucast_id is_up)

lemma context_at_words: "context_at (take 20 (context_words c)) = c"
  by (simp add: context_words_def context_at_def regs_words_def frame_words_def regs_at_def frame_at_def ucast_u16_u64)

lemma context_words_push:
  "context_words \<lparr>ctx_regs = r, ctx_frame = f\<rparr> = regs_words r @ frame_words f"
  by (simp add: context_words_def)

lemma length_context_words: "length (context_words c) = 20"
  by (simp add: context_words_def regs_words_def frame_words_def)

text \<open>The pushes lay the registers out as the structure is declared, and the pops read it back.\<close>

lemma exec_pushes:
  "exec_stub clobber f (take 15 as_handler @ is) r st k = exec_stub clobber f is r (regs_words r @ st) k"
  by (simp add: as_handler_def regs_words_def)

lemma exec_pops:
  "exec_stub clobber f (drop 16 as_handler) r (regs_words r' @ st) k = Some (Inr (r', st, k))"
  by (simp add: as_handler_def regs_words_def)

lemma as_handler_parts: "as_handler = take 15 as_handler @ CallFn # drop 16 as_handler"
  by (simp add: as_handler_def)

text \<open>C27. The assembly stub of \<^verbatim>\<open>as_handler!\<close> is faithful: whatever the handler function leaves in the registers and
  whatever lies below on the interrupt stack, the interrupted computation continues with exactly the registers
  and the frame that the function left in its context argument, and that argument held exactly the registers
  and the frame of the interrupted computation.\<close>

theorem as_handler_runs_on_contexts:
  "run_interrupt clobber f below c k =
     obind (f \<lparr>ctx_regs = cpu_regs c, ctx_frame = cpu_frame c\<rparr> k)
       (\<lambda>(c', k'). Some (Inr (\<lparr>cpu_regs = ctx_regs c', cpu_frame = ctx_frame c'\<rparr>, k')))"
proof -
  let ?c = "\<lparr>ctx_regs = cpu_regs c, ctx_frame = cpu_frame c\<rparr>"
  have f: "frame_at (frame_words fr @ below) = fr" for fr
    by (simp add: frame_at_def frame_words_def ucast_u16_u64)
  have st: "regs_words (cpu_regs c) @ frame_words (cpu_frame c) @ below = context_words ?c @ below"
    by (simp add: context_words_def)
  have call: "exec_stub clobber f (CallFn # drop 16 as_handler) (cpu_regs c) (context_words ?c @ below) k =
      obind (f ?c k) (\<lambda>(c', k'). Some (Inr (ctx_regs c', frame_words (ctx_frame c') @ below, k')))"
    using context_at_words [of ?c] length_context_words [of ?c] by (simp add: context_words_def exec_pops case_prod_unfold)
  have "exec_stub clobber f as_handler (cpu_regs c) (frame_words (cpu_frame c) @ below) k =
      obind (f ?c k) (\<lambda>(c', k'). Some (Inr (ctx_regs c', frame_words (ctx_frame c') @ below, k')))"
    by (subst as_handler_parts) (simp only: exec_pushes st call)
  then show ?thesis
    unfolding run_interrupt_def by (simp add: obind_def f split: option.splits sum.splits prod.splits)
qed

section \<open>The descriptor table\<close>

lemma IDT_entries:
  "IDT = [0 \<mapsto> \<lparr>ie_handler = Divide_error_handler, ie_stack_index = None, ie_privilege = 0\<rparr>,
          8 \<mapsto> \<lparr>ie_handler = Double_fault_handler, ie_stack_index = Some 0, ie_privilege = 0\<rparr>,
          14 \<mapsto> \<lparr>ie_handler = Page_fault_handler, ie_stack_index = Some 1, ie_privilege = 0\<rparr>,
          17 \<mapsto> \<lparr>ie_handler = Alignment_check_handler, ie_stack_index = None, ie_privilege = 0\<rparr>,
          3 \<mapsto> \<lparr>ie_handler = Breakpoint_handler, ie_stack_index = None, ie_privilege = 0\<rparr>,
          5 \<mapsto> \<lparr>ie_handler = Bound_range_exceeded_handler, ie_stack_index = None, ie_privilege = 0\<rparr>,
          21 \<mapsto> \<lparr>ie_handler = Cp_protection_exception_handler, ie_stack_index = None, ie_privilege = 0\<rparr>,
          1 \<mapsto> \<lparr>ie_handler = Debug_handler, ie_stack_index = None, ie_privilege = 0\<rparr>,
          13 \<mapsto> \<lparr>ie_handler = General_protection_fault_handler, ie_stack_index = None, ie_privilege = 0\<rparr>,
          28 \<mapsto> \<lparr>ie_handler = Hv_injection_exception_handler, ie_stack_index = None, ie_privilege = 0\<rparr>,
          10 \<mapsto> \<lparr>ie_handler = Invalid_tss_handler, ie_stack_index = None, ie_privilege = 0\<rparr>,
          6 \<mapsto> \<lparr>ie_handler = Invalid_opcode, ie_stack_index = None, ie_privilege = 0\<rparr>,
          18 \<mapsto> \<lparr>ie_handler = Machine_check_handler, ie_stack_index = None, ie_privilege = 0\<rparr>,
          2 \<mapsto> \<lparr>ie_handler = Non_maskable_interrupt, ie_stack_index = None, ie_privilege = 0\<rparr>,
          4 \<mapsto> \<lparr>ie_handler = Overflow_handler, ie_stack_index = None, ie_privilege = 0\<rparr>,
          30 \<mapsto> \<lparr>ie_handler = Security_exception_handler, ie_stack_index = None, ie_privilege = 0\<rparr>,
          11 \<mapsto> \<lparr>ie_handler = Segment_not_present_handler, ie_stack_index = None, ie_privilege = 0\<rparr>,
          19 \<mapsto> \<lparr>ie_handler = Simd_floating_point_handler, ie_stack_index = None, ie_privilege = 0\<rparr>,
          12 \<mapsto> \<lparr>ie_handler = Stack_segment_fault, ie_stack_index = None, ie_privilege = 0\<rparr>,
          20 \<mapsto> \<lparr>ie_handler = Virtualization_handler, ie_stack_index = None, ie_privilege = 0\<rparr>,
          16 \<mapsto> \<lparr>ie_handler = X87_floating_point_handler, ie_stack_index = None, ie_privilege = 0\<rparr>,
          7 \<mapsto> \<lparr>ie_handler = Device_not_available_handler, ie_stack_index = None, ie_privilege = 0\<rparr>,
          29 \<mapsto> \<lparr>ie_handler = Vmm_communication_exception_handler, ie_stack_index = None, ie_privilege = 0\<rparr>,
          32 \<mapsto> \<lparr>ie_handler = Clock_handler, ie_stack_index = Some 2, ie_privilege = 0\<rparr>,
          36 \<mapsto> \<lparr>ie_handler = Serial_handler, ie_stack_index = None, ie_privilege = 0\<rparr>,
          128 \<mapsto> \<lparr>ie_handler = Syscall_handler, ie_stack_index = Some 3, ie_privilege = 3\<rparr>]"
  by (simp add: IDT_def exceptions_register_idt_def clock_register_idt_def serial_register_idt_def syscall_register_idt_def
      set_handler_fn_def set_stack_index_def set_privilege_level_def ist_index_defs Let_def)

lemma IDT_stacked: "IDT v = Some e \<Longrightarrow> ie_stack_index e = Some i \<Longrightarrow> (v, i) \<in> {(8, 0), (14, 1), (32, 2), (128, 3)}"
  by (auto simp: IDT_entries split: if_splits)

lemma IDT_user: "IDT v = Some e \<Longrightarrow> ie_privilege e = (if v = interrupt_number SyscallInt then 3 else 0)"
  by (auto simp: IDT_entries split: if_splits)

lemma IDT_panics: "IDT v = Some e \<Longrightarrow> exception_message (ie_handler e) = None \<longleftrightarrow>
    v \<in> {interrupt_number PageFault, irq_vector Timer, irq_vector Serial0, interrupt_number SyscallInt}"
  by (auto simp: IDT_entries irq_vector_def split: if_splits)

lemma TSS_init_stacks:
  assumes "x86_addresses X" and "\<forall>i < 5. unat (buffer i) + 0x1000 < 2 ^ 64 \<and> canonical (buffer i + 0x1000)"
  shows "\<exists>tss. TSS_init X buffer = Inr tss \<and> (\<forall>i < 4. interrupt_stack_table tss ! i = buffer (Suc i) + 0x1000) \<and>
    privilege_stack_table tss ! 0 = buffer 0 + 0x1000"
proof -
  have "stack_top X buffer i = Inr (buffer i + 0x1000)" if "i < 5" for i
  proof -
    from that consider "i = 0" | "i = 1" | "i = 2" | "i = 3" | "i = 4" by linarith
    then have "IST_SIZES ! i = 0x1000" by cases (simp_all add: IST_SIZES_def)
    then show ?thesis using x86_addresses.va_add_ok [OF assms(1), of "buffer i" "0x1000"] assms(2) that by (simp add: stack_top_def)
  qed
  moreover have "unat DOUBLE_FAULT_IST_INDEX = 0" "unat PAGE_FAULT_IST_INDEX = Suc 0" "unat CLOCK_IST_INDEX = Suc (Suc 0)"
      "unat SYSCALL_IST_INDEX = Suc (Suc (Suc 0))"
    by (simp_all add: ist_index_defs)
  moreover have "replicate 7 (0 :: u64) = [0, 0, 0, 0, 0, 0, 0]" "replicate 3 (0 :: u64) = [0, 0, 0]"
    by (simp_all add: eval_nat_numeral)
  ultimately have "TSS_init X buffer = Inr \<lparr>privilege_stack_table = [buffer 0 + 0x1000, 0, 0],
      interrupt_stack_table = [buffer 1 + 0x1000, buffer 2 + 0x1000, buffer 3 + 0x1000, buffer 4 + 0x1000, 0, 0, 0]\<rparr>"
    by (simp add: TSS_init_def TaskStateSegment_new_def)
  moreover define tss where "tss = \<lparr>privilege_stack_table = [buffer 0 + 0x1000, 0, 0],
      interrupt_stack_table = [buffer 1 + 0x1000, buffer 2 + 0x1000, buffer 3 + 0x1000, buffer 4 + 0x1000, 0, 0, 0]\<rparr>"
  moreover have "interrupt_stack_table tss ! i = buffer (Suc i) + 0x1000" if "i < 4" for i
  proof -
    from that consider "i = 0" | "i = 1" | "i = 2" | "i = 3" by linarith
    then show ?thesis by cases (simp_all add: tss_def eval_nat_numeral)
  qed
  ultimately show ?thesis by (intro exI [of _ tss]) (simp add: tss_def)
qed

text \<open>C28. The interrupt tables of the kernel. User code can raise the system call vector and no other. The vectors
  that switch stacks are the double fault, the page fault, the clock and the system call, each with an entry of
  the task state segment that is the top of a static buffer of its own, so that with disjoint buffers none of them
  overwrites the frame of another; all other exceptions end in a panic. The vector that the local APIC is given
  for spurious interrupts has no entry.\<close>

theorem interrupt_table:
  assumes "x86_addresses X" and "\<forall>i < 5. unat (buffer i) + 0x1000 < 2 ^ 64 \<and> canonical (buffer i + 0x1000)"
  shows "\<exists>tss. TSS_init X buffer = Inr tss \<and>
    (\<forall>v e. IDT v = Some e \<longrightarrow> ie_privilege e = (if v = interrupt_number SyscallInt then 3 else 0) \<and>
       (exception_message (ie_handler e) = None \<longleftrightarrow>
          v \<in> {interrupt_number PageFault, irq_vector Timer, irq_vector Serial0, interrupt_number SyscallInt})) \<and>
    (\<forall>v e i. IDT v = Some e \<longrightarrow> ie_stack_index e = Some i \<longrightarrow>
       interrupt_stack_table tss ! unat i = buffer (Suc (unat i)) + 0x1000 \<and>
       (\<forall>v' e'. IDT v' = Some e' \<longrightarrow> ie_stack_index e' = Some i \<longrightarrow> v' = v)) \<and>
    IDT (irq_vector Spurious) = None"
proof -
  obtain tss where tss: "TSS_init X buffer = Inr tss" "\<forall>i < 4. interrupt_stack_table tss ! i = buffer (Suc i) + 0x1000"
    using TSS_init_stacks [OF assms] by blast
  have st: "interrupt_stack_table tss ! unat i = buffer (Suc (unat i)) + 0x1000" if "IDT v = Some e" "ie_stack_index e = Some i" for v e i
    using IDT_stacked [OF that] tss(2) by auto
  have un: "v' = v" if "IDT v = Some e" "ie_stack_index e = Some i" "IDT v' = Some e'" "ie_stack_index e' = Some i" for v v' e e' i
    using IDT_stacked [OF that(1,2)] IDT_stacked [OF that(3,4)] by auto
  have sp: "IDT (irq_vector Spurious) = None" by (simp add: IDT_entries irq_vector_def)
  show ?thesis by (intro exI [of _ tss] conjI allI impI) (fact tss(1) IDT_user IDT_panics st sp | erule (3) un)+
qed

theorem interrupt_table_witness:
  "\<exists>tss. TSS_init (x86_ref :: (ref_tables, nat) x86_64) (\<lambda>i. 0x10000 + 0x1000 * of_nat i) = Inr tss"
proof -
  have "unat (0x10000 + 0x1000 * of_nat i :: u64) + 0x1000 < 2 ^ 64 \<and> canonical (0x10000 + 0x1000 * of_nat i + 0x1000)"
    if "i < 5" for i :: nat
  proof -
    from that consider "i = 0" | "i = 1" | "i = 2" | "i = 3" | "i = 4" by linarith
    then show ?thesis by cases (simp_all add: canonical_def)
  qed
  then have "\<forall>i < 5. unat (0x10000 + 0x1000 * of_nat i :: u64) + 0x1000 < 2 ^ 64 \<and> canonical (0x10000 + 0x1000 * of_nat i + 0x1000)"
    by blast
  from interrupt_table [OF ref.x86_addresses_axioms this] show ?thesis by blast
qed

section \<open>Starting the interrupt system\<close>

text \<open>\<^verbatim>\<open>interrupt::init\<close> on a processor with an APIC returns, the loaded table sends the vector of the first
  serial port to its handler, and the I/O APIC delivers the interrupt line of that port as this vector, unmasked,
  to the processor that ran the initialisation. Without an APIC only the table is loaded.\<close>

theorem interrupt_init_routes_serial:
  assumes "lapic_spec b LAPIC_ADDR reg pend" and "ioapic_spec b (IoApic_new (IOAPIC_ADDR + off)) sel tab"
  shows "\<exists>d'. interrupt_init b (Some off) (Some True) d = Some (Inr (IDT, d')) \<and>
    tab d' (0x10 + 2 * ucast (irq_number Serial0)) = ucast (irq_vector Serial0) \<and>
    tab d' (0x11 + 2 * ucast (irq_number Serial0)) = push_bit 24 (ucast (ucast (drop_bit 24 (reg d 0x20)) :: u8)) \<and>
    map_option ie_handler (IDT (irq_vector Serial0)) = Some Serial_handler \<and>
    interrupt_init b (Some off) None d = Some (Inr (IDT, d))"
proof -
  let ?a = "XApic_new LAPIC_ADDR" and ?io = "IoApic_new (IOAPIC_ADDR + off)"
  have l: "lapic_spec b (apic_addr ?a) reg pend" using assms(1) by (simp add: XApic_new_def)
  obtain d1 where d1: "cpu_init b ?a d = Some d1" "reg d1 0x20 = reg d 0x20" using cpu_init_regs [OF l, of d] by blast
  have id: "XApic_id b ?a d1 = (drop_bit 24 (reg d 0x20), snd (XApic_read b ?a 0x20 d1))"
    using lapic_read(1) [OF l, of "0x20" d1] d1(2) by (simp add: XApic_id_def split_beta lapic_readable_def)
  let ?d2 = "snd (XApic_read b ?a 0x20 d1)" and ?id = "ucast (drop_bit 24 (reg d 0x20)) :: u8"
  have i: "interrupt_init b (Some off) (Some True) d = Some (Inr (IDT, IoApic_enable b ?io (irq_number Serial0) ?id ?d2))"
    by (simp add: interrupt_init_def XApic_support_def d1 id enable_irq_def physical_to_virtual_def lift_def add.commute)
  have "tab (IoApic_enable b ?io (irq_number Serial0) ?id ?d2) = (tab ?d2)(0x18 := 0x24, 0x19 := push_bit 24 (ucast ?id))"
    using ioapic_routing(1) [OF assms(2), of 4 ?id ?d2] by simp
  with i show ?thesis
    by (simp add: IDT_entries irq_vector_def interrupt_init_def XApic_support_def lift_def)
qed

text \<open>A bus with both controllers: the select and data ports of the I/O APIC at its address, everything else plain
  registers.\<close>

definition apic_model :: "(u64, u32, (u64 \<Rightarrow> u32) \<times> u32 \<times> (u32 \<Rightarrow> u32)) bus" where
  "apic_model =
     \<lparr>bus_read = (\<lambda>(m, s, t) p. (if p = IOAPIC_ADDR + 0x10 then t s else if p = LAPIC_ADDR + 0x300 then 0 else m p, (m, s, t))),
      bus_write = (\<lambda>(m, s, t) p v.
        if p = IOAPIC_ADDR then (m, v, t) else if p = IOAPIC_ADDR + 0x10 then (m, s, t(s := v)) else (m(p := v), s, t))\<rparr>"

theorem interrupt_init_routes_serial_witness:
  "\<exists>d'. interrupt_init apic_model (Some 0) (Some True) (\<lambda>_. 0, 0, \<lambda>_. 0) = Some (Inr (IDT, d')) \<and> snd (snd d') 0x18 = 0x24"
proof -
  have uc: "ucast (ucast r :: u64) = r" for r :: u32 by (simp add: ucast_up_ucast_id is_up)
  then have inv: "ucast r = w \<Longrightarrow> r = ucast w" for r :: u32 and w :: u64 using uc [of r] by auto
  have "lapic_spec apic_model LAPIC_ADDR (\<lambda>d r. fst d (LAPIC_ADDR + ucast r)) (\<lambda>_. 0)"
    unfolding lapic_spec_def apic_model_def LAPIC_ADDR_def IOAPIC_ADDR_def
    by (auto simp: fun_eq_iff lapic_sets split_beta dest!: inv)
  moreover have "ioapic_spec apic_model (IoApic_new (IOAPIC_ADDR + 0)) (\<lambda>d. fst (snd d)) (\<lambda>d. snd (snd d))"
    unfolding ioapic_spec_def apic_model_def IoApic_new_def IOAPIC_ADDR_def LAPIC_ADDR_def by (simp add: split_beta)
  ultimately show ?thesis
    using interrupt_init_routes_serial [of apic_model "\<lambda>d r. fst d (LAPIC_ADDR + ucast r)" "\<lambda>_. 0" 0 "\<lambda>d. fst (snd d)" "\<lambda>d. snd (snd d)" "(\<lambda>_. 0, 0, \<lambda>_. 0)"]
    by (auto simp: irq_vector_def)
qed

section \<open>Faults that are not handled\<close>

text \<open>A page fault of a process outside its own stack region changes nothing: the handler logs it and returns,
  so that the processor repeats the faulting instruction with the same memory and the same registers, and faults
  again. A fault that was not caused by a write to a missing page is treated the same way.\<close>

theorem foreign_fault_changes_nothing:
  assumes "current k = Inr (pid, p)" and "pi_vm p = Some vm" and "\<not> is_on_stack (vm_stack vm) addr"
  shows "page_fault_handler E (Some addr) caused_by_write k = Inr k"
proof -
  have g: "k_procs k pid = Some p"
    using assms(1) by (auto simp: current_def get_proc_def)
  have "p\<lparr>pi_vm := Some vm\<rparr> = p" using assms(2) by (cases p) simp
  with g have "(put_proc pid (p\<lparr>pi_vm := Some vm\<rparr>) k)\<lparr>k_machine := k_machine k\<rparr> = k"
    by (simp add: put_proc_def map_upd_triv)
  then show ?thesis
    using assms by (simp add: page_fault_handler_def proc_handle_page_fault_def manager_handle_page_fault_def
        ProcessInner_handle_page_fault_def vm_of_def ProcessVm_handle_page_fault_def Stack_handle_page_fault_def)
qed

theorem foreign_fault_changes_nothing_witness:
  "page_fault_handler wit_env (Some 0x1000) True wit_trio = Inr wit_trio"
proof (rule foreign_fault_changes_nothing)
  show "current wit_trio = Inr (ProcessId 2, wit_proc Running)"
    by (simp add: current_def get_proc_def wit_trio_def get_pid_def Processor_get_pid_def)
  show "pi_vm (wit_proc Running) = Some (wit_vm\<lparr>vm_stack := wit_stack\<lparr>st_end := 0x3FFFFFFFF000, st_usage := 0\<rparr>\<rparr>)"
    by (simp add: wit_proc_def)
  show "\<not> is_on_stack (vm_stack (wit_vm\<lparr>vm_stack := wit_stack\<lparr>st_end := 0x3FFFFFFFF000, st_usage := 0\<rparr>\<rparr>)) 0x1000"
    by (simp add: is_on_stack_def STACK_START_MASK_def STACK_MAX_SIZE_def STACK_MAX_PAGES_def PAGE_SIZE_def)
qed

end
