(* ===== verification/Boot.thy ===== *)
theory Boot
  imports Input Stack Devices Complex_Main
begin

text \<open>
  Start-up: the configuration file of the boot loader (\<^verbatim>\<open>boot/src/config.rs\<close>), the address-space set-up of
  \<^verbatim>\<open>boot/src/main.rs\<close> with \<^verbatim>\<open>map_physical_memory\<close> of the \<^verbatim>\<open>elf\<close> crate, the sizes of files in pages
  (\<^verbatim>\<open>boot/src/fs.rs\<close>), the page ranges handed to the kernel (\<^verbatim>\<open>boot/src/lib.rs\<close>), and the size formatting of
  \<^verbatim>\<open>kernel/src/utils/mod.rs\<close>. The sequence of \<^verbatim>\<open>efi_main\<close> that uses them is in theory \<open>Loader\<close>.
\<close>

section \<open>Strings\<close>

text \<open>A Rust \<^verbatim>\<open>str\<close> as its characters; lengths and slice positions count bytes of the UTF-8 encoding.\<close>

definition chars :: "string \<Rightarrow> rchar list" where
  "chars s = map of_char s"

definition is_whitespace :: "rchar \<Rightarrow> bool" where
  "is_whitespace c \<longleftrightarrow> 9 \<le> c \<and> c \<le> 13 \<or> c = 0x20 \<or> c = 0x85 \<or> c = 0xA0 \<or> c = 0x1680 \<or>
     0x2000 \<le> c \<and> c \<le> 0x200A \<or> c = 0x2028 \<or> c = 0x2029 \<or> c = 0x202F \<or> c = 0x205F \<or> c = 0x3000"

definition trim :: "rchar list \<Rightarrow> rchar list" where
  "trim s = rev (dropWhile is_whitespace (rev (dropWhile is_whitespace s)))"

text \<open>\<^verbatim>\<open>str::lines\<close>: lines end with a line feed that a carriage return may precede; there is no line after the last
  line feed.\<close>

definition strip_cr :: "rchar list \<Rightarrow> rchar list" where
  "strip_cr s = (if s \<noteq> [] \<and> last s = 13 then butlast s else s)"

fun lines_from :: "rchar list \<Rightarrow> rchar list \<Rightarrow> rchar list list" where
  "lines_from cur [] = (if cur = [] then [] else [cur])"
| "lines_from cur (c # cs) = (if c = 10 then strip_cr cur # lines_from [] cs else lines_from (cur @ [c]) cs)"

definition lines :: "rchar list \<Rightarrow> rchar list list" where
  "lines s = lines_from [] s"

definition split_once :: "rchar \<Rightarrow> rchar list \<Rightarrow> (rchar list \<times> rchar list) option" where
  "split_once c s =
     (if c \<in> set s then Some (takeWhile (\<lambda>x. x \<noteq> c) s, tl (dropWhile (\<lambda>x. x \<noteq> c) s)) else None)"

text \<open>The slice from a byte position on; a position that is not at a character panics.\<close>

fun slice_from :: "nat \<Rightarrow> rchar list \<Rightarrow> rchar list res" where
  "slice_from 0 s = Inr s"
| "slice_from (Suc n) [] = Inl Index_out_of_bounds"
| "slice_from (Suc n) (c # cs) =
     (let w = length (encode_utf8 c) in if w \<le> Suc n then slice_from (Suc n - w) cs else Inl Index_out_of_bounds)"

text \<open>\<^verbatim>\<open>u64::from_str_radix\<close>; \<^verbatim>\<open>from_str\<close> is the case of base ten.\<close>

definition to_digit :: "nat \<Rightarrow> rchar \<Rightarrow> nat option" where
  "to_digit base c =
     (let d = (if 48 \<le> c \<and> c \<le> 57 then c - 48 else if 97 \<le> c \<and> c \<le> 122 then c - 87
               else if 65 \<le> c \<and> c \<le> 90 then c - 55 else base)
      in if d < base then Some d else None)"

fun from_digits :: "nat \<Rightarrow> nat \<Rightarrow> rchar list \<Rightarrow> nat option" where
  "from_digits base acc [] = Some acc"
| "from_digits base acc (c # cs) =
     (case to_digit base c of
        None \<Rightarrow> None
      | Some d \<Rightarrow> if acc * base + d < 2 ^ 64 then from_digits base (acc * base + d) cs else None)"

definition from_str_radix :: "nat \<Rightarrow> rchar list \<Rightarrow> u64 option" where
  "from_str_radix base s =
     (let ds = (if s \<noteq> [] \<and> hd s = 43 then tl s else s)
      in if ds = [] then None else map_option of_nat (from_digits base 0 ds))"

section \<open>The configuration\<close>

text \<open>\<open>92\<close> is the backslash.\<close>

record Config =
  kernel_stack_address :: u64
  kernel_stack_auto_grow :: u64
  kernel_stack_size :: u64
  physical_memory_offset :: u64
  kernel_path :: "rchar list"
  cmdline :: "rchar list"
  load_apps_flag :: bool

definition DEFAULT_CONFIG :: Config where
  "DEFAULT_CONFIG =
     \<lparr>kernel_stack_address = 0xFFFFFF0100000000, kernel_stack_auto_grow = 0, kernel_stack_size = 512,
      physical_memory_offset = 0xFFFF800000000000, kernel_path = 92 # chars ''KERNEL.ELF'', cmdline = [],
      load_apps_flag = True\<rparr>"

definition unwrap_or :: "'a \<Rightarrow> 'a option \<Rightarrow> 'a" where
  "unwrap_or x v = (case v of None \<Rightarrow> x | Some y \<Rightarrow> y)"

definition Config_process :: "rchar list \<Rightarrow> rchar list \<Rightarrow> Config \<Rightarrow> Config res" where
  "Config_process key value self =
     (let r10 = unwrap_or 0 (from_str_radix 10 value)
      in rbind (if line_len value > 2
                then rbind (slice_from 2 value) (\<lambda>v. Inr (unwrap_or 0 (from_str_radix 16 v)))
                else Inr 0) (\<lambda>r16.
           Inr (if key = chars ''kernel_stack_address'' then self\<lparr>kernel_stack_address := r16\<rparr>
                else if key = chars ''kernel_stack_size'' then self\<lparr>kernel_stack_size := r10\<rparr>
                else if key = chars ''physical_memory_offset'' then self\<lparr>physical_memory_offset := r16\<rparr>
                else if key = chars ''kernel_path'' then self\<lparr>kernel_path := value\<rparr>
                else if key = chars ''kernel_stack_auto_grow'' then self\<lparr>kernel_stack_auto_grow := r10\<rparr>
                else if key = chars ''cmdline'' then self\<lparr>cmdline := value\<rparr>
                else if key = chars ''load_apps'' then self\<lparr>load_apps_flag := (r10 \<noteq> 0)\<rparr>
                else self)))"

text \<open>The loop over the lines; \<open>35\<close> is the hash sign, \<open>61\<close> the equals sign.\<close>

fun Config_lines :: "rchar list list \<Rightarrow> Config \<Rightarrow> Config res" where
  "Config_lines [] config = Inr config"
| "Config_lines (l # ls) config =
     (let line = trim l
      in if line = [] \<or> hd line = 35 then Config_lines ls config
         else case split_once 61 line of
                None \<Rightarrow> Config_lines ls config
              | Some (key, value) \<Rightarrow> rbind (Config_process key value config) (Config_lines ls))"

definition Config_parse :: "u8 list \<Rightarrow> Config res" where
  "Config_parse content =
     rbind (expect (Expect_failed ''failed to parse config as utf8'') (from_utf8 content))
       (\<lambda>text. Config_lines (lines text) DEFAULT_CONFIG)"

section \<open>The address space that the boot loader builds\<close>

text \<open>The first page and the number of pages that are mapped for the kernel stack, and the initial stack pointer.\<close>

definition kernel_stack_region :: "Config \<Rightarrow> u64 \<times> u64" where
  "kernel_stack_region config =
     (if kernel_stack_auto_grow config > 0
      then let init_size = kernel_stack_auto_grow config;
               bottom_offset = (kernel_stack_size config - init_size) * 0x1000;
               init_bottom = kernel_stack_address config + bottom_offset
           in (init_bottom, init_size)
      else (kernel_stack_address config, kernel_stack_size config))"

definition stacktop :: "Config \<Rightarrow> u64" where
  "stacktop config = kernel_stack_address config + kernel_stack_size config * 0x1000 - 8"

text \<open>The entries of the firmware's memory map as start and page count.\<close>

definition max_phys_addr :: "(u64 \<times> u64) list \<Rightarrow> u64 res" where
  "max_phys_addr mmap =
     (if mmap = [] then Inl Unwrap_failed
      else Inr (max (foldr max (map (\<lambda>(s, n). s + n * 0x1000) mmap) 0) 0x100000000))"

text \<open>\<^verbatim>\<open>map_physical_memory\<close> with pages of 2 MiB. The crate's mapper for that page size is the parameter
  \<open>map_huge\<close>; \<^verbatim>\<open>PhysAddr::new\<close> panics above 52 bits.\<close>

definition huge_align :: "u64 \<Rightarrow> u64" where
  "huge_align a = a div 0x200000 * 0x200000"

definition huge_frames :: "u64 \<Rightarrow> u64 list" where
  "huge_frames max_addr = map (\<lambda>i. of_nat i * 0x200000) [0..<Suc (unat max_addr div 0x200000)]"

type_synonym ('m, 'a) huge_mapper = "u64 \<Rightarrow> u64 \<Rightarrow> pt_flag set \<Rightarrow> 'm \<Rightarrow> 'a \<Rightarrow> (map_error + unit) \<times> 'm \<times> 'a"

fun map_huge_frames :: "('m, 'a) huge_mapper \<Rightarrow> 'z addr_ops_scheme \<Rightarrow> u64 \<Rightarrow> u64 list \<Rightarrow> 'm \<Rightarrow> 'a \<Rightarrow> ('m \<times> 'a) res" where
  "map_huge_frames map_huge X offset [] m a = Inr (m, a)"
| "map_huge_frames map_huge X offset (frame # frames) m a =
     rbind (expect Address_panic (va_new X (frame + offset))) (\<lambda>va.
       case map_huge (huge_align va) frame {PRESENT, WRITABLE} m a of
         (Inl e, _) \<Rightarrow> Inl (Expect_failed ''Failed to map physical memory'')
       | (Inr _, m', a') \<Rightarrow> map_huge_frames map_huge X offset frames m' a')"

definition map_physical_memory :: "('m, 'a) huge_mapper \<Rightarrow> 'z addr_ops_scheme \<Rightarrow> u64 \<Rightarrow> u64 \<Rightarrow> 'm \<Rightarrow> 'a \<Rightarrow> ('m \<times> 'a) res" where
  "map_physical_memory map_huge X offset max_addr m a =
     (if unat max_addr < 2 ^ 52 then map_huge_frames map_huge X offset (huge_frames max_addr) m a else Inl Address_panic)"

section \<open>Page ranges of the kernel image\<close>

definition get_page_range :: "'z addr_ops_scheme \<Rightarrow> ProgramHeader \<Rightarrow> (page \<times> page) res" where
  "get_page_range X segment =
     (let start = ph_virtual_addr segment; stop = start + ph_mem_size segment - 1
      in rbind (expect Address_panic (va_new X start)) (\<lambda>vs.
         rbind (expect Address_panic (va_new X stop)) (\<lambda>ve.
           Inr (page_containing X vs, page_containing X ve))))"

text \<open>Collecting into an \<^verbatim>\<open>ArrayVec\<close> of capacity 8 panics at the ninth element.\<close>

fun page_ranges :: "'z addr_ops_scheme \<Rightarrow> ProgramHeader list \<Rightarrow> (page \<times> page) list res" where
  "page_ranges X [] = Inr []"
| "page_ranges X (h # hs) =
     rbind (get_page_range X h) (\<lambda>r. rbind (page_ranges X hs) (\<lambda>rs. Inr (r # rs)))"

definition KERNEL_PAGES_CAP :: nat where
  "KERNEL_PAGES_CAP = 8"

definition get_page_usage :: "'z addr_ops_scheme \<Rightarrow> ElfFile \<Rightarrow> (page \<times> page) list res" where
  "get_page_usage X elf =
     (let hs = filter (\<lambda>h. ph_is_load h = Some True) (elf_headers elf)
      in rbind (page_ranges X (take KERNEL_PAGES_CAP hs)) (\<lambda>rs.
           if length hs \<le> KERNEL_PAGES_CAP then Inr rs
           else rbind (get_page_range X (hs ! KERNEL_PAGES_CAP)) (\<lambda>_. Inl (Panicked ''ArrayVec: capacity exceeded in extend/from_iter''))))"

section \<open>Files and applications\<close>

definition load_file_pages :: "u64 \<Rightarrow> u64" where
  "load_file_pages file_size = file_size div 0x1000 + 1"

definition free_elf_pages :: "nat \<Rightarrow> u64" where
  "free_elf_pages len = of_nat len div 0x1000 + 1"

text \<open>The capacity of the list of applications.\<close>

definition MAX_LIST_APP :: nat where
  "MAX_LIST_APP = 16"

section \<open>Sizes for people\<close>

text \<open>A \<^verbatim>\<open>u64\<close> as an \<^verbatim>\<open>f32\<close>: rounded to 24 significant bits, ties to even. The result is a whole number.\<close>

fun bit_length :: "nat \<Rightarrow> nat" where
  "bit_length n = (if n = 0 then 0 else Suc (bit_length (n div 2)))"

declare bit_length.simps [simp del]

definition as_f32 :: "nat \<Rightarrow> nat" where
  "as_f32 n =
     (if n < 2 ^ 24 then n
      else let e = bit_length n - 24; q = n div 2 ^ e; r = n mod 2 ^ e
           in (if 2 * r > 2 ^ e \<or> 2 * r = 2 ^ e \<and> odd q then Suc q else q) * 2 ^ e)"

definition SHORT_UNITS :: "string list" where
  "SHORT_UNITS = [''B'', ''K'', ''M'', ''G'']"

definition UNITS :: "string list" where
  "UNITS = [''B'', ''KiB'', ''MiB'', ''GiB'']"

text \<open>Division of an \<^verbatim>\<open>f32\<close> by 1024 is exact here.\<close>

function humanized_loop :: "nat \<Rightarrow> rat \<Rightarrow> nat \<Rightarrow> rat \<times> nat" where
  "humanized_loop len bytes unit =
     (if bytes \<ge> 1024 \<and> unit < len then humanized_loop len (bytes / 1024) (unit + 1) else (bytes, unit))"
  by auto
termination
  by (relation "measure (\<lambda>(len, bytes, unit). len - unit)") auto

declare humanized_loop.simps [simp del]

definition humanized_size_impl :: "u64 \<Rightarrow> bool \<Rightarrow> (rat \<times> string) res" where
  "humanized_size_impl sz short =
     (let bytes = of_nat (as_f32 (unat sz));
          units = (if short then SHORT_UNITS else UNITS);
          (bytes, unit) = humanized_loop (length units) bytes 0
      in if unit < length units then Inr (bytes, units ! unit) else Inl Index_out_of_bounds)"

definition humanized_size :: "u64 \<Rightarrow> (rat \<times> string) res" where
  "humanized_size sz = humanized_size_impl sz False"

definition humanized_size_short :: "u64 \<Rightarrow> (rat \<times> string) res" where
  "humanized_size_short sz = humanized_size_impl sz True"

section \<open>Numbers round trip\<close>

definition digit_char :: "nat \<Rightarrow> rchar" where
  "digit_char d = (if d < 10 then 48 + d else 55 + d)"

fun digits_of :: "nat \<Rightarrow> nat \<Rightarrow> rchar list" where
  "digits_of base n =
     (if base < 2 \<or> n < base then [digit_char n] else digits_of base (n div base) @ [digit_char (n mod base)])"

declare digits_of.simps [simp del]

lemma to_digit_digit_char: "d < base \<Longrightarrow> base \<le> 36 \<Longrightarrow> to_digit base (digit_char d) = Some d"
  by (auto simp: to_digit_def digit_char_def)

lemma from_digits_snoc:
  "from_digits base acc (cs @ [c]) =
     (case from_digits base acc cs of
        None \<Rightarrow> None
      | Some n \<Rightarrow> (case to_digit base c of None \<Rightarrow> None | Some d \<Rightarrow> if n * base + d < 2 ^ 64 then Some (n * base + d) else None))"
  by (induction base acc cs rule: from_digits.induct) (auto split: option.splits)

lemma from_digits_of:
  assumes "2 \<le> base" and "base \<le> 36" and "n < 2 ^ 64"
  shows "from_digits base 0 (digits_of base n) = Some n"
  using assms
proof (induction base n rule: digits_of.induct)
  case (1 base n)
  show ?case
  proof (cases "n < base")
    case True
    then show ?thesis using 1 by (subst digits_of.simps) (simp add: to_digit_digit_char)
  next
    case False
    have "n div base < 2 ^ 64" using 1(4) by (meson div_le_dividend le_less_trans)
    then have "from_digits base 0 (digits_of base (n div base)) = Some (n div base)" using 1 False by simp
    moreover have "to_digit base (digit_char (n mod base)) = Some (n mod base)" using 1 by (simp add: to_digit_digit_char)
    ultimately show ?thesis using 1 False by (subst digits_of.simps) (simp add: from_digits_snoc)
  qed
qed

lemma digits_of_ascii: "base \<le> 36 \<Longrightarrow> c \<in> set (digits_of base n) \<Longrightarrow> 2 \<le> base \<Longrightarrow> 48 \<le> c \<and> c < 0x80"
proof (induction base n rule: digits_of.induct)
  case (1 base n)
  show ?case
  proof (cases "n < base")
    case True
    then show ?thesis using 1(2-4) by (subst (asm) digits_of.simps) (auto simp: digit_char_def split: if_splits)
  next
    case False
    have "n mod base < 36" using 1(2,4) by (meson less_le_trans mod_less_divisor not_numeral_le_zero not_le)
    with False 1 show ?thesis by (subst (asm) (2) digits_of.simps) (auto simp: digit_char_def split: if_splits)
  qed
qed

lemma digits_of_nonempty: "digits_of base n \<noteq> []"
  by (subst digits_of.simps) simp

lemma from_str_radix_digits:
  assumes "2 \<le> base" and "base \<le> 36"
  shows "from_str_radix base (digits_of base (unat w)) = Some w"
proof -
  have "48 \<le> hd (digits_of base (unat w))"
    using digits_of_ascii [OF assms(2) hd_in_set [OF digits_of_nonempty] assms(1)] by blast
  then show ?thesis
    using from_digits_of [OF assms, of "unat w"] unat_word_less_pow [of w] digits_of_nonempty by (simp add: from_str_radix_def)
qed

section \<open>The configuration file round trip\<close>

definition ascii :: "rchar list \<Rightarrow> bool" where
  "ascii s \<longleftrightarrow> (\<forall>c \<in> set s. c < 0x80)"

lemma encode_ascii: "ascii s \<Longrightarrow> concat (map encode_utf8 s) = map of_nat s"
  by (induction s) (auto simp: ascii_def encode_utf8_def)

lemma line_len_ascii: "ascii s \<Longrightarrow> line_len s = length s"
  by (simp add: line_len_def encode_ascii)

lemma slice_ascii: "ascii s \<Longrightarrow> n \<le> length s \<Longrightarrow> slice_from n s = Inr (drop n s)"
  by (induction n s rule: slice_from.induct) (auto simp: ascii_def encode_utf8_def)

lemma from_utf8_ascii: "ascii s \<Longrightarrow> from_utf8 (map of_nat s) = Some s"
proof (induction s)
  case (Cons c s)
  then have "unat (of_nat c :: u8) = c" by (simp add: ascii_def unat_of_nat)
  with Cons show ?case by (subst from_utf8.simps) (auto simp: decode1_def ascii_def)
qed (simp add: from_utf8.simps)

lemma lines_joined:
  assumes "\<forall>l \<in> set ls. 10 \<notin> set l \<and> (l = [] \<or> last l \<noteq> 13)"
  shows "lines (concat (map (\<lambda>l. l @ [10]) ls)) = ls"
proof -
  have step: "10 \<notin> set l \<Longrightarrow> lines_from cur (l @ 10 # rest) = strip_cr (cur @ l) # lines_from [] rest" for cur l rest
    by (induction l arbitrary: cur) auto
  show ?thesis using assms unfolding lines_def by (induction ls) (auto simp: step strip_cr_def)
qed

lemma trim_id:
  assumes "s \<noteq> []" and "\<not> is_whitespace (hd s)" and "\<not> is_whitespace (last s)"
  shows "trim s = s"
proof -
  have "dropWhile is_whitespace s = s" "dropWhile is_whitespace (rev s) = rev s"
    using assms by (simp_all add: dropWhile_eq_self_iff hd_rev)
  then show ?thesis by (simp add: trim_def)
qed

lemma trim_padded:
  assumes "\<forall>c \<in> set (before @ after). is_whitespace c" and "s \<noteq> []" and "\<not> is_whitespace (hd s)" and "\<not> is_whitespace (last s)"
  shows "trim (before @ s @ after) = s"
proof -
  have "dropWhile is_whitespace (s @ after) = s @ after" "dropWhile is_whitespace (rev s) = rev s"
    using assms(2-4) by (simp_all add: dropWhile_eq_self_iff hd_rev)
  moreover have "dropWhile is_whitespace (before @ s @ after) = dropWhile is_whitespace (s @ after)"
    "dropWhile is_whitespace (rev after @ rev s) = dropWhile is_whitespace (rev s)"
    using assms(1) by (auto intro: dropWhile_append2)
  ultimately show ?thesis by (simp add: trim_def)
qed

lemma split_once_first: "61 \<notin> set key \<Longrightarrow> split_once 61 (key @ 61 # value) = Some (key, value)"
  by (auto simp: split_once_def takeWhile_append dropWhile_append)

text \<open>A line \<open>key=value\<close> without blanks around it reaches \<^verbatim>\<open>process\<close> with that key and value.\<close>

lemma Config_lines_entry:
  assumes "key \<noteq> []" and "61 \<notin> set key" and "hd key \<noteq> 35" and "\<not> is_whitespace (hd key)"
    and "value = [] \<or> \<not> is_whitespace (last value)"
  shows "Config_lines ((key @ 61 # value) # ls) c = rbind (Config_process key value c) (Config_lines ls)"
proof -
  have "\<not> is_whitespace (61 :: rchar)" by (simp add: is_whitespace_def)
  then have "trim (key @ 61 # value) = key @ 61 # value" using assms by (intro trim_id) auto
  then show ?thesis using assms by (simp add: split_once_first)
qed

lemma Config_process_ascii:
  assumes "ascii value"
  shows "Config_process key value self =
    Inr (let r10 = unwrap_or 0 (from_str_radix 10 value);
             r16 = (if length value > 2 then unwrap_or 0 (from_str_radix 16 (drop 2 value)) else 0)
         in if key = chars ''kernel_stack_address'' then self\<lparr>kernel_stack_address := r16\<rparr>
            else if key = chars ''kernel_stack_size'' then self\<lparr>kernel_stack_size := r10\<rparr>
            else if key = chars ''physical_memory_offset'' then self\<lparr>physical_memory_offset := r16\<rparr>
            else if key = chars ''kernel_path'' then self\<lparr>kernel_path := value\<rparr>
            else if key = chars ''kernel_stack_auto_grow'' then self\<lparr>kernel_stack_auto_grow := r10\<rparr>
            else if key = chars ''cmdline'' then self\<lparr>cmdline := value\<rparr>
            else if key = chars ''load_apps'' then self\<lparr>load_apps_flag := (r10 \<noteq> 0)\<rparr>
            else self)"
  using assms by (simp add: Config_process_def Let_def line_len_ascii slice_ascii)

text \<open>A configuration as a file; \<open>48\<close> and \<open>120\<close> are the prefix of hexadecimal numbers.\<close>

definition config_entries :: "Config \<Rightarrow> (string \<times> rchar list) list" where
  "config_entries c =
     [(''kernel_stack_address'', 48 # 120 # digits_of 16 (unat (kernel_stack_address c))),
      (''kernel_stack_size'', digits_of 10 (unat (kernel_stack_size c))),
      (''physical_memory_offset'', 48 # 120 # digits_of 16 (unat (physical_memory_offset c))),
      (''kernel_path'', kernel_path c),
      (''kernel_stack_auto_grow'', digits_of 10 (unat (kernel_stack_auto_grow c))),
      (''cmdline'', cmdline c),
      (''load_apps'', digits_of 10 (if load_apps_flag c then 1 else 0))]"

definition config_file :: "Config \<Rightarrow> rchar list" where
  "config_file c = concat (map (\<lambda>(key, value). (chars key @ 61 # value) @ [10]) (config_entries c))"

definition plain_text :: "rchar list \<Rightarrow> bool" where
  "plain_text s \<longleftrightarrow> (\<forall>c \<in> set s. c < 0x80 \<and> c \<noteq> 10) \<and> (s = [] \<or> \<not> is_whitespace (last s))"

lemma plain_textD: "plain_text s \<Longrightarrow> ascii s" "plain_text s \<Longrightarrow> 10 \<notin> set s"
    "plain_text s \<Longrightarrow> s = [] \<or> \<not> is_whitespace (last s)"
  by (auto simp: plain_text_def ascii_def)

lemma plain_digits:
  assumes "2 \<le> base" "base \<le> 36"
  shows "plain_text (digits_of base n)"
proof -
  have "48 \<le> c \<and> c < 0x80" if "c \<in> set (digits_of base n)" for c using digits_of_ascii [OF assms(2) that assms(1)] .
  moreover have "last (digits_of base n) \<in> set (digits_of base n)" using digits_of_nonempty by (rule last_in_set)
  ultimately show ?thesis by (fastforce simp: plain_text_def is_whitespace_def)
qed

lemma plain_hex: "plain_text (48 # 120 # digits_of 16 n)"
  using plain_digits [of 16 n] digits_of_nonempty [of 16 n] by (auto simp: plain_text_def chars_def)

lemma config_entries_plain:
  assumes "plain_text (kernel_path c)" and "plain_text (cmdline c)" and "(key, value) \<in> set (config_entries c)"
  shows "plain_text value"
  using assms plain_hex plain_digits [of 10] by (auto simp: config_entries_def)

lemma Config_lines_key:
  assumes "key \<in> {''kernel_stack_address'', ''kernel_stack_size'', ''physical_memory_offset'', ''kernel_path'',
      ''kernel_stack_auto_grow'', ''cmdline'', ''load_apps''}" and "plain_text value"
  shows "Config_lines ((chars key @ 61 # value) # ls) c = rbind (Config_process (chars key) value c) (Config_lines ls)"
proof (rule Config_lines_entry)
  show "value = [] \<or> \<not> is_whitespace (last value)" by (rule plain_textD(3) [OF assms(2)])
qed (use assms(1) in \<open>auto simp: chars_def is_whitespace_def\<close>)

lemma chars_eq_iff [simp]: "chars a = chars b \<longleftrightarrow> a = b"
proof -
  have "inj (of_char :: char \<Rightarrow> nat)" by (rule injI) (metis char_of_char)
  then show ?thesis by (simp add: chars_def inj_map_eq_map)
qed

lemma Config_lines_numbers:
  assumes "plain_text (kernel_path c)" and "plain_text (cmdline c)"
  shows "Config_lines (map (\<lambda>(key, value). chars key @ 61 # value) (config_entries c)) d = Inr c"
proof -
  have hex: "unwrap_or 0 (from_str_radix 16 (digits_of 16 (unat w))) = w" for w
    using from_str_radix_digits [of 16 w] by (simp add: unwrap_or_def)
  have dec: "unwrap_or 0 (from_str_radix 10 (digits_of 10 (unat w))) = w" for w
    using from_str_radix_digits [of 10 w] by (simp add: unwrap_or_def)
  have flag: "unwrap_or 0 (from_str_radix 10 (digits_of 10 (if b then 1 else 0))) \<noteq> 0 \<longleftrightarrow> b" for b
    using dec [of 1] dec [of 0] by simp
  note plain = plain_hex plain_digits [of 10, simplified] assms
  show ?thesis
    unfolding config_entries_def list.map prod.case
    by (simp add: Config_lines_key plain Config_process_ascii plain_textD(1) [OF plain_hex] plain_textD(1) [OF plain(2)]
        plain_textD(1) [OF assms(1)] plain_textD(1) [OF assms(2)] Let_def hex dec flag digits_of_nonempty del: Config_lines.simps(2))
qed

text \<open>C36. A configuration written as a file is read back unchanged: every number of 64 bits, in decimal or hexadecimal
  as its key wants it, the flag, and texts of one line of ASCII characters that do not end in a blank.\<close>

theorem config_roundtrip:
  assumes "plain_text (kernel_path c)" and "plain_text (cmdline c)"
  shows "Config_parse (map of_nat (config_file c)) = Inr c"
proof -
  let ?ls = "map (\<lambda>(key, value). chars key @ 61 # value) (config_entries c)"
  have keys: "ascii (chars key) \<and> 10 \<notin> set (chars key)" if "(key, v) \<in> set (config_entries c)" for key v
    using that by (auto simp: config_entries_def chars_def ascii_def)
  have cf: "config_file c = concat (map (\<lambda>l. l @ [10]) ?ls)"
    by (simp add: config_file_def comp_def case_prod_unfold)
  have "ascii (config_file c)"
    using keys config_entries_plain [OF assms] unfolding config_file_def plain_text_def ascii_def by fastforce
  moreover have "lines (config_file c) = ?ls"
    unfolding cf
  proof (rule lines_joined, intro ballI)
    fix l assume "l \<in> set ?ls"
    then obtain key v where kv: "(key, v) \<in> set (config_entries c)" "l = chars key @ 61 # v" by auto
    have "plain_text v" by (rule config_entries_plain [OF assms kv(1)])
    then show "10 \<notin> set l \<and> (l = [] \<or> last l \<noteq> 13)"
      using keys [OF kv(1)] kv(2) by (auto simp: plain_text_def is_whitespace_def)
  qed
  ultimately show ?thesis
    unfolding Config_parse_def by (simp add: from_utf8_ascii Config_lines_numbers [OF assms])
qed

theorem config_roundtrip_witness:
  "Config_parse (map of_nat (config_file DEFAULT_CONFIG)) = Inr DEFAULT_CONFIG"
  by (rule config_roundtrip) (simp_all add: DEFAULT_CONFIG_def plain_text_def chars_def is_whitespace_def)

section \<open>The configuration of the repository\<close>

text \<open>The lines of \<^verbatim>\<open>kernel/config/boot.conf\<close> that are not comments.\<close>

definition boot_conf_lines :: "rchar list list" where
  "boot_conf_lines =
     [chars ''kernel_stack_address'' @ 61 # chars ''0xFFFFFF0100000000'',
      chars ''kernel_stack_size'' @ 61 # chars ''1048576'',
      chars ''physical_memory_offset'' @ 61 # chars ''0xFFFF800000000000'',
      chars ''kernel_path'' @ 61 # 92 # chars ''KERNEL.ELF'',
      chars ''kernel_stack_auto_grow'' @ 61 # chars ''8'',
      chars ''load_apps = 1'']"

text \<open>Only the line is trimmed, not the key: with blanks around the equals sign the key is not known.\<close>

lemma load_apps_blank_ignored: "v \<in> {''0'', ''1''} \<Longrightarrow> Config_lines (chars (''load_apps = '' @ v) # ls) c = Config_lines ls c"
  by (auto simp: trim_def is_whitespace_def split_once_def Config_process_def chars_def line_len_def encode_utf8_def)

lemma Config_lines_append: "Config_lines (ls @ ls') c = rbind (Config_lines ls c) (Config_lines ls')"
proof (induction ls arbitrary: c)
  case (Cons l ls)
  then have "Config_lines (ls @ ls') = (\<lambda>c. rbind (Config_lines ls c) (Config_lines ls'))" by blast
  then show ?case by (simp add: Let_def rbind_assoc split: option.splits prod.splits)
qed simp

lemma boot_conf_parsed:
  "Config_lines boot_conf_lines DEFAULT_CONFIG =
     Inr \<lparr>kernel_stack_address = 0xFFFFFF0100000000, kernel_stack_auto_grow = 8, kernel_stack_size = 1048576,
       physical_memory_offset = 0xFFFF800000000000, kernel_path = 92 # chars ''KERNEL.ELF'', cmdline = [],
       load_apps_flag = True\<rparr>"
proof -
  have plain: "plain_text (chars ''0xFFFFFF0100000000'')" "plain_text (chars ''1048576'')" "plain_text (chars ''0xFFFF800000000000'')"
      "plain_text (92 # chars ''KERNEL.ELF'')" "plain_text (chars ''8'')"
    by (simp_all add: plain_text_def chars_def is_whitespace_def)
  have num: "from_str_radix 16 (drop 2 (chars ''0xFFFFFF0100000000'')) = Some 0xFFFFFF0100000000"
      "from_str_radix 16 (drop 2 (chars ''0xFFFF800000000000'')) = Some 0xFFFF800000000000"
      "from_str_radix 10 (chars ''1048576'') = Some 1048576" "from_str_radix 10 (chars ''8'') = Some 8"
    by (simp_all add: from_str_radix_def chars_def to_digit_def)
  have len: "length (chars v) = length v" for v by (simp add: chars_def)
  have blank: "Config_lines [chars ''load_apps = 1''] c = Inr c" for c
    using load_apps_blank_ignored [of "''1''" "[]" c] by simp
  show ?thesis
    unfolding boot_conf_lines_def
    by (simp add: Config_lines_key plain plain_textD(1) Config_process_ascii Let_def num len unwrap_or_def blank DEFAULT_CONFIG_def
        del: Config_lines.simps(2))
qed

abbreviation boot_conf_file :: "u8 list" where
  "boot_conf_file \<equiv> map of_nat (concat (map (\<lambda>l. l @ [10]) boot_conf_lines))"

lemma boot_conf_file_lines: "Config_parse boot_conf_file = Config_lines boot_conf_lines DEFAULT_CONFIG"
proof -
  have "ascii (concat (map (\<lambda>l. l @ [10]) boot_conf_lines))"
    by (simp add: boot_conf_lines_def ascii_def chars_def)
  moreover have "lines (concat (map (\<lambda>l. l @ [10]) boot_conf_lines)) = boot_conf_lines"
    by (rule lines_joined) (simp add: boot_conf_lines_def chars_def)
  ultimately show ?thesis by (simp add: Config_parse_def from_utf8_ascii)
qed

text \<open>The configuration that the repository ships agrees with the constants that the kernel is compiled with: the
  stack pages that the boot loader maps are exactly the pages of \<^verbatim>\<open>Stack::kstack\<close>, the initial stack pointer is the
  top of the kernel stack, and the stack starts at its lowest address. The last line of the file has no effect: with
  the blanks around its equals sign the value could be anything.\<close>

theorem boot_conf_matches_kernel:
  "\<exists>c. Config_parse boot_conf_file = Inr c \<and>
     kernel_stack_region c = (KSTACK_INIT_BOT, KSTACK_DEF_PAGE) \<and> stacktop c = KSTACK_INIT_TOP \<and>
     kernel_stack_address c = KSTACK_DEF_BOT \<and> load_apps_flag c \<and>
     Config_lines (butlast boot_conf_lines @ [chars ''load_apps = 0'']) DEFAULT_CONFIG = Inr c"
proof -
  have b: "boot_conf_lines = butlast boot_conf_lines @ [chars ''load_apps = 1'']" by (simp add: boot_conf_lines_def)
  have e: "Config_lines [chars ''load_apps = 1''] = Inr" "Config_lines [chars ''load_apps = 0''] = Inr"
    using load_apps_blank_ignored [of "''1''" "[]"] load_apps_blank_ignored [of "''0''" "[]"] by (simp_all add: fun_eq_iff)
  have "Config_lines (butlast boot_conf_lines @ [chars ''load_apps = 0'']) DEFAULT_CONFIG = Config_lines boot_conf_lines DEFAULT_CONFIG"
    unfolding Config_lines_append by (subst (2) b) (simp only: Config_lines_append e)
  then show ?thesis
    unfolding boot_conf_file_lines boot_conf_parsed by (simp add: kernel_stack_region_def stacktop_def stack_consts KSTACK_DEF_BOT_def)
qed

section \<open>Physical memory is mapped\<close>

text \<open>The documented behaviour of the crate's mapper for pages of 2 MiB: a successful call adds one translation.\<close>

definition huge_spec :: "('m, 'a) huge_mapper \<Rightarrow> ('m \<Rightarrow> u64 \<Rightarrow> u64 option) \<Rightarrow> bool" where
  "huge_spec map_huge tr \<longleftrightarrow>
     (\<forall>page frame flags m a m' a'. map_huge page frame flags m a = (Inr (), m', a') \<longrightarrow> tr m' = (tr m)(page \<mapsto> frame))"

lemma map_huge_frames_translates:
  assumes spec: "huge_spec map_huge tr" and X: "x86_addresses X"
    and frames: "\<And>f. f \<in> set frames \<Longrightarrow> huge_align (f + offset) = f + base"
    and run: "map_huge_frames map_huge X offset frames m a = Inr (m', a')"
  shows "tr m' = (\<lambda>page. if page - base \<in> set frames then Some (page - base) else tr m page)"
  using frames run
proof (induction frames arbitrary: m a)
  case (Cons f fs)
  from Cons.prems(2) obtain va where va: "va_new X (f + offset) = Some va" by (auto simp: expect_eq_Inr_iff)
  have "va = f + offset" using va x86_addresses.va_new_ok [OF X, of "f + offset"] x86_addresses.va_new_panics [OF X, of "f + offset"]
    by (cases "canonical (f + offset)") auto
  then obtain m1 a1 where m1: "map_huge (f + base) f {PRESENT, WRITABLE} m a = (Inr (), m1, a1)"
      "map_huge_frames map_huge X offset fs m1 a1 = Inr (m', a')"
    using Cons.prems va by (cases "map_huge (f + base) f {PRESENT, WRITABLE} m a") (auto split: sum.splits)
  have "tr m1 = (tr m)(f + base \<mapsto> f)" using spec m1(1) unfolding huge_spec_def by blast
  with Cons.IH [OF _ m1(2)] Cons.prems(1) show ?case by (auto simp: fun_eq_iff algebra_simps)
qed auto

lemma huge_align_iff: "huge_align a = a \<longleftrightarrow> unat a mod 0x200000 = 0"
proof -
  have "huge_align a + a mod 0x200000 = a" unfolding huge_align_def by (rule word_mod_div_equality)
  then have "huge_align a = a \<longleftrightarrow> a mod 0x200000 = 0" by (metis add.right_neutral add_left_cancel)
  then show ?thesis by (simp add: word_unat_eq_iff unat_mod)
qed

lemma huge_align_add:
  assumes "huge_align a = a" and "huge_align b = b"
  shows "huge_align (a + b) = a + b"
proof -
  have "(unat a + unat b) mod 0x200000 = 0" using assms unfolding huge_align_iff by (simp add: mod_add_eq [symmetric])
  then show ?thesis unfolding huge_align_iff by (simp add: unat_word_ariths mod_mod_cancel)
qed

lemma huge_align_idem: "huge_align (huge_align a) = huge_align a"
proof -
  have "unat a div 0x200000 * 0x200000 < 2 ^ 64"
    using unat_word_less_pow [of a] div_times_less_eq_dividend [of "unat a" "0x200000"] by (simp del: unat_word_less_pow)
  then show ?thesis unfolding huge_align_iff by (simp add: huge_align_def unat_word_ariths unat_div)
qed

lemma huge_align_offset:
  assumes "huge_align x = x" and "unat r < 0x200000"
  shows "huge_align (x + r) = x"
proof -
  obtain k where k: "unat x = 0x200000 * k" using assms(1) unfolding huge_align_iff by (metis mod_0_imp_dvd dvdE)
  have "unat x + unat r < 2 ^ 64" using k unat_word_less_pow [of x] assms(2) by (simp del: unat_word_less_pow)
  then have "unat (x + r) = 0x200000 * k + unat r" using k by (simp add: unat_add_no_overflow)
  then have "unat (x + r) div 0x200000 * 0x200000 = unat x" using k assms(2) by simp
  then show ?thesis unfolding word_unat_eq_iff huge_align_def by (simp add: unat_word_ariths unat_div)
qed

lemma huge_frames_mem: "p \<le> max_addr \<Longrightarrow> huge_align p \<in> set (huge_frames max_addr)"
proof -
  assume "p \<le> max_addr"
  then have "unat p div 0x200000 \<le> unat max_addr div 0x200000" by (simp add: word_le_nat_alt div_le_mono)
  moreover have "huge_align p = of_nat (unat p div 0x200000) * 0x200000"
    by (simp add: huge_align_def word_unat_eq_iff unat_word_ariths unat_div unat_of_nat)
  ultimately show ?thesis unfolding huge_frames_def by (simp add: less_Suc_eq_le image_iff del: upt_Suc) (rule bexI [of _ "unat p div 0x200000"], simp_all)
qed

lemma huge_frames_aligned: "f \<in> set (huge_frames max_addr) \<Longrightarrow> huge_align f = f"
proof -
  assume "f \<in> set (huge_frames max_addr)"
  then obtain i where "f = of_nat i * 0x200000" by (auto simp: huge_frames_def)
  then show ?thesis unfolding huge_align_iff by (simp add: unat_word_ariths unat_of_nat mod_mod_cancel)
qed

text \<open>The physical address that a virtual address reaches through pages of 2 MiB.\<close>

definition huge_reach :: "('m \<Rightarrow> u64 \<Rightarrow> u64 option) \<Rightarrow> 'm \<Rightarrow> u64 \<Rightarrow> u64 option" where
  "huge_reach tr m va = map_option (\<lambda>f. f + (va - huge_align va)) (tr m (huge_align va))"

lemma huge_align_rest: "unat (a - huge_align a) < 0x200000" "a = huge_align a + (a - huge_align a)"
proof -
  have "a - huge_align a = a mod 0x200000"
    using word_mod_div_equality [of a "0x200000"] by (simp add: huge_align_def algebra_simps)
  then show "unat (a - huge_align a) < 0x200000" by (simp add: unat_mod)
qed simp

lemma huge_align_shift: "huge_align x = x \<Longrightarrow> huge_align (a + x) = huge_align a + x"
proof -
  assume x: "huge_align x = x"
  have "a + x = (huge_align a + x) + (a - huge_align a)" by (simp add: algebra_simps)
  then show ?thesis
    using huge_align_offset [OF huge_align_add [OF huge_align_idem x] huge_align_rest(1), of a a] by metis
qed

text \<open>C37. The offset mapping of physical memory. When \<^verbatim>\<open>map_physical_memory\<close> returns, every physical address up to the
  bound that \<^verbatim>\<open>efi_main\<close> computes from the memory map is reached at its address plus the offset rounded down to
  2 MiB. So \<^verbatim>\<open>physical_to_virtual\<close>, which adds the offset itself, gives an address that reaches the physical
  address it was given, for all of them, exactly when the configured offset is a multiple of 2 MiB. For any other
  offset, which the configuration accepts as well, everything is shifted. The bound covers every region
  of the memory map and the registers of both interrupt controllers.\<close>

theorem physical_memory_mapped:
  assumes "huge_spec map_huge tr" and "x86_addresses X" and "max_phys_addr mmap = Inr max_addr"
    and "map_physical_memory map_huge X offset max_addr m a = Inr (m', a')"
  shows "(\<forall>p \<le> max_addr. huge_reach tr m' (p + huge_align offset) = Some p) \<and>
    ((\<forall>p \<le> max_addr. huge_reach tr m' (p + offset) = Some p) \<longleftrightarrow> huge_align offset = offset) \<and>
    (\<forall>(s, n) \<in> set mmap. s + n * 0x1000 \<le> max_addr) \<and> IOAPIC_ADDR + 0x10 \<le> max_addr \<and> LAPIC_ADDR + 0x3E0 \<le> max_addr"
proof -
  have run: "map_huge_frames map_huge X offset (huge_frames max_addr) m a = Inr (m', a')"
    using assms(4) by (simp add: map_physical_memory_def split: if_splits)
  have al: "huge_align (f + offset) = f + huge_align offset" if "f \<in> set (huge_frames max_addr)" for f
    using huge_align_shift [OF huge_frames_aligned [OF that], of offset] by (simp add: add.commute)
  note tr = map_huge_frames_translates [OF assms(1,2) al run]
  have all: "huge_reach tr m' (p + huge_align offset) = Some p" if "p \<le> max_addr" for p
    using huge_align_shift [OF huge_align_idem, of p offset] huge_frames_mem [OF that] by (simp add: huge_reach_def tr)
  have "huge_align offset = offset" if "\<forall>p \<le> max_addr. huge_reach tr m' (p + offset) = Some p"
  proof -
    have "0 \<in> set (huge_frames max_addr)" using huge_frames_mem [of 0 max_addr] by (simp add: huge_align_def)
    then have "huge_reach tr m' (0 + offset) = Some (offset - huge_align offset)" by (simp add: huge_reach_def tr)
    with that [rule_format, of 0] show ?thesis by simp
  qed
  with all have "(\<forall>p \<le> max_addr. huge_reach tr m' (p + offset) = Some p) \<longleftrightarrow> huge_align offset = offset" by metis
  moreover have big: "max_addr = max (foldr max (map (\<lambda>(s, n). s + n * 0x1000) mmap) 0) 0x100000000"
    using assms(3) by (simp add: max_phys_addr_def split: if_splits)
  moreover have "x \<in> set xs \<Longrightarrow> x \<le> foldr max xs (0 :: u64)" for x xs by (induction xs) (auto simp: le_max_iff_disj)
  then have "s + n * 0x1000 \<le> max_addr" if "(s, n) \<in> set mmap" for s n
    unfolding big using that by (force simp: le_max_iff_disj)
  moreover have "0x100000000 \<le> max_addr" unfolding big by simp
  then have "IOAPIC_ADDR + 0x10 \<le> max_addr" "LAPIC_ADDR + 0x3E0 \<le> max_addr"
    by (auto simp: IOAPIC_ADDR_def LAPIC_ADDR_def intro: order_trans [rotated])
  ultimately show ?thesis using all by blast
qed

text \<open>A mapper that never fails.\<close>

abbreviation ref_huge :: "(u64 \<rightharpoonup> u64, unit) huge_mapper" where
  "ref_huge \<equiv> \<lambda>page frame flags m a. (Inr (), m(page \<mapsto> frame), a)"

lemma ref_huge_maps:
  "\<forall>f \<in> set frames. canonical (f + offset) \<Longrightarrow>
   \<exists>m'. map_huge_frames ref_huge (x86_ref :: (ref_tables, nat) x86_64) offset frames m () = Inr (m', ())"
  by (induction frames arbitrary: m) (auto simp: ref.va_new_ok)

lemma low_frames_canonical:
  assumes "f \<in> set (huge_frames 0x100000000)" and "0xFFFF800000000000 \<le> unat (off :: u64)" and "unat off < 0xFFFFFF0000000000"
  shows "canonical (f + off)"
proof -
  obtain i where i: "f = of_nat i * 0x200000" "i \<le> 2048"
    using assms(1) by (auto simp: huge_frames_def less_Suc_eq_le simp del: upt_Suc)
  then have "unat f = i * 0x200000" by (simp add: unat_word_ariths unat_of_nat)
  then have "unat (f + off) = i * 0x200000 + unat off" using i(2) assms(3) by (subst unat_add_no_overflow) simp_all
  then show ?thesis using assms(2) by (simp add: canonical_def)
qed

text \<open>At the offset of the configuration file the local interrupt controller is reached; at an offset that is a page
  further up, the first address of the window reaches the second page.\<close>

theorem physical_memory_mapped_witness:
  "\<exists>m1 m2. map_physical_memory ref_huge (x86_ref :: (ref_tables, nat) x86_64) 0xFFFF800000000000 0x100000000 Map.empty () = Inr (m1, ()) \<and>
     huge_reach (\<lambda>m. m) m1 0xFFFF8000FEE00030 = Some 0xFEE00030 \<and>
     map_physical_memory ref_huge (x86_ref :: (ref_tables, nat) x86_64) 0xFFFF800000001000 0x100000000 Map.empty () = Inr (m2, ()) \<and>
     huge_reach (\<lambda>m. m) m2 0xFFFF800000001000 = Some 0x1000"
proof -
  have maps: "\<exists>m'. map_physical_memory ref_huge (x86_ref :: (ref_tables, nat) x86_64) off 0x100000000 Map.empty () = Inr (m', ())"
    if "0xFFFF800000000000 \<le> unat (off :: u64)" "unat off < 0xFFFFFF0000000000" for off
    using ref_huge_maps [of "huge_frames 0x100000000" off Map.empty] low_frames_canonical [OF _ that] by (auto simp: map_physical_memory_def)
  obtain m1 where m1: "map_physical_memory ref_huge (x86_ref :: (ref_tables, nat) x86_64) 0xFFFF800000000000 0x100000000 Map.empty () = Inr (m1, ())"
    using maps [of "0xFFFF800000000000"] by auto
  obtain m2 where m2: "map_physical_memory ref_huge (x86_ref :: (ref_tables, nat) x86_64) 0xFFFF800000001000 0x100000000 Map.empty () = Inr (m2, ())"
    using maps [of "0xFFFF800000001000"] by auto
  have spec: "huge_spec ref_huge (\<lambda>m. m)" by (simp add: huge_spec_def)
  have "max_phys_addr [(0, 16)] = Inr 0x100000000" by (simp add: max_phys_addr_def max_def)
  note mapped = physical_memory_mapped [OF spec ref.x86_addresses_axioms this]
  have "\<forall>p \<le> 0x100000000. huge_reach (\<lambda>m. m) m1 (p + 0xFFFF800000000000) = Some p"
    using mapped [OF m1] by (simp add: huge_align_def)
  from this [rule_format, of "0xFEE00030"] have r1: "huge_reach (\<lambda>m. m) m1 0xFFFF8000FEE00030 = Some 0xFEE00030" by simp
  have "\<forall>p \<le> 0x100000000. huge_reach (\<lambda>m. m) m2 (p + 0xFFFF800000000000) = Some p"
    using mapped [OF m2] by (simp add: huge_align_def)
  from this [rule_format, of "0x1000"] have "huge_reach (\<lambda>m. m) m2 0xFFFF800000001000 = Some 0x1000" by simp
  with r1 m1 m2 show ?thesis by blast
qed

section \<open>Sizes for people\<close>

lemma bit_length_le: "n < 2 ^ k \<longleftrightarrow> bit_length n \<le> k"
proof (induction n arbitrary: k rule: bit_length.induct)
  case (1 n)
  show ?case
  proof (cases "n = 0")
    case False
    show ?thesis
    proof (cases k)
      case (Suc j)
      have "n < 2 ^ Suc j \<longleftrightarrow> n div 2 < 2 ^ j" by (auto simp: div_less_iff_less_mult)
      then show ?thesis using 1 [OF False, of j] False Suc by (subst bit_length.simps) simp
    qed (use False in \<open>simp add: bit_length.simps [of n]\<close>)
  qed (simp add: bit_length.simps)
qed

text \<open>Rounding to 24 bits never crosses a power of two downwards, and reaches the next one only from the last half
  step below it.\<close>

lemma as_f32_bounds:
  assumes "2 ^ 24 \<le> n"
  shows "2 ^ (bit_length n - 1) \<le> as_f32 n" "as_f32 n \<le> 2 ^ bit_length n"
proof -
  define e where "e = bit_length n - 24"
  have L: "bit_length n = e + 24" using assms bit_length_le [of n 24] by (simp add: e_def)
  have "\<not> n < 2 ^ (e + 23)" using bit_length_le [of n "e + 23"] L by simp
  then have q1: "2 ^ 23 \<le> n div 2 ^ e" by (simp add: power_add less_eq_div_iff_mult_less_eq mult.commute)
  have "n < 2 ^ (e + 24)" using bit_length_le [of n "e + 24"] L by simp
  then have q2: "Suc (n div 2 ^ e) \<le> 2 ^ 24" by (simp add: power_add div_less_iff_less_mult mult.commute Suc_le_eq)
  have f: "as_f32 n = n div 2 ^ e * 2 ^ e \<or> as_f32 n = Suc (n div 2 ^ e) * 2 ^ e" using assms by (simp add: as_f32_def Let_def e_def)
  have "2 ^ 23 * 2 ^ e \<le> n div 2 ^ e * 2 ^ e" by (rule mult_right_mono [OF q1]) simp
  moreover have "Suc (n div 2 ^ e) * 2 ^ e \<le> 2 ^ 24 * 2 ^ e" by (rule mult_right_mono [OF q2]) simp
  ultimately show "2 ^ (bit_length n - 1) \<le> as_f32 n" "as_f32 n \<le> 2 ^ bit_length n"
    using f L by (auto simp: power_add)
qed

lemma as_f32_tera: "2 ^ 40 \<le> as_f32 n \<longleftrightarrow> 2 ^ 40 - 2 ^ 15 \<le> n"
proof -
  consider (small) "n < 2 ^ 24" | (below) "2 ^ 24 \<le> n" "n < 2 ^ 39" | (near) "2 ^ 39 \<le> n" "n < 2 ^ 40" | (above) "2 ^ 40 \<le> n"
    by linarith
  then show ?thesis
  proof cases
    case small
    then show ?thesis by (simp add: as_f32_def)
  next
    case below
    then have "bit_length n \<le> 39" using bit_length_le [of n 39] by simp
    then have "as_f32 n \<le> 2 ^ 39" using as_f32_bounds(2) [OF below(1)] power_increasing [of "bit_length n" 39 "2 :: nat"] by simp
    with below show ?thesis by simp
  next
    case near
    then have L: "bit_length n = 40" using bit_length_le [of n 39] bit_length_le [of n 40] by simp
    have n: "n = n div 65536 * 65536 + n mod 65536" "n mod 65536 < 65536" by simp_all
    have "n div 65536 < 16777216" using near(2) by (simp add: div_less_iff_less_mult)
    then have q: "n div 65536 \<le> 16777215" by simp
    have f: "as_f32 n = (if 2 * (n mod 65536) > 65536 \<or> 2 * (n mod 65536) = 65536 \<and> odd (n div 65536) then Suc (n div 65536) else n div 65536) * 65536"
      using near by (auto simp: as_f32_def L Let_def)
    show ?thesis
    proof (cases "n div 65536 = 16777215")
      case True
      then show ?thesis using f n by auto
    next
      case False
      then show ?thesis using f n q by auto
    qed
  next
    case above
    then have "40 \<le> bit_length n - 1" "2 ^ 24 \<le> n" using bit_length_le [of n 40] by simp_all
    then have "2 ^ 40 \<le> as_f32 n" using as_f32_bounds(1) [of n] power_increasing [of 40 "bit_length n - 1" "2 :: nat"] by linarith
    with above show ?thesis by simp
  qed
qed

lemma humanized_loop_result:
  "humanized_loop len b u = (b', u') \<Longrightarrow> u \<le> len \<Longrightarrow>
   b' * 1024 ^ u' = b * 1024 ^ u \<and> u' \<le> len \<and> u \<le> u' \<and> (u' < len \<longrightarrow> b' < 1024) \<and> (u < u' \<longrightarrow> 1 \<le> b')"
proof (induction len b u rule: humanized_loop.induct)
  case (1 len b u)
  show ?case
  proof (cases "b \<ge> 1024 \<and> u < len")
    case True
    then have r: "humanized_loop len (b / 1024) (u + 1) = (b', u')" using 1(2) by (subst (asm) humanized_loop.simps) simp
    have IH: "b' * 1024 ^ u' = b / 1024 * 1024 ^ (u + 1) \<and> u' \<le> len \<and> u + 1 \<le> u' \<and> (u' < len \<longrightarrow> b' < 1024) \<and> (u + 1 < u' \<longrightarrow> 1 \<le> b')"
      using 1(1) [OF True r] True by simp
    have "1 \<le> b'" if "u' = u + 1"
    proof -
      have "b' * 1024 ^ (u + 1) = b / 1024 * 1024 ^ (u + 1)" using IH that by simp
      then have "b' = b / 1024" by (simp only: mult_cancel_right) simp
      then show ?thesis using True by simp
    qed
    with IH show ?thesis by auto
  next
    case False
    then show ?thesis using 1(2,3) by (subst (asm) humanized_loop.simps) auto
  qed
qed

text \<open>Formatting of sizes. The result is the rounded number of bytes in the largest unit that leaves at least one,
  and at most three digits before the point; but the loop may leave the last unit, and then the index into the table of
  units panics. That happens exactly for sizes that round to a tebibyte or more.\<close>

theorem humanized_size_result:
  fixes short :: bool
  defines "units \<equiv> if short then SHORT_UNITS else UNITS"
  shows "if 2 ^ 40 - 2 ^ 15 \<le> unat sz then humanized_size_impl sz short = Inl Index_out_of_bounds
    else \<exists>b k. humanized_size_impl sz short = Inr (b, units ! k) \<and> k < length units \<and>
      b * 1024 ^ k = of_nat (as_f32 (unat sz)) \<and> b < 1024 \<and> (k \<noteq> 0 \<longrightarrow> 1 \<le> b)"
proof -
  have len: "length units = 4" by (simp add: units_def SHORT_UNITS_def UNITS_def)
  obtain b k where bk: "humanized_loop 4 (of_nat (as_f32 (unat sz))) 0 = (b, k)" by (cases "humanized_loop 4 (of_nat (as_f32 (unat sz))) 0")
  have r: "b * 1024 ^ k = of_nat (as_f32 (unat sz))" "k \<le> 4" "k < 4 \<Longrightarrow> b < 1024" "0 < k \<Longrightarrow> 1 \<le> b"
    using humanized_loop_result [OF bk] by auto
  have "k = 4 \<longleftrightarrow> 2 ^ 40 \<le> as_f32 (unat sz)"
  proof
    assume k: "k = 4"
    then have "1 * 1024 ^ 4 \<le> b * 1024 ^ k" using r(4) by (intro mult_mono) auto
    then have "(of_nat (2 ^ 40) :: rat) \<le> of_nat (as_f32 (unat sz))" using r(1) by simp
    then show "2 ^ 40 \<le> as_f32 (unat sz)" by (simp only: of_nat_le_iff)
  next
    assume big: "2 ^ 40 \<le> as_f32 (unat sz)"
    show "k = 4"
    proof (rule ccontr)
      assume "k \<noteq> 4"
      then have "k \<le> 3" "b < 1024" using r(2,3) by auto
      then have "b * 1024 ^ k < 1024 * 1024 ^ k" "(1024 :: rat) * 1024 ^ k \<le> 1024 * 1024 ^ 3"
        by (simp, intro mult_left_mono power_increasing) auto
      then have "of_nat (as_f32 (unat sz)) < (of_nat (2 ^ 40) :: rat)" using r(1) by simp
      with big show False by (simp only: of_nat_less_iff)
    qed
  qed
  moreover have "humanized_size_impl sz short = (if k < 4 then Inr (b, units ! k) else Inl Index_out_of_bounds)"
    using bk len by (simp add: humanized_size_impl_def units_def)
  ultimately show ?thesis using r len as_f32_tera [of "unat sz"] by auto
qed

end
