(* ===== verification/Messages.thy ===== *)
theory Messages
  imports Threads "HOL-Library.Multiset"
begin

text \<open>
  The message queue of \<^verbatim>\<open>app/md\<close>: eight writers and eight readers over a ring buffer with three semaphores.
  The processes are a group of theory \<open>Threads\<close>; the statics are the memory of the group, and the local of a thread
  is the copy of \<^verbatim>\<open>head\<close> or \<^verbatim>\<open>tail\<close> that it has read last. An index out of range panics: the memory is then the error.
\<close>

section \<open>The program\<close>

definition MD_THREAD_COUNT :: nat where
  "MD_THREAD_COUNT = 16"

definition MAX_MESSAGE_SIZE :: usize where
  "MAX_MESSAGE_SIZE = 10"

definition QUEUE_SIZE :: usize where
  "QUEUE_SIZE = MAX_MESSAGE_SIZE + 1"

record MessageQueue =
  mq_queue :: "usize list"
  mq_head :: usize
  mq_tail :: usize

definition MESSAGE_QUEUE :: MessageQueue where
  "MESSAGE_QUEUE = \<lparr>mq_queue = replicate (unat QUEUE_SIZE) 0, mq_head = 0, mq_tail = 0\<rparr>"

definition EMPTY :: u32 where
  "EMPTY = 0"

definition FULL :: u32 where
  "FULL = 1"

definition WRITE_MUTEX :: u32 where
  "WRITE_MUTEX = 2"

datatype md_act = LoadTail | StoreMsg usize | StoreTail | LoadHead | ClearMsg | StoreHead

definition store_at :: "usize \<Rightarrow> usize \<Rightarrow> MessageQueue \<Rightarrow> MessageQueue res" where
  "store_at x v q =
     (if unat x < length (mq_queue q) then Inr (q\<lparr>mq_queue := (mq_queue q)[unat x := v]\<rparr>) else Inl Index_out_of_bounds)"

fun run_md_act :: "md_act \<Rightarrow> MessageQueue res \<Rightarrow> usize \<Rightarrow> MessageQueue res \<times> usize" where
  "run_md_act a (Inl e) l = (Inl e, l)"
| "run_md_act LoadTail (Inr q) l = (Inr q, mq_tail q)"
| "run_md_act (StoreMsg message) (Inr q) l = (store_at l message q, l)"
| "run_md_act StoreTail (Inr q) l = (Inr (q\<lparr>mq_tail := (l + 1) mod QUEUE_SIZE\<rparr>), l)"
| "run_md_act LoadHead (Inr q) l = (Inr q, mq_head q)"
| "run_md_act ClearMsg (Inr q) l = (store_at l 0 q, l)"
| "run_md_act StoreHead (Inr q) l = (Inr (q\<lparr>mq_head := (l + 1) mod QUEUE_SIZE\<rparr>), l)"

definition write_message :: "usize \<Rightarrow> md_act op list" where
  "write_message message =
     [Wait_on EMPTY, Wait_on WRITE_MUTEX, Act LoadTail, Act (StoreMsg message), Act LoadTail, Act StoreTail,
      Signal_on WRITE_MUTEX, Signal_on FULL]"

definition read_message :: "md_act op list" where
  "read_message =
     [Wait_on FULL, Wait_on WRITE_MUTEX, Act LoadHead, Act ClearMsg, Act LoadHead, Act StoreHead,
      Signal_on WRITE_MUTEX, Signal_on EMPTY]"

text \<open>The \<open>i\<close>-th process that \<^verbatim>\<open>main\<close> forks, and the group after the forks.\<close>

definition md_thread :: "nat \<Rightarrow> md_act op list" where
  "md_thread i =
     (if i < MD_THREAD_COUNT div 2 then concat (map (\<lambda>j. write_message (of_nat i + of_nat j)) [0..<unat MAX_MESSAGE_SIZE])
      else concat (replicate (unat MAX_MESSAGE_SIZE) read_message))"

definition md_sems :: SemaphoreSet where
  "md_sems =
     snd (SemaphoreSet_insert (snd (SemaphoreSet_insert (snd (SemaphoreSet_insert SemaphoreSet_default
       EMPTY MAX_MESSAGE_SIZE)) FULL 0)) WRITE_MUTEX 1)"

definition md_group :: "ProcessId list \<Rightarrow> (md_act, MessageQueue res, usize) group" where
  "md_group pids =
     \<lparr>g_sems = md_sems, g_mem = Inr MESSAGE_QUEUE, g_local = (\<lambda>_. 0),
      g_prog = (\<lambda>i. case map_of (forked_threads md_thread pids) i of None \<Rightarrow> [] | Some ops \<Rightarrow> ops), g_blocked = {}\<rparr>"

lemmas md_consts = MD_THREAD_COUNT_def MAX_MESSAGE_SIZE_def QUEUE_SIZE_def EMPTY_def FULL_def WRITE_MUTEX_def

section \<open>What a thread has left\<close>

abbreviation writes :: "usize list \<Rightarrow> md_act op list" where
  "writes ms \<equiv> concat (map write_message ms)"

abbreviation reads :: "nat \<Rightarrow> md_act op list" where
  "reads n \<equiv> concat (replicate n read_message)"

definition md_tail :: "md_act op list \<Rightarrow> bool" where
  "md_tail ops \<longleftrightarrow>
     ops = [] \<or> (\<exists>k < 8. \<exists>m ms. ops = drop k (write_message m) @ writes ms) \<or> (\<exists>k < 8. \<exists>n. ops = drop k read_message @ reads n)"

text \<open>The messages that a program is still going to store.\<close>

fun msgs :: "md_act op list \<Rightarrow> usize list" where
  "msgs [] = []"
| "msgs (Act (StoreMsg m) # ops) = m # msgs ops"
| "msgs (_ # ops) = msgs ops"

abbreviation clears :: "md_act op list \<Rightarrow> nat" where
  "clears ops \<equiv> count_list ops (Act ClearMsg)"

lemma msgs_append [simp]: "msgs (a @ b) = msgs a @ msgs b"
  by (induction a rule: msgs.induct) auto

lemma msgs_writes [simp]: "msgs (writes ms) = ms"
  by (induction ms) (simp_all add: write_message_def)

lemma msgs_reads [simp]: "msgs (reads n) = []"
  by (induction n) (simp_all add: read_message_def)

lemma count_writes:
  "count_list (writes ms) (Wait_on EMPTY) = length ms" "count_list (writes ms) (Signal_on EMPTY) = 0"
  "count_list (writes ms) (Wait_on FULL) = 0" "count_list (writes ms) (Signal_on FULL) = length ms"
  "count_list (writes ms) (Act StoreTail) = length ms" "count_list (writes ms) (Act StoreHead) = 0" "clears (writes ms) = 0"
  "owes WRITE_MUTEX (writes ms) = 0"
  by (induction ms) (simp_all add: write_message_def md_consts)

lemma count_reads:
  "count_list (reads n) (Wait_on EMPTY) = 0" "count_list (reads n) (Signal_on EMPTY) = n"
  "count_list (reads n) (Wait_on FULL) = n" "count_list (reads n) (Signal_on FULL) = 0"
  "count_list (reads n) (Act StoreTail) = 0" "count_list (reads n) (Act StoreHead) = n" "clears (reads n) = n"
  "owes WRITE_MUTEX (reads n) = 0"
  by (induction n) (simp_all add: read_message_def md_consts)

lemmas md_counts = count_writes count_reads

lemma md_keys: "EMPTY \<noteq> FULL" "FULL \<noteq> EMPTY" "EMPTY \<noteq> WRITE_MUTEX" "WRITE_MUTEX \<noteq> EMPTY" "FULL \<noteq> WRITE_MUTEX" "WRITE_MUTEX \<noteq> FULL"
  by (simp_all add: md_consts)

lemma less8: "(k :: nat) < 8 \<longleftrightarrow> k = 0 \<or> k = 1 \<or> k = 2 \<or> k = 3 \<or> k = 4 \<or> k = 5 \<or> k = 6 \<or> k = 7"
  by linarith

lemma md_tail_writer: "k < 8 \<Longrightarrow> md_tail (drop k (write_message m) @ writes ms)"
  unfolding md_tail_def by blast

lemma md_tail_reader: "k < 8 \<Longrightarrow> md_tail (drop k read_message @ reads n)"
  unfolding md_tail_def by blast

lemma md_tail_writes: "md_tail (writes ms)"
  using md_tail_writer [of 0 "hd ms" "tl ms"] by (cases ms) (simp_all add: md_tail_def)

lemma md_tail_reads: "md_tail (reads n)"
  using md_tail_reader [of 0 "n - 1"] by (cases n) (simp_all add: md_tail_def)

lemma md_tail_Cons: "md_tail (x # ops) \<Longrightarrow> md_tail ops"
proof -
  assume "md_tail (x # ops)"
  then consider k m ms where "k < 8" "x # ops = drop k (write_message m) @ writes ms"
    | k n where "k < 8" "x # ops = drop k read_message @ reads n" unfolding md_tail_def by blast
  then show ?thesis
  proof cases
    case 1
    then have "ops = drop (Suc k) (write_message m) @ writes ms" by (auto simp: less8 write_message_def)
    then show ?thesis using 1(1) md_tail_writer [of "Suc k" m ms] md_tail_writes [of ms]
      by (cases "k = 7") (auto simp: write_message_def)
  next
    case 2
    then have "ops = drop (Suc k) read_message @ reads n" by (auto simp: less8 read_message_def)
    then show ?thesis using 2(1) md_tail_reader [of "Suc k" n] md_tail_reads [of n]
      by (cases "k = 7") (auto simp: read_message_def)
  qed
qed


lemma md_tailE [consumes 1]:
  assumes "md_tail ops"
  obtains "ops = []" |
  m ms where "ops = Wait_on EMPTY # Wait_on WRITE_MUTEX # Act LoadTail # Act (StoreMsg m) # Act LoadTail # Act StoreTail # Signal_on WRITE_MUTEX # Signal_on FULL # writes ms" |
  m ms where "ops = Wait_on WRITE_MUTEX # Act LoadTail # Act (StoreMsg m) # Act LoadTail # Act StoreTail # Signal_on WRITE_MUTEX # Signal_on FULL # writes ms" |
  m ms where "ops = Act LoadTail # Act (StoreMsg m) # Act LoadTail # Act StoreTail # Signal_on WRITE_MUTEX # Signal_on FULL # writes ms" |
  m ms where "ops = Act (StoreMsg m) # Act LoadTail # Act StoreTail # Signal_on WRITE_MUTEX # Signal_on FULL # writes ms" |
  ms where "ops = Act LoadTail # Act StoreTail # Signal_on WRITE_MUTEX # Signal_on FULL # writes ms" |
  ms where "ops = Act StoreTail # Signal_on WRITE_MUTEX # Signal_on FULL # writes ms" |
  ms where "ops = Signal_on WRITE_MUTEX # Signal_on FULL # writes ms" |
  ms where "ops = Signal_on FULL # writes ms" |
  n where "ops = Wait_on FULL # Wait_on WRITE_MUTEX # Act LoadHead # Act ClearMsg # Act LoadHead # Act StoreHead # Signal_on WRITE_MUTEX # Signal_on EMPTY # reads n" |
  n where "ops = Wait_on WRITE_MUTEX # Act LoadHead # Act ClearMsg # Act LoadHead # Act StoreHead # Signal_on WRITE_MUTEX # Signal_on EMPTY # reads n" |
  n where "ops = Act LoadHead # Act ClearMsg # Act LoadHead # Act StoreHead # Signal_on WRITE_MUTEX # Signal_on EMPTY # reads n" |
  n where "ops = Act ClearMsg # Act LoadHead # Act StoreHead # Signal_on WRITE_MUTEX # Signal_on EMPTY # reads n" |
  n where "ops = Act LoadHead # Act StoreHead # Signal_on WRITE_MUTEX # Signal_on EMPTY # reads n" |
  n where "ops = Act StoreHead # Signal_on WRITE_MUTEX # Signal_on EMPTY # reads n" |
  n where "ops = Signal_on WRITE_MUTEX # Signal_on EMPTY # reads n" |
  n where "ops = Signal_on EMPTY # reads n"
  using assms unfolding md_tail_def less8 write_message_def read_message_def by (elim disjE conjE exE; simp)

text \<open>The balances of a thread. A stored message has been paid for with a unit of \<^term>\<open>EMPTY\<close>, a cleared one with a
  unit of \<^term>\<open>FULL\<close>; between storing a message and moving the tail the thread holds the mutex.\<close>

lemma owes_writes: "owes EMPTY (writes ms) = - int (length ms)" "owes FULL (writes ms) = int (length ms)"
  by (simp_all add: owes_def count_writes)

lemma owes_reads: "owes EMPTY (reads n) = int n" "owes FULL (reads n) = - int n"
  by (simp_all add: owes_def count_reads)

lemmas md_owes = owes_writes owes_reads count_writes(8) count_reads(8)

lemma md_tail_nums:
  assumes "md_tail ops"
  shows "0 \<le> owes WRITE_MUTEX ops" "owes WRITE_MUTEX ops \<le> 1"
    "int (clears ops) - int (count_list ops (Wait_on EMPTY)) \<le> owes EMPTY ops"
    "int (length (msgs ops)) - int (count_list ops (Wait_on FULL)) \<le> owes FULL ops"
    "count_list ops (Wait_on EMPTY) \<le> length (msgs ops)" "count_list ops (Wait_on FULL) \<le> clears ops"
    "count_list ops (Act StoreTail) = length (msgs ops) \<or> owes WRITE_MUTEX ops = 1"
    "count_list ops (Act StoreHead) = clears ops \<or> owes WRITE_MUTEX ops = 1"
  using assms
  by (cases rule: md_tailE; simp add: md_counts md_owes md_keys)+

lemma md_tail_waited:
  assumes "md_tail (Wait_on k # ops)"
  shows "k = EMPTY \<or> k = FULL \<or> k = WRITE_MUTEX"
    "k = EMPTY \<Longrightarrow> owes EMPTY ops \<le> 0 \<and> owes FULL ops = 1 - owes EMPTY ops \<and> length (msgs ops) = Suc (count_list ops (Wait_on EMPTY))"
    "k = FULL \<Longrightarrow> owes FULL ops \<le> 0 \<and> owes EMPTY ops = 1 - owes FULL ops \<and> clears ops = Suc (count_list ops (Wait_on FULL))"
    "owes WRITE_MUTEX ops = of_bool (k = WRITE_MUTEX)"
    "count_list ops (Act StoreTail) = length (msgs ops)" "count_list ops (Act StoreHead) = clears ops"
    "ops \<noteq> []"
  using assms
  by (cases rule: md_tailE; simp add: md_counts md_owes md_keys)+

lemma md_tail_act:
  assumes "md_tail (Act a # ops)"
  shows "owes WRITE_MUTEX (Act a # ops) = 1"
    "a = StoreMsg m \<Longrightarrow> length (msgs ops) = count_list ops (Wait_on EMPTY) \<and> count_list (Act a # ops) (Act StoreTail) = length (msgs (Act a # ops))"
    "a = ClearMsg \<Longrightarrow> clears ops = count_list ops (Wait_on FULL) \<and> count_list (Act a # ops) (Act StoreHead) = clears (Act a # ops)"
    "a = StoreTail \<Longrightarrow> count_list ops (Act StoreTail) = length (msgs ops)"
    "a = StoreHead \<Longrightarrow> count_list ops (Act StoreHead) = clears ops"
  using assms
  by (cases rule: md_tailE; simp add: md_counts md_owes md_keys)+

text \<open>The actions that use the local copy of the tail or the head.\<close>

fun needs_tail :: "md_act op list \<Rightarrow> bool" where
  "needs_tail (Act (StoreMsg m) # ops) = True"
| "needs_tail (Act StoreTail # ops) = True"
| "needs_tail _ = False"

fun needs_head :: "md_act op list \<Rightarrow> bool" where
  "needs_head (Act ClearMsg # ops) = True"
| "needs_head (Act StoreHead # ops) = True"
| "needs_head _ = False"

lemma needs_start [simp]:
  "\<not> needs_tail (writes ms)" "\<not> needs_head (writes ms)" "\<not> needs_tail (reads n)" "\<not> needs_head (reads n)"
  by (cases ms; simp add: write_message_def)+ (cases n; simp add: read_message_def)+

lemma needs_mutex:
  assumes "md_tail ops" and "needs_tail ops \<or> needs_head ops"
  shows "owes WRITE_MUTEX ops = 1" "\<not> md_tail (Wait_on k # ops)"
proof -
  from assms show "owes WRITE_MUTEX ops = 1" by (cases rule: md_tailE; simp add: md_owes md_keys)
  show "\<not> md_tail (Wait_on k # ops)"
  proof
    assume "md_tail (Wait_on k # ops)"
    then show False using assms(2) by (cases rule: md_tailE; simp)
  qed
qed

lemma needs_next:
  assumes "md_tail (x # ops)"
  shows "needs_tail ops \<Longrightarrow> x = Act LoadTail" "needs_head ops \<Longrightarrow> x = Act LoadHead"
  using assms by (cases rule: md_tailE; simp)+

section \<open>Who is where\<close>

definition md_V :: "u32 \<rightharpoonup> int" where
  "md_V = [EMPTY \<mapsto> 10, FULL \<mapsto> 0, WRITE_MUTEX \<mapsto> 1]"

lemma md_V [simp]: "md_V EMPTY = Some 10" "md_V FULL = Some 0" "md_V WRITE_MUTEX = Some 1"
  by (auto simp: md_V_def md_keys)

text \<open>A queued thread has just passed its wait.\<close>

definition md_sync :: "ProcessId set \<Rightarrow> (md_act, 'm, 'l) group \<Rightarrow> bool" where
  "md_sync T s \<longleftrightarrow>
     group_inv T md_V 1000 s \<and> (\<forall>i. md_tail (g_prog s i)) \<and>
     (\<forall>k sem p. k \<in> dom md_V \<longrightarrow> sem_of s k = Some sem \<longrightarrow> p \<in> set (sem_wait_queue sem) \<longrightarrow> md_tail (Wait_on k # g_prog s p))"

lemma md_syncD:
  assumes "md_sync T s"
  shows "group_inv T md_V 1000 s" "md_tail (g_prog s i)"
    "k \<in> dom md_V \<Longrightarrow> sem_of s k = Some sem \<Longrightarrow> p \<in> set (sem_wait_queue sem) \<Longrightarrow> md_tail (Wait_on k # g_prog s p)"
  using assms unfolding md_sync_def by blast+

lemma md_sync_step:
  assumes inv: "md_sync T s" and step: "thread_step act i s = Some s'"
  shows "md_sync T s'"
proof -
  note g = md_syncD(1) [OF inv] and q = md_syncD(3) [OF inv]
  have g': "group_inv T md_V 1000 s'" by (rule group_inv_step [OF g step])
  have old: "g_prog s' p = g_prog s p" if "k \<in> dom md_V" "sem_of s k = Some sem" "p \<in> set (sem_wait_queue sem)" "i \<notin> g_blocked s"
      "g_prog s' = (g_prog s)(i := ops)" for k sem p ops
    using group_inv_queue(1) [OF g that(1,2)] that(3-5) by auto
  from step group_inv_touched [OF g] show ?thesis
  proof (cases rule: thread_step_cases)
    case (Act a ops)
    have "md_tail (g_prog s' j)" for j using md_syncD(2) [OF inv, of j] md_syncD(2) [OF inv, of i] md_tail_Cons Act(2,5) by auto
    moreover have "md_tail (Wait_on k # g_prog s' p)" if "k \<in> dom md_V" "sem_of s' k = Some sem" "p \<in> set (sem_wait_queue sem)" for k sem p
      using q [OF that(1) _ that(3)] old [OF that(1) _ that(3) Act(1,5)] that(2) Act(3) by (simp add: sem_of_def)
    ultimately show ?thesis using g' unfolding md_sync_def by blast
  next
    case (Sem op ops k sem sem')
    have tail: "md_tail (op # ops)" using md_syncD(2) [OF inv, of i] Sem(2) by simp
    then have "md_tail (g_prog s' j)" for j using md_syncD(2) [OF inv, of j] md_tail_Cons [OF tail] Sem(3) by auto
    moreover have "md_tail (Wait_on j # g_prog s' p)" if j: "j \<in> dom md_V" "sem_of s' j = Some se" "p \<in> set (sem_wait_queue se)" for j se p
    proof (cases "j = k \<and> p \<notin> set (sem_wait_queue sem)")
      case True
      then have se: "se = sem'" using j(2) Sem(8) by simp
      from Sem(10) have "op = Wait_on k \<and> p = i" using True j(3) unfolding se by (cases rule: sem_effect_cases) auto
      then show ?thesis using tail Sem(3) True by simp
    next
      case False
      obtain so where so: "sem_of s j = Some so" "p \<in> set (sem_wait_queue so)"
        using False j(2,3) Sem(7-9) by (cases "j = k") auto
      show ?thesis using q [OF j(1) so] old [OF j(1) so Sem(1,3)] by simp
    qed
    ultimately show ?thesis using g' unfolding md_sync_def by blast
  qed
qed

lemma md_sync_blocked: "md_sync T s \<Longrightarrow> i \<in> g_blocked s \<Longrightarrow> \<exists>k. md_tail (Wait_on k # g_prog s i)"
  using group_invD(7) [OF md_syncD(1)] md_syncD(3) by blast

lemma md_sync_sem:
  assumes "md_sync T s" "md_V k = Some v"
  shows "\<exists>sem. sem_of s k = Some sem \<and> set (sem_wait_queue sem) \<subseteq> T \<and>
    int (unat (sem_count sem)) + (\<Sum>i\<in>T. owes k (g_prog s i)) = v + int (card (set (sem_wait_queue sem))) \<and>
    (sem_wait_queue sem \<noteq> [] \<longrightarrow> sem_count sem = 0) \<and> (\<forall>p \<in> set (sem_wait_queue sem). md_tail (Wait_on k # g_prog s p))"
proof -
  note g = md_syncD(1) [OF assms(1)]
  obtain sem where "sem_of s k = Some sem" "set (sem_wait_queue sem) \<subseteq> g_blocked s" "distinct (sem_wait_queue sem)"
    "int (unat (sem_count sem)) + (\<Sum>i\<in>T. owes k (g_prog s i)) = v + int (length (sem_wait_queue sem))"
    "sem_wait_queue sem \<noteq> [] \<longrightarrow> sem_count sem = 0"
    using group_invD(6) [OF g assms(2)] unfolding sem_balance_def by blast
  moreover have "k \<in> dom md_V" using assms(2) by auto
  ultimately show ?thesis using group_invD(3) [OF g] md_syncD(3) [OF assms(1), of k] by (auto simp: distinct_card)
qed

lemma md_sync_thread: "md_sync T s \<Longrightarrow> g_prog s i \<noteq> [] \<Longrightarrow> i \<in> T"
  using group_invD(4) [OF md_syncD(1)] by blast

lemma md_mutex:
  assumes inv: "md_sync T s" and "i \<noteq> j" and "i \<notin> g_blocked s" "j \<notin> g_blocked s"
    and held: "0 < owes WRITE_MUTEX (g_prog s i)" "0 < owes WRITE_MUTEX (g_prog s j)"
  shows False
proof -
  obtain sem where sem: "sem_of s WRITE_MUTEX = Some sem" "\<And>p. p \<in> set (sem_wait_queue sem) \<Longrightarrow> md_tail (Wait_on WRITE_MUTEX # g_prog s p)"
    using md_sync_sem [OF inv md_V(3)] by blast
  have "i \<in> T" "j \<in> T" using held by (auto intro: md_sync_thread [OF inv])
  then show False
    using group_inv_one_holder [OF md_syncD(1) [OF inv] _ sem(1), of i j] assms md_tail_waited(4) [OF sem(2)] md_tail_nums(1) [OF md_syncD(2) [OF inv]]
    by simp
qed

section \<open>Room and messages\<close>

lemma sum_at_least:
  fixes f :: "'i \<Rightarrow> int"
  assumes "finite T" "Q \<subseteq> T" "\<And>i. i \<in> T \<Longrightarrow> 0 \<le> f i" "\<And>i. i \<in> Q \<Longrightarrow> 1 \<le> f i"
  shows "int (card Q) \<le> sum f T"
proof -
  have "int (card Q) = (\<Sum>i\<in>Q. 1)" by simp
  also have "\<dots> \<le> sum f Q" by (rule sum_mono) (rule assms(4))
  also have "\<dots> \<le> sum f T" by (rule sum_mono2) (use assms in auto)
  finally show ?thesis .
qed

text \<open>A writer about to store has a free slot, a reader about to clear has a message.\<close>

lemma md_room:
  assumes inv: "md_sync T s" and i: "g_prog s i = Act (StoreMsg m) # ops"
  shows "(\<Sum>j\<in>T. clears (g_prog s j)) + 1 \<le> (\<Sum>j\<in>T. length (msgs (g_prog s j))) + 10"
proof -
  obtain sem :: Semaphore where sem: "set (sem_wait_queue sem) \<subseteq> T"
      "int (unat (sem_count sem)) + (\<Sum>i\<in>T. owes EMPTY (g_prog s i)) = 10 + int (card (set (sem_wait_queue sem)))"
      "\<forall>p \<in> set (sem_wait_queue sem). md_tail (Wait_on EMPTY # g_prog s p)"
    using md_sync_sem [OF inv md_V(1)] by blast
  note t = md_syncD(2) [OF inv]
  let ?w = "\<lambda>j. int (length (msgs (g_prog s j))) - int (count_list (g_prog s j) (Wait_on EMPTY))"
  have fin: "finite T" "i \<in> T" using group_invD(1) [OF md_syncD(1) [OF inv]] md_sync_thread [OF inv] i by auto
  have nq: "i \<notin> set (sem_wait_queue sem)" using needs_mutex(2) [OF t [of i]] sem(3) i by auto
  have "int (card (insert i (set (sem_wait_queue sem)))) \<le> sum ?w T"
  proof (rule sum_at_least)
    fix j assume "j \<in> insert i (set (sem_wait_queue sem))"
    then show "1 \<le> ?w j"
      using md_tail_act(2) [OF t [of i, unfolded i] refl] md_tail_waited(2) [OF bspec [OF sem(3), of j] refl] i by auto
  qed (use fin sem(1) md_tail_nums(5) [OF t] in auto)
  moreover have "(\<Sum>j\<in>T. int (clears (g_prog s j)) - int (count_list (g_prog s j) (Wait_on EMPTY))) \<le> (\<Sum>j\<in>T. owes EMPTY (g_prog s j))"
    by (rule sum_mono) (rule md_tail_nums(3) [OF t])
  ultimately show ?thesis using sem(2) nq by (simp add: sum_subtractf del: of_nat_unat flip: of_nat_sum)
qed

lemma md_message:
  assumes inv: "md_sync T s" and i: "g_prog s i = Act ClearMsg # ops"
  shows "(\<Sum>j\<in>T. length (msgs (g_prog s j))) + 1 \<le> (\<Sum>j\<in>T. clears (g_prog s j))"
proof -
  obtain sem :: Semaphore where sem: "set (sem_wait_queue sem) \<subseteq> T"
      "int (unat (sem_count sem)) + (\<Sum>i\<in>T. owes FULL (g_prog s i)) = 0 + int (card (set (sem_wait_queue sem)))"
      "\<forall>p \<in> set (sem_wait_queue sem). md_tail (Wait_on FULL # g_prog s p)"
    using md_sync_sem [OF inv md_V(2)] by blast
  note t = md_syncD(2) [OF inv]
  let ?w = "\<lambda>j. int (clears (g_prog s j)) - int (count_list (g_prog s j) (Wait_on FULL))"
  have fin: "finite T" "i \<in> T" using group_invD(1) [OF md_syncD(1) [OF inv]] md_sync_thread [OF inv] i by auto
  have nq: "i \<notin> set (sem_wait_queue sem)" using needs_mutex(2) [OF t [of i]] sem(3) i by auto
  have "int (card (insert i (set (sem_wait_queue sem)))) \<le> sum ?w T"
  proof (rule sum_at_least)
    fix j assume "j \<in> insert i (set (sem_wait_queue sem))"
    then show "1 \<le> ?w j"
      using md_tail_act(3) [OF t [of i, unfolded i] refl] md_tail_waited(3) [OF bspec [OF sem(3), of j] refl] i by auto
  qed (use fin sem(1) md_tail_nums(6) [OF t] in auto)
  moreover have "(\<Sum>j\<in>T. int (length (msgs (g_prog s j))) - int (count_list (g_prog s j) (Wait_on FULL))) \<le> (\<Sum>j\<in>T. owes FULL (g_prog s j))"
    by (rule sum_mono) (rule md_tail_nums(4) [OF t])
  ultimately show ?thesis using sem(2) nq by (simp add: sum_subtractf del: of_nat_unat flip: of_nat_sum)
qed

text \<open>A thread inside the critical section is alone there: all other threads have moved the tail and the head as often
  as they have stored and cleared.\<close>

lemma md_others:
  assumes inv: "md_sync T s" and i: "i \<notin> g_blocked s" "0 < owes WRITE_MUTEX (g_prog s i)" and "j \<noteq> i"
  shows "count_list (g_prog s j) (Act StoreTail) = length (msgs (g_prog s j))" "count_list (g_prog s j) (Act StoreHead) = clears (g_prog s j)"
    "\<not> needs_tail (g_prog s j)" "\<not> needs_head (g_prog s j)"
proof -
  note t = md_syncD(2) [OF inv, of j]
  have "count_list (g_prog s j) (Act StoreTail) = length (msgs (g_prog s j)) \<and> count_list (g_prog s j) (Act StoreHead) = clears (g_prog s j) \<and>
    \<not> needs_tail (g_prog s j) \<and> \<not> needs_head (g_prog s j)"
  proof (cases "j \<in> g_blocked s")
    case True
    then obtain k where "md_tail (Wait_on k # g_prog s j)" using md_sync_blocked [OF inv] by blast
    then show ?thesis using md_tail_waited(5,6) needs_mutex(2) [OF t] by blast
  next
    case False
    then have "owes WRITE_MUTEX (g_prog s j) \<noteq> 1" using md_mutex [OF inv, of i j] assms by auto
    then show ?thesis using md_tail_nums(7,8) [OF t] needs_mutex(1) [OF t] by blast
  qed
  then show "count_list (g_prog s j) (Act StoreTail) = length (msgs (g_prog s j))" "count_list (g_prog s j) (Act StoreHead) = clears (g_prog s j)"
    "\<not> needs_tail (g_prog s j)" "\<not> needs_head (g_prog s j)" by auto
qed

section \<open>No deadlock\<close>

text \<open>A thread that holds or awaits the mutex can be found that is not blocked, so when nobody can run, all blocked
  threads wait for room or for messages.\<close>

lemma md_no_mutex_queue:
  assumes inv: "md_sync T s" and stuck: "\<forall>i \<in> T. i \<in> g_blocked s \<or> g_prog s i = []" and sem: "sem_of s WRITE_MUTEX = Some sem"
  shows "sem_wait_queue sem = []"
proof (rule ccontr)
  let ?q = "set (sem_wait_queue sem)"
  assume ne: "sem_wait_queue sem \<noteq> []"
  have bal: "int (unat (sem_count sem)) + (\<Sum>i\<in>T. owes WRITE_MUTEX (g_prog s i)) = 1 + int (card ?q)" "sem_count sem = 0" "?q \<subseteq> T"
    using md_sync_sem [OF inv md_V(3)] sem ne by auto
  have "owes WRITE_MUTEX (g_prog s i) \<le> (if i \<in> ?q then 1 else 0)" if "i \<in> T" for i
  proof (cases "i \<in> g_blocked s")
    case True
    then obtain k se where k: "k \<in> dom md_V" "sem_of s k = Some se" "i \<in> set (sem_wait_queue se)"
      using group_invD(7) [OF md_syncD(1) [OF inv]] by blast
    then have "owes WRITE_MUTEX (g_prog s i) = of_bool (k = WRITE_MUTEX)" using md_tail_waited(4) [OF md_syncD(3) [OF inv k]] by simp
    with k sem show ?thesis by auto
  next
    case False
    with stuck that show ?thesis by auto
  qed
  then have "(\<Sum>i\<in>T. owes WRITE_MUTEX (g_prog s i)) \<le> (\<Sum>i\<in>T. if i \<in> ?q then 1 else 0)" by (rule sum_mono)
  also have "\<dots> = int (card ?q)"
    using sum.inter_restrict [OF group_invD(1) [OF md_syncD(1) [OF inv]], of "\<lambda>_. 1 :: int" ?q] bal(3) by (simp add: Int_absorb1)
  finally show False using bal by simp
qed

lemma md_live:
  assumes inv: "md_sync T s" and i: "i \<in> T" "g_prog s i \<noteq> []"
  shows "\<exists>j \<in> T. j \<notin> g_blocked s \<and> g_prog s j \<noteq> []"
proof (rule ccontr)
  assume "\<not> ?thesis"
  then have stuck: "\<forall>i \<in> T. i \<in> g_blocked s \<or> g_prog s i = []" by auto
  note g = md_syncD(1) [OF inv]
  obtain e where e: "sem_of s EMPTY = Some e" "set (sem_wait_queue e) \<subseteq> T"
      "int (unat (sem_count e)) + (\<Sum>i\<in>T. owes EMPTY (g_prog s i)) = 10 + int (card (set (sem_wait_queue e)))"
      "sem_wait_queue e \<noteq> [] \<longrightarrow> sem_count e = 0" "\<forall>p \<in> set (sem_wait_queue e). md_tail (Wait_on EMPTY # g_prog s p)"
    using md_sync_sem [OF inv md_V(1)] by blast
  obtain f where f: "sem_of s FULL = Some f" "set (sem_wait_queue f) \<subseteq> T"
      "int (unat (sem_count f)) + (\<Sum>i\<in>T. owes FULL (g_prog s i)) = 0 + int (card (set (sem_wait_queue f)))"
      "sem_wait_queue f \<noteq> [] \<longrightarrow> sem_count f = 0" "\<forall>p \<in> set (sem_wait_queue f). md_tail (Wait_on FULL # g_prog s p)"
    using md_sync_sem [OF inv md_V(2)] by blast
  have at: "j \<in> set (sem_wait_queue e) \<union> set (sem_wait_queue f) \<or> g_prog s j = []" if "j \<in> T" for j
  proof (cases "j \<in> g_blocked s")
    case True
    then obtain k se where k: "k \<in> dom md_V" "sem_of s k = Some se" "j \<in> set (sem_wait_queue se)" using group_invD(7) [OF g] by blast
    then have "k \<noteq> WRITE_MUTEX" using md_no_mutex_queue [OF inv stuck] by auto
    with k e(1) f(1) show ?thesis by (auto simp: md_V_def split: if_splits)
  qed (use stuck that in auto)
  have disj: "set (sem_wait_queue e) \<inter> set (sem_wait_queue f) = {}"
    by (rule group_invD(8) [OF g _ _ e(1) f(1)]) (auto simp: md_V_def md_keys)
  have "owes EMPTY (g_prog s j) + owes FULL (g_prog s j) = (if j \<in> set (sem_wait_queue e) \<union> set (sem_wait_queue f) then 1 else 0)" if "j \<in> T" for j
    using at [OF that] md_tail_waited(2) [OF bspec [OF e(5), of j] refl] md_tail_waited(3) [OF bspec [OF f(5), of j] refl]
      md_tail_waited(7) [OF bspec [OF e(5), of j]] md_tail_waited(7) [OF bspec [OF f(5), of j]] by auto
  then have "(\<Sum>j\<in>T. owes EMPTY (g_prog s j) + owes FULL (g_prog s j)) =
      (\<Sum>j\<in>T. if j \<in> set (sem_wait_queue e) \<union> set (sem_wait_queue f) then 1 else 0)" by (rule sum.cong [OF refl])
  also have "\<dots> = int (card (set (sem_wait_queue e) \<union> set (sem_wait_queue f)))"
    using sum.inter_restrict [OF group_invD(1) [OF g], of "\<lambda>_. 1 :: int" "set (sem_wait_queue e) \<union> set (sem_wait_queue f)"] e(2) f(2)
    by (simp add: Int_absorb1)
  also have "\<dots> = int (card (set (sem_wait_queue e))) + int (card (set (sem_wait_queue f)))" by (simp add: card_Un_disjoint disj)
  finally have ten: "int (unat (sem_count e)) + int (unat (sem_count f)) = 10" using e(3) f(3) by (simp add: sum.distrib)
  have neg: "owes EMPTY (g_prog s j) \<le> 0" if "j \<in> T" "j \<notin> set (sem_wait_queue f)" for j
    using at [OF that(1)] that(2) md_tail_waited(2) [OF bspec [OF e(5), of j] refl] by auto
  have neg': "owes FULL (g_prog s j) \<le> 0" if "j \<in> T" "j \<notin> set (sem_wait_queue e)" for j
    using at [OF that(1)] that(2) md_tail_waited(3) [OF bspec [OF f(5), of j] refl] by auto
  show False
  proof (cases "sem_wait_queue e = []")
    case True
    have "(\<Sum>j\<in>T. owes FULL (g_prog s j)) \<le> 0" by (rule sum_nonpos) (use neg' True in auto)
    moreover have "sem_wait_queue f \<noteq> []" using at [OF i(1)] i(2) True by auto
    ultimately show False using f(3,4) by (simp add: card_gt_0_iff)
  next
    case False
    then have "sem_wait_queue f = []" using ten e(4) f(4) by auto
    then have "(\<Sum>j\<in>T. owes EMPTY (g_prog s j)) \<le> 0" by (intro sum_nonpos) (use neg in auto)
    then show False using e(3,4) False by simp
  qed
qed

section \<open>The ring buffer\<close>

text \<open>All messages stored so far are \<open>hist\<close>; the first \<open>c\<close> of them have been cleared. The buffer holds the others, each
  in the slot of its number, and nothing else.\<close>

definition ring :: "MessageQueue \<Rightarrow> usize list \<Rightarrow> nat \<Rightarrow> bool" where
  "ring q hist c \<longleftrightarrow>
     length (mq_queue q) = 11 \<and> c \<le> length hist \<and> length hist \<le> c + 10 \<and>
     (\<forall>n. c \<le> n \<longrightarrow> n < length hist \<longrightarrow> mq_queue q ! (n mod 11) = hist ! n) \<and>
     (\<forall>x < 11. (\<forall>n. c \<le> n \<longrightarrow> n < length hist \<longrightarrow> n mod 11 \<noteq> x) \<longrightarrow> mq_queue q ! x = 0)"

lemma slots_differ: "a < b \<Longrightarrow> b \<le> a + 10 \<Longrightarrow> a mod 11 \<noteq> (b mod 11 :: nat)"
proof
  assume ab: "a < b" "b \<le> a + 10" and eq: "a mod 11 = b mod 11"
  then have "11 dvd b - a" using mod_eq_dvd_iff_nat [of a b 11] eq [symmetric] by simp
  with ab show False by (auto dest: dvd_imp_le)
qed

lemma ring_store:
  assumes r: "ring q hist c" and room: "length hist < c + 10" and l: "unat l = length hist mod 11"
  shows "\<exists>xs. store_at l m q = Inr (q\<lparr>mq_queue := xs\<rparr>) \<and> ring (q\<lparr>mq_queue := xs\<rparr>) (hist @ [m]) c"
proof -
  let ?xs = "(mq_queue q)[length hist mod 11 := m]"
  have ne: "n mod 11 \<noteq> length hist mod 11" if "c \<le> n" "n < length hist" for n
    using slots_differ [of n "length hist"] that room by simp
  have "?xs ! (n mod 11) = (hist @ [m]) ! n" if n: "c \<le> n" "n < length (hist @ [m])" for n
  proof (cases "n = length hist")
    case False
    then have "n < length hist" using n by simp
    then show ?thesis using r n(1) ne [of n] by (simp add: ring_def nth_append)
  qed (use r in \<open>simp add: ring_def\<close>)
  moreover have "?xs ! x = 0" if "x < 11" "\<forall>n. c \<le> n \<longrightarrow> n < length (hist @ [m]) \<longrightarrow> n mod 11 \<noteq> x" for x
  proof -
    have "x \<noteq> length hist mod 11" using that(2) r by (auto simp: ring_def)
    then show ?thesis using r that by (simp add: ring_def)
  qed
  ultimately have "ring (q\<lparr>mq_queue := ?xs\<rparr>) (hist @ [m]) c" using r room by (auto simp: ring_def)
  then show ?thesis using r l by (auto simp: store_at_def ring_def)
qed

lemma ring_clear:
  assumes r: "ring q hist c" and message: "c < length hist" and l: "unat l = c mod 11"
  shows "\<exists>xs. store_at l 0 q = Inr (q\<lparr>mq_queue := xs\<rparr>) \<and> ring (q\<lparr>mq_queue := xs\<rparr>) hist (Suc c)"
proof -
  let ?xs = "(mq_queue q)[c mod 11 := 0]"
  have "c mod 11 \<noteq> n mod 11" if "Suc c \<le> n" "n < length hist" for n
    using slots_differ [of c n] that r by (simp add: ring_def)
  then have "?xs ! (n mod 11) = hist ! n" if "Suc c \<le> n" "n < length hist" for n
    using r that by (simp add: ring_def)
  moreover have "?xs ! x = 0" if x: "x < 11" "\<forall>n. Suc c \<le> n \<longrightarrow> n < length hist \<longrightarrow> n mod 11 \<noteq> x" for x
  proof (cases "x = c mod 11")
    case False
    then have "\<forall>n. c \<le> n \<longrightarrow> n < length hist \<longrightarrow> n mod 11 \<noteq> x" using x(2) by (metis Suc_leI le_neq_implies_less)
    then show ?thesis using r x(1) False by (simp add: ring_def)
  qed (use r in \<open>simp add: ring_def\<close>)
  ultimately have "ring (q\<lparr>mq_queue := ?xs\<rparr>) hist (Suc c)" using r message by (auto simp: ring_def)
  then show ?thesis using r l by (auto simp: store_at_def ring_def)
qed

lemma next_slot:
  assumes "unat l = n mod 11"
  shows "unat ((l + 1) mod QUEUE_SIZE :: usize) = Suc n mod 11"
proof -
  have "unat l < 11" using assms by simp
  then have "unat (l + 1) = Suc (unat l)" by (simp add: unat_add_no_overflow)
  then show ?thesis using assms by (simp add: unat_mod md_consts mod_Suc_eq)
qed

text \<open>The state of the buffer in terms of what the threads have left to do, and the local copies.\<close>

abbreviation left :: "(md_act op list \<Rightarrow> 'n::comm_monoid_add) \<Rightarrow> ProcessId set \<Rightarrow> (md_act, 'm, 'l) group \<Rightarrow> 'n" where
  "left f T s \<equiv> (\<Sum>i\<in>T. f (g_prog s i))"

definition md_buffer :: "usize multiset \<Rightarrow> ProcessId set \<Rightarrow> (md_act, 'm, 'l) group \<Rightarrow> MessageQueue \<Rightarrow> usize list \<Rightarrow> nat \<Rightarrow> bool" where
  "md_buffer all T s q hist c \<longleftrightarrow>
     ring q hist c \<and> mset hist + left (\<lambda>p. mset (msgs p)) T s = all \<and> length hist + left (\<lambda>p. length (msgs p)) T s = size all \<and>
     c + left clears T s = size all \<and>
     (\<exists>n. n + left (\<lambda>p. count_list p (Act StoreTail)) T s = size all \<and> unat (mq_tail q) = n mod 11) \<and>
     (\<exists>n. n + left (\<lambda>p. count_list p (Act StoreHead)) T s = size all \<and> unat (mq_head q) = n mod 11)"

definition md_locals :: "(md_act, 'm, usize) group \<Rightarrow> MessageQueue \<Rightarrow> bool" where
  "md_locals s q \<longleftrightarrow>
     (\<forall>i. (needs_tail (g_prog s i) \<longrightarrow> g_local s i = mq_tail q) \<and> (needs_head (g_prog s i) \<longrightarrow> g_local s i = mq_head q))"

definition md_inv :: "usize multiset \<Rightarrow> ProcessId set \<Rightarrow> (md_act, MessageQueue res, usize) group \<Rightarrow> bool" where
  "md_inv all T s \<longleftrightarrow>
     md_sync T s \<and> (\<exists>q hist c. g_mem s = Inr q \<and> md_buffer all T s q hist c \<and> md_locals s q)"

text \<open>A step of a thread takes one operation off what is left.\<close>

lemma left_step:
  assumes "finite T" "i \<in> T" "g_prog s i = op # ops" "g_prog s' = (g_prog s)(i := ops)" "f (op # ops) = f ops + (n :: 'n::comm_monoid_add)"
  shows "left f T s = left f T s' + n"
proof -
  have "left f T s = f (op # ops) + (\<Sum>j\<in>T - {i}. f (g_prog s j))" using assms by (simp add: sum.remove)
  moreover have "left f T s' = f ops + (\<Sum>j\<in>T - {i}. f (g_prog s j))" using assms(1,2,4) by (simp add: sum.remove)
  ultimately show ?thesis using assms(5) by (simp add: ac_simps)
qed

lemma md_inv_sem_step:
  assumes inv: "md_inv all T s" and step: "thread_step run_md_act i s = Some s'" and mem: "g_mem s' = g_mem s" "g_local s' = g_local s"
    and prog: "g_prog s i = op # ops" "g_prog s' = (g_prog s)(i := ops)" "op = Wait_on k \<or> op = Signal_on k"
  shows "md_inv all T s'"
proof -
  from inv obtain q hist c where q: "md_sync T s" "g_mem s = Inr q" "md_buffer all T s q hist c" "md_locals s q"
    unfolding md_inv_def by blast
  have fin: "finite T" "i \<in> T" using group_invD(1) [OF md_syncD(1) [OF q(1)]] md_sync_thread [OF q(1)] prog(1) by auto
  note l = left_step [OF fin prog(1,2), where n = 0, simplified]
  have "md_buffer all T s' q hist c" using q(3) prog(3) l [of "\<lambda>p. mset (msgs p)"] l [of "\<lambda>p. length (msgs p)"] l [of clears]
      l [of "\<lambda>p. count_list p (Act StoreTail)"] l [of "\<lambda>p. count_list p (Act StoreHead)"] unfolding md_buffer_def by auto
  moreover have "md_locals s' q"
    using q(4) needs_next [OF md_syncD(2) [OF q(1), of i, unfolded prog(1)]] prog(2,3) mem(2) unfolding md_locals_def by auto
  ultimately show ?thesis using md_sync_step [OF q(1) step] q(2) mem(1) unfolding md_inv_def by auto
qed

lemma left_same:
  assumes "finite T" "i \<in> T" "g_prog s i = op # ops" "g_prog s' = (g_prog s)(i := ops)" "f (op # ops) = f ops"
  shows "left f T s' = left f T s"
  using left_step [OF assms(1-4), of f 0] assms(5) by simp

lemma left_Suc:
  assumes "finite T" "i \<in> T" "g_prog s i = op # ops" "g_prog s' = (g_prog s)(i := ops)" "f (op # ops) = Suc (f ops)"
  shows "left f T s = Suc (left f T s')"
  using left_step [OF assms(1-4), of f 1] assms(5) by simp

text \<open>What each action does to the buffer, with the numbers of the stores that are left.\<close>

lemma md_buffer_load:
  assumes "finite T" "i \<in> T" "g_prog s i = Act a # ops" "g_prog s' = (g_prog s)(i := ops)" and "a = LoadTail \<or> a = LoadHead"
    and "md_buffer all T s q hist c"
  shows "md_buffer all T s' q hist c"
proof -
  note l = left_same [OF assms(1-4)]
  show ?thesis
    using assms(5,6) l [of "\<lambda>p. mset (msgs p)"] l [of "\<lambda>p. length (msgs p)"] l [of clears]
      l [of "\<lambda>p. count_list p (Act StoreTail)"] l [of "\<lambda>p. count_list p (Act StoreHead)"]
    unfolding md_buffer_def by auto
qed

lemma md_buffer_store:
  assumes "finite T" "i \<in> T" "g_prog s i = Act (StoreMsg x) # ops" "g_prog s' = (g_prog s)(i := ops)"
    and "md_buffer all T s q hist c" and "ring (q\<lparr>mq_queue := xs\<rparr>) (hist @ [x]) c"
  shows "md_buffer all T s' (q\<lparr>mq_queue := xs\<rparr>) (hist @ [x]) c"
proof -
  note l = left_same [OF assms(1-4)]
  have "left (\<lambda>p. mset (msgs p)) T s = left (\<lambda>p. mset (msgs p)) T s' + {#x#}" by (rule left_step [OF assms(1-4)]) simp
  then show ?thesis
    using assms(5,6) left_Suc [OF assms(1-4), of "\<lambda>p. length (msgs p)"] l [of clears]
      l [of "\<lambda>p. count_list p (Act StoreTail)"] l [of "\<lambda>p. count_list p (Act StoreHead)"]
    unfolding md_buffer_def by (auto simp: ac_simps)
qed

lemma md_buffer_clear:
  assumes "finite T" "i \<in> T" "g_prog s i = Act ClearMsg # ops" "g_prog s' = (g_prog s)(i := ops)"
    and "md_buffer all T s q hist c" and "ring (q\<lparr>mq_queue := xs\<rparr>) hist (Suc c)"
  shows "md_buffer all T s' (q\<lparr>mq_queue := xs\<rparr>) hist (Suc c)"
proof -
  note l = left_same [OF assms(1-4)]
  show ?thesis
    using assms(5,6) left_Suc [OF assms(1-4), of clears] l [of "\<lambda>p. mset (msgs p)"] l [of "\<lambda>p. length (msgs p)"]
      l [of "\<lambda>p. count_list p (Act StoreTail)"] l [of "\<lambda>p. count_list p (Act StoreHead)"]
    unfolding md_buffer_def by auto
qed

lemma md_buffer_tail:
  assumes "finite T" "i \<in> T" "g_prog s i = Act StoreTail # ops" "g_prog s' = (g_prog s)(i := ops)" and "md_buffer all T s q hist c"
  shows "md_buffer all T s' (q\<lparr>mq_tail := (mq_tail q + 1) mod QUEUE_SIZE\<rparr>) hist c"
proof -
  let ?q = "q\<lparr>mq_tail := (mq_tail q + 1) mod QUEUE_SIZE\<rparr>"
  note l = left_same [OF assms(1-4)]
  obtain n where n: "n + left (\<lambda>p. count_list p (Act StoreTail)) T s = size all" "unat (mq_tail q) = n mod 11"
    using assms(5) by (auto simp: md_buffer_def)
  have "Suc n + left (\<lambda>p. count_list p (Act StoreTail)) T s' = size all"
    using n(1) left_Suc [OF assms(1-4), of "\<lambda>p. count_list p (Act StoreTail)"] by simp
  moreover have "unat (mq_tail ?q) = Suc n mod 11" using next_slot [OF n(2)] by simp
  ultimately have "\<exists>n. n + left (\<lambda>p. count_list p (Act StoreTail)) T s' = size all \<and> unat (mq_tail ?q) = n mod 11" by blast
  moreover have "ring ?q hist c" using assms(5) by (simp add: md_buffer_def ring_def)
  ultimately show ?thesis
    using assms(5) l [of "\<lambda>p. mset (msgs p)"] l [of "\<lambda>p. length (msgs p)"] l [of clears] l [of "\<lambda>p. count_list p (Act StoreHead)"]
    unfolding md_buffer_def by (intro conjI) simp_all
qed

lemma md_buffer_head:
  assumes "finite T" "i \<in> T" "g_prog s i = Act StoreHead # ops" "g_prog s' = (g_prog s)(i := ops)" and "md_buffer all T s q hist c"
  shows "md_buffer all T s' (q\<lparr>mq_head := (mq_head q + 1) mod QUEUE_SIZE\<rparr>) hist c"
proof -
  let ?q = "q\<lparr>mq_head := (mq_head q + 1) mod QUEUE_SIZE\<rparr>"
  note l = left_same [OF assms(1-4)]
  obtain n where n: "n + left (\<lambda>p. count_list p (Act StoreHead)) T s = size all" "unat (mq_head q) = n mod 11"
    using assms(5) by (auto simp: md_buffer_def)
  have "Suc n + left (\<lambda>p. count_list p (Act StoreHead)) T s' = size all"
    using n(1) left_Suc [OF assms(1-4), of "\<lambda>p. count_list p (Act StoreHead)"] by simp
  moreover have "unat (mq_head ?q) = Suc n mod 11" using next_slot [OF n(2)] by simp
  ultimately have "\<exists>n. n + left (\<lambda>p. count_list p (Act StoreHead)) T s' = size all \<and> unat (mq_head ?q) = n mod 11" by blast
  moreover have "ring ?q hist c" using assms(5) by (simp add: md_buffer_def ring_def)
  ultimately show ?thesis
    using assms(5) l [of "\<lambda>p. mset (msgs p)"] l [of "\<lambda>p. length (msgs p)"] l [of clears] l [of "\<lambda>p. count_list p (Act StoreTail)"]
    unfolding md_buffer_def by (intro conjI) simp_all
qed

text \<open>The thread in the critical section stores at the number of messages stored and clears at the number cleared.\<close>

lemma md_store_slot:
  assumes "md_sync T s" and "i \<notin> g_blocked s" and "g_prog s i = Act (StoreMsg x) # ops" and "md_buffer all T s q hist c" and "md_locals s q"
  shows "\<exists>xs. store_at (g_local s i) x q = Inr (q\<lparr>mq_queue := xs\<rparr>) \<and> ring (q\<lparr>mq_queue := xs\<rparr>) (hist @ [x]) c"
proof -
  note t = md_syncD(2) [OF assms(1), of i, unfolded assms(3)]
  have m: "0 < owes WRITE_MUTEX (g_prog s i)" using md_tail_act(1) [OF t] assms(3) by simp
  have "left (\<lambda>p. count_list p (Act StoreTail)) T s = left (\<lambda>p. length (msgs p)) T s"
    by (rule sum.cong [OF refl]) (metis md_others(1) [OF assms(1,2) m] md_tail_act(2) [OF t] assms(3))
  then have "unat (mq_tail q) = length hist mod 11" "ring q hist c" using assms(4) by (auto simp: md_buffer_def)
  moreover have "length hist < c + 10" using md_room [OF assms(1,3)] assms(4) by (simp add: md_buffer_def)
  moreover have "g_local s i = mq_tail q" using assms(3,5) by (simp add: md_locals_def)
  ultimately show ?thesis using ring_store by metis
qed

lemma md_clear_slot:
  assumes "md_sync T s" and "i \<notin> g_blocked s" and "g_prog s i = Act ClearMsg # ops" and "md_buffer all T s q hist c" and "md_locals s q"
  shows "\<exists>xs. store_at (g_local s i) 0 q = Inr (q\<lparr>mq_queue := xs\<rparr>) \<and> ring (q\<lparr>mq_queue := xs\<rparr>) hist (Suc c)"
proof -
  note t = md_syncD(2) [OF assms(1), of i, unfolded assms(3)]
  have m: "0 < owes WRITE_MUTEX (g_prog s i)" using md_tail_act(1) [OF t] assms(3) by simp
  have "left (\<lambda>p. count_list p (Act StoreHead)) T s = left clears T s"
    by (rule sum.cong [OF refl]) (metis md_others(2) [OF assms(1,2) m] md_tail_act(3) [OF t] assms(3))
  then have "unat (mq_head q) = c mod 11" "ring q hist c" using assms(4) unfolding md_buffer_def by (metis add_right_cancel)+
  moreover have "c < length hist" using md_message [OF assms(1,3)] assms(4) by (simp add: md_buffer_def)
  moreover have "g_local s i = mq_head q" using assms(3,5) by (simp add: md_locals_def)
  ultimately show ?thesis using ring_clear by metis
qed

lemma md_inv_act_step:
  assumes inv: "md_inv all T s" and step: "thread_step run_md_act i s = Some s'"
    and prog: "i \<notin> g_blocked s" "g_prog s i = Act a # ops" "g_prog s' = (g_prog s)(i := ops)"
    and act: "(g_mem s', g_local s' i) = run_md_act a (g_mem s) (g_local s i)" "\<And>j. j \<noteq> i \<Longrightarrow> g_local s' j = g_local s j"
  shows "md_inv all T s'"
proof -
  from inv obtain q hist c where sync: "md_sync T s" and q: "g_mem s = Inr q" and buf: "md_buffer all T s q hist c" and loc: "md_locals s q"
    unfolding md_inv_def by blast
  have fin: "finite T" "i \<in> T" using group_invD(1) [OF md_syncD(1) [OF sync]] md_sync_thread [OF sync] prog(2) by auto
  note t = md_syncD(2) [OF sync, of i, unfolded prog(2)]
  have m: "0 < owes WRITE_MUTEX (g_prog s i)" using md_tail_act(1) [OF t] prog(2) by simp
  have il: "needs_tail (g_prog s i) \<Longrightarrow> g_local s i = mq_tail q" "needs_head (g_prog s i) \<Longrightarrow> g_local s i = mq_head q"
    using loc by (auto simp: md_locals_def)
  have "\<exists>q' hist' c'. g_mem s' = Inr q' \<and> md_buffer all T s' q' hist' c' \<and> g_local s' i = (if a = LoadTail then mq_tail q' else if a = LoadHead then mq_head q' else g_local s i)"
  proof (cases a)
    case (StoreMsg x)
    with md_store_slot [OF sync prog(1) _ buf loc] md_buffer_store [OF fin _ prog(3) buf] act(1) q prog(2) show ?thesis by fastforce
  next
    case ClearMsg
    with md_clear_slot [OF sync prog(1) _ buf loc] md_buffer_clear [OF fin _ prog(3) buf] act(1) q prog(2) show ?thesis by fastforce
  next
    case StoreTail
    with md_buffer_tail [OF fin _ prog(3) buf] il(1) act(1) q prog(2) show ?thesis by auto
  next
    case StoreHead
    with md_buffer_head [OF fin _ prog(3) buf] il(2) act(1) q prog(2) show ?thesis by auto
  qed (use md_buffer_load [OF fin prog(2,3) _ buf] act(1) q in auto)
  moreover have "needs_tail (g_prog s' j) \<Longrightarrow> j = i \<and> a = LoadTail" "needs_head (g_prog s' j) \<Longrightarrow> j = i \<and> a = LoadHead" for j
    using md_others(3,4) [OF sync prog(1) m, of j] needs_next [OF t] prog(3) by (auto split: if_splits)
  ultimately show ?thesis using md_sync_step [OF sync step] unfolding md_inv_def md_locals_def by fastforce
qed

lemma md_inv_step:
  assumes inv: "md_inv all T s" and step: "thread_step run_md_act i s = Some s'"
  shows "md_inv all T s'"
proof -
  have g: "group_inv T md_V 1000 s" using inv by (auto simp: md_inv_def intro: md_syncD(1))
  from step group_inv_touched [OF g] show ?thesis
  proof (cases rule: thread_step_cases)
    case (Act a ops)
    from md_inv_act_step [OF inv step Act(1,2,5,6,7)] show ?thesis .
  next
    case (Sem op ops k sem sem')
    from md_inv_sem_step [OF inv step Sem(4,5,2,3,6)] show ?thesis .
  qed
qed

interpretation md: live_group run_md_act "md_inv all T" T for all T
proof
  show "md_inv all T s'" if "md_inv all T s" "thread_step run_md_act i s = Some s'" for s i s' by (rule md_inv_step [OF that])
  show "finite T \<and> (\<forall>i. i \<notin> T \<longrightarrow> g_prog s i = [])" if "md_inv all T s" for s
    using that group_invD(1,4) [OF md_syncD(1)] unfolding md_inv_def by blast
  show "\<exists>j \<in> T. j \<notin> g_blocked s \<and> g_prog s j \<noteq> []" if "md_inv all T s" "i \<in> T" "g_prog s i \<noteq> []" for s i
    using that md_live unfolding md_inv_def by blast
qed

section \<open>The whole program\<close>

text \<open>The messages of the \<open>n\<close>-th writer, and of all of them.\<close>

definition sent :: "nat \<Rightarrow> usize list" where
  "sent n = map (\<lambda>j. of_nat n + of_nat j) [0..<10]"

definition md_messages :: "usize multiset" where
  "md_messages = (\<Sum>n<8. mset (sent n))"

lemma length_sent [simp]: "length (sent n) = 10"
  by (simp add: sent_def)

lemma md_thread:
  "n < 8 \<Longrightarrow> md_thread n = writes (sent n)" "\<not> n < 8 \<Longrightarrow> md_thread n = reads 10"
  by (simp_all add: md_thread_def md_consts sent_def comp_def)

lemma left_start:
  assumes "distinct pids" and "length pids = MD_THREAD_COUNT"
  shows "left f (set pids) (md_group pids) = (\<Sum>n<8. f (writes (sent n))) + (\<Sum>n<8 :: nat. f (reads 10))"
proof -
  have "left f (set pids) (md_group pids) = (\<Sum>n<16 :: nat. f (g_prog (md_group pids) (pids ! n)))"
    using assms by (simp add: sum.distinct_set_conv_list sum_list_sum_nth md_consts lessThan_atLeast0)
  also have "\<dots> = (\<Sum>n<16. f (md_thread n))"
    by (rule sum.cong [OF refl]) (use forked_prog(2) [OF assms(1), of _ md_thread] assms(2) in \<open>simp add: md_group_def md_consts\<close>)
  also have "\<dots> = (\<Sum>n<8. f (md_thread n)) + (\<Sum>n\<in>{8..<16}. f (md_thread n))"
    by (subst sum.union_disjoint [symmetric]) (auto intro!: sum.cong)
  also have "(\<Sum>n\<in>{8..<16}. f (md_thread n)) = (\<Sum>n\<in>{8..<16 :: nat}. f (reads 10))" by (rule sum.cong) (simp_all add: md_thread(2))
  also have "\<dots> = (\<Sum>n<8 :: nat. f (reads 10))" using sum.shift_bounds_nat_ivl [of "\<lambda>_. f (reads 10)" 0 8 8] by (simp add: lessThan_atLeast0)
  finally show ?thesis by (simp add: md_thread(1) cong: sum.cong_simp)
qed

lemma md_start_prog:
  assumes "distinct pids" "length pids = MD_THREAD_COUNT"
  shows "i \<notin> set pids \<Longrightarrow> g_prog (md_group pids) i = []" "md_tail (g_prog (md_group pids) i)"
    "Wait_on k \<in> set (g_prog (md_group pids) i) \<or> Signal_on k \<in> set (g_prog (md_group pids) i) \<Longrightarrow> k \<in> dom md_V"
    "\<not> needs_tail (g_prog (md_group pids) i)" "\<not> needs_head (g_prog (md_group pids) i)"
proof -
  show out: "i \<notin> set pids \<Longrightarrow> g_prog (md_group pids) i = []" for i using forked_prog(1) [OF assms(1), of _ md_thread] by (simp add: md_group_def)
  have "g_prog (md_group pids) i = [] \<or> (\<exists>n. g_prog (md_group pids) i = md_thread n)"
    using out [of i] forked_prog(2) [OF assms(1), of _ md_thread] by (cases "i \<in> set pids") (auto simp: in_set_conv_nth md_group_def)
  then consider ms where "g_prog (md_group pids) i = writes ms" | n where "g_prog (md_group pids) i = reads n"
    using md_thread by (metis concat.simps(1) list.simps(8))
  note cases = this
  show "md_tail (g_prog (md_group pids) i)" by (cases rule: cases) (simp_all add: md_tail_writes md_tail_reads)
  show "k \<in> dom md_V" if "Wait_on k \<in> set (g_prog (md_group pids) i) \<or> Signal_on k \<in> set (g_prog (md_group pids) i)"
    by (cases rule: cases) (use that in \<open>auto simp: write_message_def read_message_def md_V_def split: if_splits\<close>)
  show "\<not> needs_tail (g_prog (md_group pids) i)" "\<not> needs_head (g_prog (md_group pids) i)" by (cases rule: cases; simp)+
qed

lemma md_start_sem:
  "sem_of (md_group pids) k =
     (if k = EMPTY then Some (Semaphore_new 10) else if k = FULL then Some (Semaphore_new 0)
      else if k = WRITE_MUTEX then Some (Semaphore_new 1) else None)"
  by (simp add: sem_of_def md_group_def md_sems_def SemaphoreSet_insert_def SemaphoreSet_default_def Let_def md_keys MAX_MESSAGE_SIZE_def)

lemma md_start_sync:
  assumes pids: "distinct pids" "length pids = MD_THREAD_COUNT"
  shows "md_sync (set pids) (md_group pids)"
proof -
  note l = left_start [OF pids]
  have sigs: "count_list (writes ms) (Signal_on WRITE_MUTEX) = length ms" "count_list (reads n) (Signal_on WRITE_MUTEX) = n" for ms n
    by (induction ms, simp_all add: write_message_def md_keys) (induction n, simp_all add: read_message_def md_keys)
  have "sem_balance (set pids) 10 1000 (md_group pids) EMPTY"
    using l [of "owes EMPTY"] l [of "\<lambda>p. count_list p (Signal_on EMPTY)"] by (simp add: sem_balance_def md_start_sem Semaphore_new_def md_owes md_counts)
  moreover have "sem_balance (set pids) 0 1000 (md_group pids) FULL"
    using l [of "owes FULL"] l [of "\<lambda>p. count_list p (Signal_on FULL)"] by (simp add: sem_balance_def md_start_sem Semaphore_new_def md_owes md_counts md_keys)
  moreover have "sem_balance (set pids) 1 1000 (md_group pids) WRITE_MUTEX"
    using l [of "owes WRITE_MUTEX"] l [of "\<lambda>p. count_list p (Signal_on WRITE_MUTEX)"]
    by (simp add: sem_balance_def md_start_sem Semaphore_new_def md_owes sigs md_keys)
  ultimately have "sem_balance (set pids) v 1000 (md_group pids) k" if "md_V k = Some v" for k v
    using that by (auto simp: md_V_def split: if_splits)
  moreover have "sem_wait_queue sem = []" if "sem_of (md_group pids) k = Some sem" for k sem
    using that by (auto simp: md_start_sem Semaphore_new_def split: if_splits)
  moreover have "g_blocked (md_group pids) = {}" by (simp add: md_group_def)
  ultimately show ?thesis using md_start_prog [OF pids] unfolding md_sync_def group_inv_def by (simp add: Ball_def)
qed

lemma md_start_inv:
  assumes pids: "distinct pids" "length pids = MD_THREAD_COUNT"
  shows "md_inv md_messages (set pids) (md_group pids)"
proof -
  note l = left_start [OF pids]
  have sz: "size md_messages = 80" by (simp add: md_messages_def size_multiset_sum)
  have "ring MESSAGE_QUEUE [] 0" by (simp add: ring_def MESSAGE_QUEUE_def md_consts)
  then have "md_buffer md_messages (set pids) (md_group pids) MESSAGE_QUEUE [] 0"
    using l [of "\<lambda>p. mset (msgs p)"] l [of "\<lambda>p. length (msgs p)"] l [of clears] l [of "\<lambda>p. count_list p (Act StoreTail)"]
      l [of "\<lambda>p. count_list p (Act StoreHead)"] unfolding md_buffer_def sz by (simp add: md_counts md_messages_def MESSAGE_QUEUE_def)
  moreover have "md_locals (md_group pids) MESSAGE_QUEUE" using md_start_prog(4,5) [OF pids] by (simp add: md_locals_def)
  ultimately show ?thesis using md_start_sync [OF pids] unfolding md_inv_def by (auto simp: md_group_def)
qed

text \<open>C31. The message queue of \<^verbatim>\<open>md\<close> is a bounded buffer in every interleaving of its sixteen processes. No index is
  out of range. At most one process is between taking and giving back the mutex. The messages stored so far are a list
  of the messages of the writers without loss or repetition, of which the readers have cleared a prefix; the at most
  ten others are in the buffer, each in the slot of its number, so that no message is overwritten before it is
  cleared and messages are cleared in the order in which they were stored. Every partial run can be completed, and
  when nobody can take a step the buffer is empty with both positions at slot 3.\<close>

theorem message_queue_bounded_buffer:
  assumes "distinct pids" and "length pids = MD_THREAD_COUNT" and s: "s = run_group run_md_act sched (md_group pids)"
  shows "(\<exists>q hist c. g_mem s = Inr q \<and> ring q hist c \<and> mset hist + (\<Sum>i\<in>set pids. mset (msgs (g_prog s i))) = md_messages) \<and>
    (\<forall>i j. i \<notin> g_blocked s \<longrightarrow> j \<notin> g_blocked s \<longrightarrow> 0 < owes WRITE_MUTEX (g_prog s i) \<longrightarrow> 0 < owes WRITE_MUTEX (g_prog s j) \<longrightarrow> i = j) \<and>
    ((\<forall>i \<in> set pids. thread_step run_md_act i s = None) \<longrightarrow>
       g_mem s = Inr \<lparr>mq_queue = replicate 11 0, mq_head = 3, mq_tail = 3\<rparr>) \<and>
    (\<exists>rest. \<forall>i. g_prog (run_group run_md_act rest s) i = [])"
proof -
  have inv: "md_inv md_messages (set pids) s" unfolding s by (rule md.inv_run [OF md_start_inv [OF assms(1,2)]])
  then obtain q hist c where q: "md_sync (set pids) s" "g_mem s = Inr q" "md_buffer md_messages (set pids) s q hist c"
    unfolding md_inv_def by blast
  have "g_mem s = Inr \<lparr>mq_queue = replicate 11 0, mq_head = 3, mq_tail = 3\<rparr>" if "\<forall>i \<in> set pids. thread_step run_md_act i s = None"
  proof -
    have "g_prog s i = []" for i by (rule md.stuck_finished [OF inv that])
    moreover have "size md_messages = 80" by (simp add: md_messages_def size_multiset_sum)
    ultimately have b: "ring q hist c" "length hist = 80" "c = 80" "unat (mq_tail q) = 3" "unat (mq_head q) = 3"
      using q(3) by (auto simp: md_buffer_def)
    then have "mq_queue q = replicate 11 0" by (intro nth_equalityI) (auto simp: ring_def)
    moreover have "mq_tail q = 3" "mq_head q = 3" using b(4,5) by (simp_all add: word_unat_eq_iff)
    ultimately have "q = \<lparr>mq_queue = replicate 11 0, mq_head = 3, mq_tail = 3\<rparr>" by (cases q) simp
    then show ?thesis using q(2) by simp
  qed
  moreover have "i = j" if "i \<notin> g_blocked s" "j \<notin> g_blocked s" "0 < owes WRITE_MUTEX (g_prog s i)" "0 < owes WRITE_MUTEX (g_prog s j)" for i j
    using md_mutex [OF q(1) _ that(1,2,3,4)] by blast
  moreover have "ring q hist c" "mset hist + (\<Sum>i\<in>set pids. mset (msgs (g_prog s i))) = md_messages"
    using q(3) by (simp_all add: md_buffer_def)
  ultimately show ?thesis using q(2) md.completes [OF inv] by blast
qed

theorem message_queue_bounded_buffer_witness:
  "let pids = map ProcessId [3, 4, 5, 6, 7, 8, 9, 10, 11, 12, 13, 14, 15, 16, 17, 18]
   in distinct pids \<and> length pids = MD_THREAD_COUNT \<and>
      (\<exists>rest. \<forall>i. g_prog (run_group run_md_act rest (run_group run_md_act (pids @ pids) (md_group pids))) i = [])"
proof -
  let ?pids = "map ProcessId [3, 4, 5, 6, 7, 8, 9, 10, 11, 12, 13, 14, 15, 16, 17, 18]"
  have *: "distinct ?pids" "length ?pids = MD_THREAD_COUNT" by (simp_all add: MD_THREAD_COUNT_def)
  from * message_queue_bounded_buffer [OF * refl, of "?pids @ ?pids"] show ?thesis unfolding Let_def by blast
qed

end
