(* ===== verification/Shell.thy ===== *)
theory Shell
  imports Boot UserLib
begin

text \<open>
  The shell (\<^verbatim>\<open>app/sh\<close>): the commands of its loop over the library calls it makes. The calls are a record of functions
  on a system state; what the shell prints is a message of \<open>sh_msg\<close>, one per print statement of the loop. The banner
  that it draws before the loop has no effect on the state.
\<close>

section \<open>The program\<close>

text \<open>\<^verbatim>\<open>str::split\<close> with a character; there is always at least one part.\<close>

fun split_on :: "rchar \<Rightarrow> rchar list \<Rightarrow> rchar list list" where
  "split_on c [] = [[]]"
| "split_on c (x # xs) =
     (if x = c then [] # split_on c xs
      else case split_on c xs of [] \<Rightarrow> [[x]] | w # ws \<Rightarrow> (x # w) # ws)"

definition rsplit_on :: "rchar \<Rightarrow> rchar list \<Rightarrow> rchar list list" where
  "rsplit_on c s = rev (split_on c s)"

datatype sh_msg = Prompt | Help_text | Failed_to_run "rchar list" | Exited_with "rchar list" isize | No_path
  | State_header | Clear_screen | Unknown_command "rchar list"

record 's sh_calls =
  call_print :: "sh_msg \<Rightarrow> 's \<Rightarrow> 's"
  call_list_app :: "'s \<Rightarrow> 's"
  call_stat :: "'s \<Rightarrow> 's"
  call_spawn :: "rchar list \<Rightarrow> 's \<Rightarrow> u16 \<times> 's"
  call_wait_pid :: "u16 \<Rightarrow> 's \<Rightarrow> isize \<times> 's"

text \<open>One turn of the loop after the line was read: whether the loop ends, and the state. \<open>32\<close> is the blank and \<open>47\<close>
  the slash.\<close>

definition sh_turn :: "'s sh_calls \<Rightarrow> rchar list \<Rightarrow> 's \<Rightarrow> (bool \<times> 's) res" where
  "sh_turn os binding s =
     (case split_on 32 (trim binding) of
        [] \<Rightarrow> Inl Unwrap_failed
      | op # command \<Rightarrow>
          if op = chars ''help'' then Inr (False, call_print os Help_text s)
          else if op = chars ''la'' then Inr (False, call_list_app os s)
          else if op = chars ''run'' then
            (case command of
               path # _ \<Rightarrow>
                 (let name = rsplit_on 47 path; (pid, s) = call_spawn os path s
                  in if name = [] then Inl Index_out_of_bounds
                     else if pid = 0 then Inr (False, call_print os (Failed_to_run (name ! 0)) s)
                     else let s = call_stat os s; (code, s) = call_wait_pid os pid s
                          in Inr (False, call_print os (Exited_with (name ! 0) code) s))
             | [] \<Rightarrow> Inr (False, call_print os No_path s))
          else if op = chars ''ps'' then Inr (False, call_stat os (call_print os State_header s))
          else if op = chars ''exit'' then Inr (True, s)
          else if op = chars ''clear'' then Inr (False, call_print os Clear_screen s)
          else Inr (False, call_print os (Unknown_command op) s))"

text \<open>The loop on the lines that \<^verbatim>\<open>read_line\<close> returns; \<^term>\<open>None\<close> means that all of them were used and the shell is
  still running. The result has the lines that are left.\<close>

fun sh_loop :: "'s sh_calls \<Rightarrow> rchar list list \<Rightarrow> 's \<Rightarrow> (rchar list list \<times> 's) res option" where
  "sh_loop os [] s = None"
| "sh_loop os (line # rest) s =
     (case sh_turn os line (call_print os Prompt s) of
        Inl e \<Rightarrow> Some (Inl e)
      | Inr (ends, s) \<Rightarrow> if ends then Some (Inr (rest, s)) else sh_loop os rest s)"

section \<open>What a command line means\<close>

datatype sh_cmd = Help | List_apps | Run "rchar list" | Run_nothing | Ps | Exit_shell | Clear | Unknown_cmd "rchar list"

text \<open>The words of a line are separated by single blanks.\<close>

fun join_words :: "rchar list list \<Rightarrow> rchar list" where
  "join_words [] = []"
| "join_words [w] = w"
| "join_words (w # ws) = w @ 32 # join_words ws"

definition cmd_of :: "rchar list list \<Rightarrow> sh_cmd" where
  "cmd_of ws =
     (if hd ws = chars ''help'' then Help else if hd ws = chars ''la'' then List_apps
      else if hd ws = chars ''run'' then (if length ws = 1 then Run_nothing else Run (ws ! 1))
      else if hd ws = chars ''ps'' then Ps else if hd ws = chars ''exit'' then Exit_shell
      else if hd ws = chars ''clear'' then Clear else Unknown_cmd (hd ws))"

definition base_name :: "rchar list \<Rightarrow> rchar list" where
  "base_name path = rev (takeWhile (\<lambda>c. c \<noteq> 47) (rev path))"

fun exec :: "'s sh_calls \<Rightarrow> sh_cmd \<Rightarrow> 's \<Rightarrow> 's" where
  "exec os Help s = call_print os Help_text s"
| "exec os List_apps s = call_list_app os s"
| "exec os (Run path) s =
     (let (pid, s1) = call_spawn os path s; (code, s2) = call_wait_pid os pid (call_stat os s1)
      in if pid = 0 then call_print os (Failed_to_run (base_name path)) s1
         else call_print os (Exited_with (base_name path) code) s2)"
| "exec os Run_nothing s = call_print os No_path s"
| "exec os Ps s = call_stat os (call_print os State_header s)"
| "exec os Exit_shell s = s"
| "exec os Clear s = call_print os Clear_screen s"
| "exec os (Unknown_cmd op) s = call_print os (Unknown_command op) s"

lemma split_on_nonempty [simp]: "split_on c s \<noteq> []"
  by (induction s) (auto split: list.splits)

lemma split_on_word: "c \<notin> set w \<Longrightarrow> split_on c w = [w]"
  by (induction w) auto

lemma split_on_append: "c \<notin> set w \<Longrightarrow> split_on c (w @ c # s) = w # split_on c s"
  by (induction w) auto

lemma split_join: "ws \<noteq> [] \<Longrightarrow> \<forall>w \<in> set ws. 32 \<notin> set w \<Longrightarrow> split_on 32 (join_words ws) = ws"
  by (induction ws rule: join_words.induct) (simp_all add: split_on_word split_on_append)

lemma join_split: "join_words (split_on 32 s) = s"
proof (induction s)
  case (Cons x xs)
  obtain w ws where w: "split_on 32 xs = w # ws" by (cases "split_on 32 xs") auto
  with Cons show ?case by (cases ws) auto
qed simp

lemma split_parts: "w \<in> set (split_on c s) \<Longrightarrow> c \<notin> set w"
proof (induction s arbitrary: w)
  case (Cons x xs)
  obtain v vs where v: "split_on c xs = v # vs" by (cases "split_on c xs") auto
  with Cons.prems Cons.IH show ?case by (fastforce split: if_splits)
qed simp

lemma split_on_length: "length (split_on c s) = Suc (count_list s c)"
  by (induction s) (auto split: list.splits)

lemma last_split: "last (split_on c s) = rev (takeWhile (\<lambda>x. x \<noteq> c) (rev s))"
proof (induction s)
  case (Cons x xs)
  obtain v vs where v: "split_on c xs = v # vs" by (cases "split_on c xs") auto
  show ?case
  proof (cases "c \<in> set xs")
    case True
    then have "vs \<noteq> []" using v split_on_length [of c xs] by (auto simp: count_list_0_iff)
    then show ?thesis using Cons v True by (auto simp: takeWhile_append)
  next
    case False
    then show ?thesis using split_on_word [of c xs] by (auto simp: takeWhile_append)
  qed
qed simp

lemma rsplit_head: "rsplit_on 47 path ! 0 = base_name path" "rsplit_on 47 path \<noteq> []"
proof -
  have "rev (split_on 47 path) ! 0 = last (split_on 47 path)" by (simp add: rev_nth last_conv_nth)
  then show "rsplit_on 47 path ! 0 = base_name path" by (simp add: rsplit_on_def last_split base_name_def)
qed (simp add: rsplit_on_def)

text \<open>A turn of the loop executes the command that the words of the line mean.\<close>

lemma sh_turn_exec:
  "sh_turn os line s = Inr (cmd_of (split_on 32 (trim line)) = Exit_shell, exec os (cmd_of (split_on 32 (trim line))) s)"
proof -
  obtain op command where w: "split_on 32 (trim line) = op # command" by (cases "split_on 32 (trim line)") auto
  show ?thesis
    unfolding sh_turn_def w cmd_of_def
    by (cases command) (auto simp: rsplit_head Let_def split: prod.splits)
qed

abbreviation line_cmd :: "rchar list \<Rightarrow> sh_cmd" where
  "line_cmd line \<equiv> cmd_of (split_on 32 (trim line))"

abbreviation turn :: "'s sh_calls \<Rightarrow> rchar list \<Rightarrow> 's \<Rightarrow> 's" where
  "turn os line s \<equiv> exec os (line_cmd line) (call_print os Prompt s)"

lemma sh_loop_before_exit:
  "\<forall>l \<in> set ls. line_cmd l \<noteq> Exit_shell \<Longrightarrow> sh_loop os (ls @ rest) s = sh_loop os rest (fold (turn os) ls s)"
  by (induction ls arbitrary: s) (simp_all add: sh_turn_exec)

text \<open>C35. The shell never panics. It executes the lines it reads in order, each by the meaning of its first words, and
  ends exactly at the first line whose first word is \<^verbatim>\<open>exit\<close>, with the remaining lines unread; on lines without one it
  goes on for ever. A line written from words without blanks is read as those words, whatever white space surrounds
  the line, so \<^verbatim>\<open>run\<close> with a path spawns that path, and waits for the process exactly when the spawn did not return 0.\<close>

theorem shell_executes_lines:
  "(\<forall>ls l rest. (\<forall>l' \<in> set ls. line_cmd l' \<noteq> Exit_shell) \<longrightarrow> line_cmd l = Exit_shell \<longrightarrow>
      sh_loop os (ls @ l # rest) s = Some (Inr (rest, call_print os Prompt (fold (turn os) ls s)))) \<and>
   (\<forall>ls. (\<forall>l \<in> set ls. line_cmd l \<noteq> Exit_shell) \<longrightarrow> sh_loop os ls s = None) \<and>
   (\<forall>ls e. sh_loop os ls s \<noteq> Some (Inl e)) \<and>
   (\<forall>ws. ws \<noteq> [] \<longrightarrow> (\<forall>w \<in> set ws. w \<noteq> [] \<and> 32 \<notin> set w \<and> \<not> is_whitespace (hd w) \<and> \<not> is_whitespace (last w)) \<longrightarrow>
      (\<forall>before after. (\<forall>c \<in> set (before @ after). is_whitespace c) \<longrightarrow>
        line_cmd (before @ join_words ws @ after) = cmd_of ws))"
proof (intro conjI allI impI)
  show "sh_loop os (ls @ l # rest) s = Some (Inr (rest, call_print os Prompt (fold (turn os) ls s)))"
    if "\<forall>l' \<in> set ls. line_cmd l' \<noteq> Exit_shell" "line_cmd l = Exit_shell" for ls l rest
    using that by (simp add: sh_loop_before_exit sh_turn_exec)
  show "sh_loop os ls s = None" if "\<forall>l \<in> set ls. line_cmd l \<noteq> Exit_shell" for ls
    using sh_loop_before_exit [OF that, of os "[]" s] by simp
  show "sh_loop os ls s \<noteq> Some (Inl e)" for ls e by (induction ls arbitrary: s) (auto simp: sh_turn_exec)
  fix ws :: "rchar list list"
  assume ne: "ws \<noteq> []" and ws: "\<forall>w \<in> set ws. w \<noteq> [] \<and> 32 \<notin> set w \<and> \<not> is_whitespace (hd w) \<and> \<not> is_whitespace (last w)"
  have "join_words ws \<noteq> [] \<and> hd (join_words ws) = hd (hd ws) \<and> last (join_words ws) = last (last ws)"
    using ne ws by (induction ws rule: join_words.induct) (auto simp: hd_append)
  then have "trim (before @ join_words ws @ after) = join_words ws" if "\<forall>c \<in> set (before @ after). is_whitespace c" for before after
    using ne ws that by (intro trim_padded) auto
  then show "line_cmd (before @ join_words ws @ after) = cmd_of ws" if "\<forall>c \<in> set (before @ after). is_whitespace c" for before after
    using ne ws that by (simp add: split_join)
qed

text \<open>A system that records the messages and spawned paths.\<close>

abbreviation wit_calls :: "(sh_msg list \<times> rchar list list) sh_calls" where
  "wit_calls \<equiv> \<lparr>call_print = (\<lambda>m (ms, ps). (ms @ [m], ps)), call_list_app = id, call_stat = id,
     call_spawn = (\<lambda>p (ms, ps). (7, ms, ps @ [p])), call_wait_pid = (\<lambda>pid s. (0, s))\<rparr>"

theorem shell_executes_lines_witness:
  "sh_loop wit_calls [chars ''run fab'', chars ''exit'', chars ''ps''] ([], []) =
     Some (Inr ([chars ''ps''], [Prompt, Exited_with (chars ''fab'') 0, Prompt], [chars ''fab'']))"
proof -
  have run: "line_cmd (chars ''run fab'') = Run (chars ''fab'')" and ex: "line_cmd (chars ''exit'') = Exit_shell"
    by (simp_all add: chars_def trim_def is_whitespace_def cmd_of_def)
  have "base_name (chars ''fab'') = chars ''fab''" by (simp add: base_name_def chars_def)
  moreover have "sh_loop wit_calls ([chars ''run fab''] @ chars ''exit'' # [chars ''ps'']) ([], []) =
      Some (Inr ([chars ''ps''], call_print wit_calls Prompt (fold (turn wit_calls) [chars ''run fab''] ([], []))))"
    by (rule conjunct1 [OF shell_executes_lines [of wit_calls "([], [])"], rule_format]) (use run ex in simp_all)
  ultimately show ?thesis using run by simp
qed

end
