(* ===== verification/Startup.thy ===== *)
theory Startup
  imports UserLib Boot Interrupts
begin

text \<open>
  The start of the system: \<^verbatim>\<open>memory::init\<close> with the heap for user processes (\<^verbatim>\<open>kernel/src/memory/mod.rs\<close>,
  \<^verbatim>\<open>kernel/src/memory/user.rs\<close>), the kernel's \<^verbatim>\<open>init\<close> and \<^verbatim>\<open>wait\<close> (\<^verbatim>\<open>kernel/src/lib.rs\<close>), \<^verbatim>\<open>kernel_main\<close>
  (\<^verbatim>\<open>kernel/src/main.rs\<close>), and in a user process the set-up of its heap by \<^verbatim>\<open>brk\<close> (\<^verbatim>\<open>lib/src/allocator/brk.rs\<close>). The
  crate \<^verbatim>\<open>linked_list_allocator\<close> is the parameter \<open>heap_init\<close>, which gets the start and the size of a heap.
\<close>

section \<open>The heap for user processes\<close>

definition USER_HEAP_START :: u64 where
  "USER_HEAP_START = 0x400000000000"

definition USER_HEAP_SIZE :: u64 where
  "USER_HEAP_SIZE = 1024 * 1024"

definition USER_HEAP_PAGE :: u64 where
  "USER_HEAP_PAGE = USER_HEAP_SIZE div PAGE_SIZE"

text \<open>The mapper is that of the current page table. The result of \<^verbatim>\<open>user_map_range\<close> is not looked at.\<close>

definition init_user_heap :: "('m, 'a) env \<Rightarrow> (u64 \<Rightarrow> u64 \<Rightarrow> 'h \<Rightarrow> 'h) \<Rightarrow> ('m, 'a) machine \<Rightarrow> 'h \<Rightarrow>
    ((map_error + unit) \<times> ('m, 'a) machine \<times> 'h) res" where
  "init_user_heap E heap_init mc h =
     rbind (expect Address_panic (va_new (env_x E) USER_HEAP_START)) (\<lambda>user_heap_start.
     rbind (expect Address_panic (va_add (env_x E) user_heap_start USER_HEAP_SIZE)) (\<lambda>user_heap_end.
     rbind (user_map_range (env_x E) (env_f E) (cr3_addr (mc_cr3 mc)) USER_HEAP_START USER_HEAP_PAGE (mc_tables mc) (mc_alloc mc))
       (\<lambda>(_, m, a).
     rbind (humanized_size USER_HEAP_SIZE) (\<lambda>_.
       Inr (Inr (), mc\<lparr>mc_tables := m, mc_alloc := a\<rparr>, heap_init USER_HEAP_START USER_HEAP_SIZE h)))))"

definition user_init :: "('m, 'a) env \<Rightarrow> (u64 \<Rightarrow> u64 \<Rightarrow> 'h \<Rightarrow> 'h) \<Rightarrow> ('m, 'a) machine \<Rightarrow> 'h \<Rightarrow> (('m, 'a) machine \<times> 'h) res" where
  "user_init E heap_init mc h =
     rbind (init_user_heap E heap_init mc h) (\<lambda>(r, mc', h').
       case r of Inl e \<Rightarrow> Inl (Expect_failed ''User Heap Initialization Failed.'') | Inr _ \<Rightarrow> Inr (mc', h'))"

definition memory_init :: "('m, BootInfoFrameAllocator) env \<Rightarrow> (u64 \<Rightarrow> u64 \<Rightarrow> 'h \<Rightarrow> 'h) \<Rightarrow> MemoryDescriptor list \<Rightarrow>
    ('m, BootInfoFrameAllocator) machine \<Rightarrow> 'h \<Rightarrow> (('m, BootInfoFrameAllocator) machine \<times> 'h) res" where
  "memory_init E heap_init memory_map mc h =
     (let (mem_size, usable_mem_size) = sum_pages memory_map 0 0
      in rbind (humanized_size (mem_size * PAGE_SIZE)) (\<lambda>_.
         rbind (humanized_size (usable_mem_size * PAGE_SIZE)) (\<lambda>_.
           user_init E heap_init (mc\<lparr>mc_alloc := memory_frames (env_x E) memory_map\<rparr>) h)))"

section \<open>The kernel\<close>

record BootInfo =
  bi_memory_map :: "MemoryDescriptor list"
  bi_physical_memory_offset :: u64
  bi_loaded_apps :: "App list option"
  bi_kernel_pages :: "(page \<times> page) list"

text \<open>\<^verbatim>\<open>init\<close>. The logger, the segment registers and the kernel heap have no state in the model, and enabling interrupts
  near its end has no effect in it: interrupts are steps of the kernel's step relation, taken between the operations. \<open>banner\<close> is what
  \<^verbatim>\<open>serial::init\<close> prints. The result holds the interrupt table, the serial port, the interrupt controllers, the kernel
  and the heap for user processes.\<close>

definition ysos_init :: "('m, BootInfoFrameAllocator) env \<Rightarrow> (u64 \<Rightarrow> u64 \<Rightarrow> 'h \<Rightarrow> 'h) \<Rightarrow> (u16, u8, 's) bus \<Rightarrow> (u64, u32, 'd) bus \<Rightarrow>
    u8 list \<Rightarrow> bool option \<Rightarrow> BootInfo \<Rightarrow> 's \<Rightarrow> 'd \<Rightarrow> ('m, BootInfoFrameAllocator, 'q) kernel \<Rightarrow> 'h \<Rightarrow>
    (idt \<times> 's \<times> 'd \<times> ('m, BootInfoFrameAllocator, 'q) kernel \<times> 'h) res option" where
  "ysos_init E heap_init sbus abus banner has_apic boot_info sd ad k h =
     (case serial_init sbus banner sd of
        None \<Rightarrow> None
      | Some (_, sd) \<Rightarrow>
          (let E = E\<lparr>env_off := bi_physical_memory_offset boot_info\<rparr>
           in obind (interrupt_init abus (Some (env_off E)) has_apic ad) (\<lambda>(idt, ad).
              let k = proc_init E (bi_kernel_pages boot_info) (bi_loaded_apps boot_info) k
              in obind (lift (memory_init E heap_init (bi_memory_map boot_info) (k_machine k) h)) (\<lambda>(mc, h).
                 lift (Inr (idt, sd, ad, k\<lparr>k_machine := mc\<rparr>, h))))))"

definition spawn_init :: "('m, 'a) env \<Rightarrow> ('m, 'a, 'q) kernel \<Rightarrow> (ProcessId \<times> ('m, 'a, 'q) kernel) res" where
  "spawn_init E k = rbind (spawn E ''sh'' k) (\<lambda>(r, k'). rbind (expect Unwrap_failed r) (\<lambda>pid. Inr (pid, k')))"

text \<open>The loop of \<^verbatim>\<open>wait\<close> over the states in which the kernel process runs again after a \<^verbatim>\<open>hlt\<close>.\<close>

fun kernel_wait :: "ProcessId \<Rightarrow> ('m, 'a, 'q) kernel list \<Rightarrow> ('m, 'a, 'q) kernel list option" where
  "kernel_wait init [] = None"
| "kernel_wait init (k # ks) = (if still_alive init k then kernel_wait init ks else Some ks)"

text \<open>\<^verbatim>\<open>kernel_main\<close> up to the point where it waits: the shell's pid and the state.\<close>

definition kernel_main :: "('m, BootInfoFrameAllocator) env \<Rightarrow> (u64 \<Rightarrow> u64 \<Rightarrow> 'h \<Rightarrow> 'h) \<Rightarrow> (u16, u8, 's) bus \<Rightarrow> (u64, u32, 'd) bus \<Rightarrow>
    u8 list \<Rightarrow> bool option \<Rightarrow> BootInfo \<Rightarrow> 's \<Rightarrow> 'd \<Rightarrow> ('m, BootInfoFrameAllocator, 'q) kernel \<Rightarrow> 'h \<Rightarrow>
    (ProcessId \<times> idt \<times> ('m, BootInfoFrameAllocator, 'q) kernel \<times> 'h) res option" where
  "kernel_main E heap_init sbus abus banner has_apic boot_info sd ad k h =
     obind (ysos_init E heap_init sbus abus banner has_apic boot_info sd ad k h) (\<lambda>(idt, sd, ad, k, h).
       lift (rbind (spawn_init (E\<lparr>env_off := bi_physical_memory_offset boot_info\<rparr>) k) (\<lambda>(pid, k). Inr (pid, idt, k, h))))"

section \<open>The heap of a user process\<close>

definition BRK_HEAP_SIZE :: usize where
  "BRK_HEAP_SIZE = 8 * 1024 - 8"

text \<open>\<^verbatim>\<open>sys_brk\<close> of the user library: the call, the kernel's answer, and how the answer is read.\<close>

definition lib_sys_brk :: "('m, 'a) env \<Rightarrow> 'q array_queue \<Rightarrow> ('m, 'a, 'h) services \<Rightarrow> usize option \<Rightarrow> ProcessContext \<Rightarrow>
    ('m, 'a, 'q) kernel \<Rightarrow> 'h \<Rightarrow> (usize option \<times> ProcessContext \<times> ('m, 'a, 'q) kernel \<times> 'h) res option" where
  "lib_sys_brk E Q S addr context k h =
     obind (dispatcher E Q S (lib_brk_call addr context) k h) (\<lambda>(c, k', h').
       lift (Inr (lib_brk_ret (ret_of c), c, k', h')))"

text \<open>\<^verbatim>\<open>allocator::init\<close>: start and size of the heap that it gives to the allocator.\<close>

definition allocator_init :: "('m, 'a) env \<Rightarrow> 'q array_queue \<Rightarrow> ('m, 'a, 'h) services \<Rightarrow> ProcessContext \<Rightarrow>
    ('m, 'a, 'q) kernel \<Rightarrow> 'h \<Rightarrow> ((usize \<times> usize) \<times> ('m, 'a, 'q) kernel) res option" where
  "allocator_init E Q S context k h =
     obind (lib_sys_brk E Q S None context k h) (\<lambda>(r, c, k, h).
     obind (lift (expect Unwrap_failed r)) (\<lambda>heap_start.
       let heap_end = heap_start + BRK_HEAP_SIZE
       in obind (lib_sys_brk E Q S (Some heap_end) c k h) (\<lambda>(r, c, k, h).
          obind (lift (expect (Expect_failed ''Failed to allocate heap'') r)) (\<lambda>ret.
          lift (if ret = heap_end then Inr ((heap_start, BRK_HEAP_SIZE), k) else Inl (Panicked ''Failed to allocate heap''))))))"

section \<open>The heap for user processes is claimed whether or not it is mapped\<close>

lemma small_size: "n < 2 ^ 24 \<Longrightarrow> unat sz = n \<Longrightarrow> \<exists>r. humanized_size sz = Inr r"
proof -
  assume n: "n < 2 ^ 24" "unat sz = n"
  have loop: "snd (humanized_loop 4 x 0) < 4" if "x < 1024 ^ 3" for x
  proof -
    have "x / 1024 / 1024 < 1024" using that by simp
    then show ?thesis by (subst humanized_loop.simps, subst humanized_loop.simps, subst humanized_loop.simps, subst humanized_loop.simps) simp
  qed
  have "(of_nat n :: rat) < of_nat (1024 ^ 3)" using n(1) by (intro of_nat_less_iff [THEN iffD2]) simp
  then have "(of_nat n :: rat) < 1024 ^ 3" by simp
  moreover have "length UNITS = 4" by (simp add: UNITS_def)
  ultimately show ?thesis
    using n loop [of "of_nat n"] by (auto simp: humanized_size_def humanized_size_impl_def as_f32_def split: prod.splits)
qed

lemma user_heap_fits: "range_fits USER_HEAP_START USER_HEAP_PAGE"
  by (simp add: range_fits_def USER_HEAP_START_def USER_HEAP_PAGE_def USER_HEAP_SIZE_def PAGE_SIZE_def canonical_def align_down_def)

text \<open>\<^verbatim>\<open>init_user_heap\<close> always returns \<^verbatim>\<open>Ok\<close> and hands the whole megabyte to the allocator. When the mapping
  succeeded, each of its 256 pages has a fresh frame of its own; but the result of the mapping is dropped, so that
  with no free frame the allocator gets memory of which no page is mapped.\<close>

theorem user_heap_init_ignores_mapping:
  assumes "paging (env_x E) (env_f E) free pool_inv" and "pool_inv (mc_alloc mc)"
  shows "\<exists>r m a. init_user_heap E heap_init mc h =
      Inr (Inr (), mc\<lparr>mc_tables := m, mc_alloc := a\<rparr>, heap_init USER_HEAP_START USER_HEAP_SIZE h) \<and>
    user_map_range (env_x E) (env_f E) (cr3_addr (mc_cr3 mc)) USER_HEAP_START USER_HEAP_PAGE (mc_tables mc) (mc_alloc mc) = Inr (r, m, a) \<and>
    (\<forall>rng. r = Inr rng \<longrightarrow>
      (\<exists>fs. length fs = 256 \<and> distinct fs \<and> set fs \<subseteq> free (mc_alloc mc) - free a \<and>
        translate_page (env_x E) m (cr3_addr (mc_cr3 mc)) =
          (translate_page (env_x E) (mc_tables mc) (cr3_addr (mc_cr3 mc)))(range_pages USER_HEAP_START USER_HEAP_PAGE [\<mapsto>] fs))) \<and>
    (free (mc_alloc mc) = {} \<longrightarrow> r = Inl FrameAllocationFailed \<and> m = mc_tables mc)"
proof -
  let ?r = "cr3_addr (mc_cr3 mc)"
  have ad: "x86_addresses (env_x E)" using assms(1) by (simp add: paging_def x86_mapper_def)
  have va: "va_new (env_x E) USER_HEAP_START = Some USER_HEAP_START" "va_add (env_x E) USER_HEAP_START USER_HEAP_SIZE = Some (USER_HEAP_START + USER_HEAP_SIZE)"
    using x86_addresses.va_new_ok [OF ad, of USER_HEAP_START] x86_addresses.va_add_ok [OF ad, of USER_HEAP_START USER_HEAP_SIZE]
    by (simp_all add: USER_HEAP_START_def USER_HEAP_SIZE_def canonical_def)
  obtain r m a where run: "user_map_range (env_x E) (env_f E) ?r USER_HEAP_START USER_HEAP_PAGE (mc_tables mc) (mc_alloc mc) = Inr (r, m, a)"
    using paging.map_range_pages [OF assms(1) user_heap_fits, of ?r user_map_range_flags "mc_tables mc" "mc_alloc mc"]
    unfolding user_map_range_def
    by (cases "map_pages (env_x E) (env_f E) ?r user_map_range_flags (range_pages USER_HEAP_START USER_HEAP_PAGE) (mc_tables mc) (mc_alloc mc)")
      (auto split: sum.splits)
  obtain v where "humanized_size USER_HEAP_SIZE = Inr v" using small_size [of "2 ^ 20" USER_HEAP_SIZE] by (auto simp: USER_HEAP_SIZE_def)
  then have "init_user_heap E heap_init mc h = Inr (Inr (), mc\<lparr>mc_tables := m, mc_alloc := a\<rparr>, heap_init USER_HEAP_START USER_HEAP_SIZE h)"
    unfolding init_user_heap_def by (simp add: va run)
  moreover have "\<exists>fs. length fs = 256 \<and> distinct fs \<and> set fs \<subseteq> free (mc_alloc mc) - free a \<and>
        translate_page (env_x E) m ?r = (translate_page (env_x E) (mc_tables mc) ?r)(range_pages USER_HEAP_START USER_HEAP_PAGE [\<mapsto>] fs)"
    if "r = Inr rng" for rng
  proof -
    have "unat USER_HEAP_PAGE = 256" by (simp add: USER_HEAP_PAGE_def USER_HEAP_SIZE_def PAGE_SIZE_def)
    then show ?thesis
      using paging.map_range_ok [OF assms(1) user_heap_fits assms(2), of ?r user_map_range_flags "mc_tables mc" rng m a] run that
      unfolding user_map_range_def by auto
  qed
  moreover have "r = Inl FrameAllocationFailed \<and> m = mc_tables mc" if "free (mc_alloc mc) = {}"
  proof -
    have pool: "frame_pool (env_f E) free pool_inv" using assms(1) by (simp add: paging_def)
    obtain o' a' where o: "allocate_frame (env_f E) (mc_alloc mc) = (o', a')" by fastforce
    then have "o' = None" using frame_pool.alloc_some [OF pool assms(2)] that by (cases o') auto
    moreover have "range_pages USER_HEAP_START USER_HEAP_PAGE \<noteq> []"
      by (simp add: range_pages_def pages_from_def USER_HEAP_PAGE_def USER_HEAP_SIZE_def PAGE_SIZE_def)
    ultimately show ?thesis
      using run paging.map_range_pages [OF assms(1) user_heap_fits, of ?r user_map_range_flags "mc_tables mc" "mc_alloc mc"] o
      unfolding user_map_range_def by (cases "range_pages USER_HEAP_START USER_HEAP_PAGE") auto
  qed
  ultimately show ?thesis using run by blast
qed

theorem user_heap_init_ignores_mapping_witness:
  "let mc = (wit_machine (\<lambda>_ _. None))\<lparr>mc_alloc := \<lparr>fa_size = 0, fa_used = 0, fa_frames = [], fa_recycled = []\<rparr>\<rparr>
   in \<exists>m a. init_user_heap wit_env (\<lambda>start size h. (start, size)) mc (0, 0) =
        Inr (Inr (), mc\<lparr>mc_tables := m, mc_alloc := a\<rparr>, USER_HEAP_START, USER_HEAP_SIZE) \<and> m = mc_tables mc"
proof -
  let ?mc = "(wit_machine (\<lambda>_ _. None))\<lparr>mc_alloc := \<lparr>fa_size = 0, fa_used = 0, fa_frames = [], fa_recycled = []\<rparr>\<rparr>"
  have "bi_inv (mc_alloc ?mc)" "bi_free (mc_alloc ?mc) = {}" by (simp_all add: bi_inv_def bi_free_def)
  then show ?thesis
    using user_heap_init_ignores_mapping [OF wit_paging, of ?mc "\<lambda>start size h. (start, size)" "(0, 0)"] unfolding Let_def by auto
qed

section \<open>From start to shell\<close>

lemma ysos_init_result:
  assumes "ysos_init E heap_init sbus abus banner has_apic boot_info sd ad k h = Some (Inr (idt, sd', ad', k', h'))"
  shows "idt = IDT \<and> (\<exists>mc. k' = (proc_init (E\<lparr>env_off := bi_physical_memory_offset boot_info\<rparr>) (bi_kernel_pages boot_info)
    (bi_loaded_apps boot_info) k)\<lparr>k_machine := mc\<rparr>)"
  using assms
  by (auto simp: ysos_init_def interrupt_init_def Let_def lift_def obind_eq_Some_Inr_iff split: option.splits prod.splits if_splits)

lemma boot_kernel:
  "k_ready (proc_init E pages apps (boot_state Q mc)) = []" "k_counter (proc_init E pages apps (boot_state Q mc)) = 2"
  "get_pid (k_cpu (proc_init E pages apps (boot_state Q mc))) = Inr KERNEL_PID"
  by (simp_all add: proc_init_def manager_init_def boot_state_def Process_new_def ProcessId_new_def COUNTER_init_def Let_def
      get_pid_eq_Inr Processor_set_pid_def KERNEL_PID_def split: prod.splits)

lemma kernel_wait_ends: "kernel_wait init ks \<noteq> None \<longleftrightarrow> (\<exists>k \<in> set ks. \<not> still_alive init k)"
  by (induction ks) auto

lemma spawn_init_result:
  assumes "spawn_init E k = Inr (pid, k')"
  obtains elf parent where "manager_spawn E elf ''sh'' parent None k = Inr (pid, k')"
  using assms by (auto simp: spawn_init_def spawn_def elf_spawn_def rbind_eq_Inr_iff expect_eq_Inr_iff split: option.splits prod.splits)

text \<open>C33. The start of the system. When \<^verbatim>\<open>kernel_main\<close> comes to its wait, the interrupt table is loaded, the shell is
  process 2 and the only ready process, the kernel process is running, and the kernel invariant holds; the first
  timer interrupt switches to the shell and keeps the kernel process ready. The wait ends exactly when the kernel
  process finds the shell dead. The start itself is taken as one piece: \<^verbatim>\<open>init\<close> enables interrupts before it returns,
  and an interrupt that arrives between there and the wait is not modelled here.\<close>

theorem kernel_main_starts_shell:
  assumes "kernel_main E heap_init sbus abus banner has_apic boot_info sd ad (boot_state Q mc) h = Some (Inr (pid, idt, k, h'))"
  shows "idt = IDT \<and> pid = ProcessId 2 \<and> kernel_inv k \<and> cur_pid k = KERNEL_PID \<and> k_ready k = [pid] \<and> still_alive pid k \<and>
    (\<exists>c' k'. switch c k = Some (Inr (c', k')) \<and> kernel_inv k' \<and> cur_pid k' = pid \<and> k_ready k' = [KERNEL_PID]) \<and>
    (kernel_wait pid ks \<noteq> None \<longleftrightarrow> (\<exists>k \<in> set ks. \<not> still_alive pid k))"
proof -
  let ?E = "E\<lparr>env_off := bi_physical_memory_offset boot_info\<rparr>"
  from assms obtain sd' ad' k0 where init: "ysos_init E heap_init sbus abus banner has_apic boot_info sd ad (boot_state Q mc) h = Some (Inr (idt, sd', ad', k0, h'))"
    and sh: "spawn_init ?E k0 = Inr (pid, k)"
    by (auto simp: kernel_main_def obind_eq_Some_Inr_iff lift_def rbind_eq_Inr_iff)
  obtain mc' where k0: "idt = IDT" "k0 = (proc_init ?E (bi_kernel_pages boot_info) (bi_loaded_apps boot_info) (boot_state Q mc))\<lparr>k_machine := mc'\<rparr>"
    using ysos_init_result [OF init] by auto
  have inv0: "kernel_inv k0" unfolding k0 kernel_inv_machine by (rule init_inv)
  have b: "k_ready k0 = []" "k_counter k0 = 2" "cur_pid k0 = KERNEL_PID"
    using boot_kernel [of ?E "bi_kernel_pages boot_info" "bi_loaded_apps boot_info" Q mc] unfolding k0
    by (auto simp: get_pid_eq_Inr cur_pid_def)
  obtain elf parent where sp: "manager_spawn ?E elf ''sh'' parent None k0 = Inr (pid, k)" by (rule spawn_init_result [OF sh])
  have inv: "kernel_inv k"
    by (rule kernel_step_inv [OF kernel_step.Sys_spawn inv0]) (use sh b(2) in \<open>auto simp: spawn_init_def\<close>)
  obtain p mc2 where p: "pid = ProcessId (k_counter k0)" "pi_status p = Ready" "proc_ok p"
    and k: "k = push_ready pid (put_proc pid p
      (k0\<lparr>k_counter := k_counter k0 + 1, k_shared := snd (ProcessData_default (k_shared k0)), k_machine := mc2\<rparr>))"
    by (rule manager_spawn_result [OF sp])
  have r: "pid = ProcessId 2" "k_ready k = [pid]" "cur_pid k = KERNEL_PID" using p(1) b by (simp_all add: k cur_pid_def)
  have "still_alive pid k" using p(2) by (simp add: k still_alive_def get_proc_def is_dead_def)
  moreover obtain c' k' where "switch c k = Some (Inr (c', k'))" "procs_ok k'" "sched_of k' = dispatch (enqueue (cur_pid k) (sched_of k))"
    by (rule switch_refines [OF inv])
  moreover have "kernel_inv k'" by (rule kernel_step_inv [OF kernel_step.Timer inv]) fact
  moreover have "cur_pid k' = pid \<and> k_ready k' = [KERNEL_PID]"
    using arg_cong [where f = sc_cur, OF calculation(4)] arg_cong [where f = sc_ready, OF calculation(4)] r
    by (simp add: dispatch_def enqueue_def)
  ultimately show ?thesis using k0(1) r inv kernel_wait_ends by blast
qed

text \<open>A concrete start: a working serial port and interrupt controllers, eight frames of memory, and a shell without
  segments.\<close>

abbreviation wit_boot :: BootInfo where
  "wit_boot \<equiv> \<lparr>bi_memory_map = [\<lparr>mem_ty = CONVENTIONAL, phys_start = 0x1000, page_count = 8\<rparr>], bi_physical_memory_offset = 0,
     bi_loaded_apps = Some [\<lparr>app_name = ''sh'', app_elf = \<lparr>elf_byte = (\<lambda>_. 0), elf_len = 0, elf_headers = [], elf_entry = 0x1111000000\<rparr>\<rparr>], bi_kernel_pages = []\<rparr>"

abbreviation wit_uart :: uart_model where
  "wit_uart \<equiv> \<lparr>um_cfg = \<lparr>ier = 0, lcr = 0, mcr = 0, divisor_low = 0, divisor_high = 0, last_byte = 0\<rparr>, um_sent = [], um_received = []\<rparr>"

abbreviation wit_start :: "(ProcessId \<times> idt \<times> (ref_tables, BootInfoFrameAllocator, nat \<times> DecodedKey list) kernel \<times> (u64 \<times> u64)) res option" where
  "wit_start \<equiv> kernel_main wit_env (\<lambda>start size h. (start, size)) uart_device apic_model [] (Some False) wit_boot wit_uart
     (\<lambda>_. 0, 0, \<lambda>_. 0) (boot_state ref_queue (wit_machine (\<lambda>r p. if p = USER_HEAP_START then Some 0 else None))) (0, 0)"

lemma wit_frames: "memory_frames kx86 (bi_memory_map wit_boot) = \<lparr>fa_size = 8, fa_used = 0,
    fa_frames = [0x1000, 0x2000, 0x3000, 0x4000, 0x5000, 0x6000, 0x7000, 0x8000], fa_recycled = []\<rparr>"
  by (simp add: memory_frames_def BootInfoFrameAllocator_init_def create_frame_iter_def region_addresses_def x86_ref_def align_down_def upt_rec)

abbreviation wit_taken :: ref_tables where
  "wit_taken \<equiv> \<lambda>r p. if p = USER_HEAP_START then Some 0 else None"

lemma wit_user_map:
  "user_map_range kx86 boot_info_alloc r USER_HEAP_START USER_HEAP_PAGE wit_taken (memory_frames kx86 (bi_memory_map wit_boot)) =
     Inr (Inl PageAlreadyMapped, wit_taken, \<lparr>fa_size = 8, fa_used = 1,
       fa_frames = [0x2000, 0x3000, 0x4000, 0x5000, 0x6000, 0x7000, 0x8000], fa_recycled = []\<rparr>)"
proof -
  have "unat USER_HEAP_PAGE = 256" by (simp add: USER_HEAP_PAGE_def USER_HEAP_SIZE_def PAGE_SIZE_def)
  then have "\<exists>ps. range_pages USER_HEAP_START USER_HEAP_PAGE = USER_HEAP_START # ps"
    by (simp add: range_pages_def pages_from_def upt_conv_Cons USER_HEAP_START_def align_down_def)
  then show ?thesis
    using paging.map_range_pages [OF wit_paging user_heap_fits, of r user_map_range_flags wit_taken "memory_frames kx86 (bi_memory_map wit_boot)"]
    unfolding user_map_range_def wit_frames
    by (auto simp: boot_info_alloc_def bi_allocate_frame_def x86_ref_def)
qed

lemma wit_memory_init:
  assumes "mc_tables mc = wit_taken"
  shows "memory_init wit_env (\<lambda>start size h. (start, size)) (bi_memory_map wit_boot) mc h =
    Inr (mc\<lparr>mc_alloc := \<lparr>fa_size = 8, fa_used = 1, fa_frames = [0x2000, 0x3000, 0x4000, 0x5000, 0x6000, 0x7000, 0x8000], fa_recycled = []\<rparr>\<rparr>,
      USER_HEAP_START, USER_HEAP_SIZE)"
proof -
  obtain v w where v: "humanized_size (8 * PAGE_SIZE) = Inr v" "humanized_size USER_HEAP_SIZE = Inr w"
    using small_size [of 32768 "8 * PAGE_SIZE"] small_size [of "2 ^ 20" USER_HEAP_SIZE] by (auto simp: PAGE_SIZE_def USER_HEAP_SIZE_def)
  have va: "va_new x86_ref USER_HEAP_START = Some USER_HEAP_START" "va_add x86_ref USER_HEAP_START USER_HEAP_SIZE = Some (USER_HEAP_START + USER_HEAP_SIZE)"
    by (simp_all add: x86_ref_def USER_HEAP_START_def USER_HEAP_SIZE_def canonical_def)
  show ?thesis
    using wit_user_map [of "cr3_addr (mc_cr3 mc)"] assms
    by (simp add: memory_init_def user_init_def init_user_heap_def v va)
qed

lemma wit_boot_tables: "mc_tables (k_machine (proc_init wit_env pages apps (boot_state Q (wit_machine m)))) = m"
  by (simp add: proc_init_def boot_state_def PageTableContext_new_def arc_new_def ProcessVm_new_def Let_def Process_new_def
      ProcessId_new_def manager_init_def split: prod.splits)

lemma wit_start_runs: "\<exists>pid idt k h. wit_start = Some (Inr (pid, idt, k, h))"
proof -
  obtain sp sd where sd: "serial_init uart_device [] wit_uart = Some (sp, sd)"
    by (cases "SerialPort_init uart_device (SerialPort_new SERIAL_IO_PORT) wit_uart") (simp add: serial_init_def)
  let ?k = "proc_init wit_env [] (bi_loaded_apps wit_boot) (boot_state ref_queue (wit_machine wit_taken))"
  let ?mc = "(k_machine ?k)\<lparr>mc_alloc := \<lparr>fa_size = 8, fa_used = 1, fa_frames = [0x2000, 0x3000, 0x4000, 0x5000, 0x6000, 0x7000, 0x8000], fa_recycled = []\<rparr>\<rparr>"
  have "ysos_init wit_env (\<lambda>start size h. (start, size)) uart_device apic_model [] (Some False) wit_boot wit_uart
      (\<lambda>_. 0, 0, \<lambda>_. 0) (boot_state ref_queue (wit_machine wit_taken)) (0, 0) =
    Some (Inr (IDT, sd, (\<lambda>_. 0, 0, \<lambda>_. 0), ?k\<lparr>k_machine := ?mc\<rparr>, (USER_HEAP_START, USER_HEAP_SIZE)))"
    using wit_memory_init [of "k_machine ?k" "(0, 0)"] wit_boot_tables [of "[]" "bi_loaded_apps wit_boot" ref_queue wit_taken]
    by (simp add: ysos_init_def sd interrupt_init_def XApic_support_def lift_def Let_def)
  moreover have "\<exists>pid k. spawn_init wit_env (?k\<lparr>k_machine := ?mc\<rparr>) = Inr (pid, k)"
    by (simp add: spawn_init_def spawn_def elf_spawn_def current_def get_proc_def get_pid_eq_Inr manager_spawn_def clone_page_table_def clone_level_4_def
        boot_info_alloc_def bi_allocate_frame_def vm_of_def
        proc_init_def boot_state_def PageTableContext_new_def arc_new_def ProcessVm_new_def Let_def Process_new_def ProcessId_new_def manager_init_def
        Processor_set_pid_def Processor_get_pid_def get_pid_def resume_def ProcessData_new_def ProcessData_default_def init_kernel_vm_def Heap_empty_def Stack_empty_def
        COUNTER_init_def KERNEL_PID_def ProcessInner_load_elf_def ProcessVm_load_elf_def load_elf_code_def load_elf_def alloc_init_stack_def init_proc_stack_def Stack_new_def
        Stack_init_def pt_addr_def x86_ref_def stack_consts map_range_def map_range_with_def canonical_def align_down_def pages_from_def upt_rec USER_HEAP_START_def
        split: prod.splits)
  ultimately show ?thesis by (auto simp: kernel_main_def lift_def)
qed

theorem kernel_main_starts_shell_witness:
  "\<exists>idt k h. wit_start = Some (Inr (ProcessId 2, idt, k, h)) \<and> kernel_inv k \<and> k_ready k = [ProcessId 2]"
proof -
  obtain pid idt k h where run: "wit_start = Some (Inr (pid, idt, k, h))" using wit_start_runs by blast
  from kernel_main_starts_shell [OF run] run show ?thesis by blast
qed

section \<open>A user process gets its heap\<close>

lemma brk_path:
  assumes cur: "current k = Inr (pid, p)" and vm: "pi_vm p = Some vm"
    and a: "a = (case addr of None \<Rightarrow> 0 | Some e \<Rightarrow> e)" "addr \<noteq> Some 0" "addr \<noteq> None \<Longrightarrow> va_new (env_x E) a = Some a"
    and run: "Heap_brk (env_x E) (env_f E) (pt_addr (vm_page_table vm) (k_machine k)) (k_cpu k) (vm_heap vm) addr
      (mc_cells (k_machine k)) (mc_tables (k_machine k)) (mc_alloc (k_machine k)) = Inr (r, c', m', a')"
  shows "lib_sys_brk E Q S addr context k h =
    Some (Inr (lib_brk_ret (case r of Some e \<Rightarrow> e | None \<Rightarrow> NOT 0), set_rax (case r of Some e \<Rightarrow> e | None \<Rightarrow> NOT 0) (lib_brk_call addr context),
      k\<lparr>k_machine := (k_machine k)\<lparr>mc_cells := c', mc_tables := m', mc_alloc := a'\<rparr>\<rparr>, h))"
  using assms
  by (cases addr; cases r)
    (simp_all add: lib_sys_brk_def dispatcher_def lib_brk_call_def Let_def syscall1_def Syscall_from_def SyscallArgs_new_def ret_of_def
      set_rax_def with_heap_def give_def sys_brk_def brk_def ProcessInner_brk_def vm_of_def ProcessVm_brk_def lift_def)

lemma brk_heap_end: "heap_end_ok (HEAP_START + BRK_HEAP_SIZE)" "HEAP_START < HEAP_START + BRK_HEAP_SIZE"
    "heap_pages (HEAP_START + BRK_HEAP_SIZE) = 2" "lib_brk_ret HEAP_START = Some HEAP_START"
    "lib_brk_ret (HEAP_START + BRK_HEAP_SIZE) = Some (HEAP_START + BRK_HEAP_SIZE)" "HEAP_START + BRK_HEAP_SIZE \<noteq> 0" "lib_brk_ret (NOT 0) = None"
    "canonical (HEAP_START + BRK_HEAP_SIZE)"
  by (simp_all add: heap_end_ok_def heap_consts BRK_HEAP_SIZE_def heap_pages_def lib_brk_ret_def BRK_FAILED_def canonical_def)

text \<open>C34. The heap of a user process, through all layers: the library asks the kernel by system call where the heap
  ends and then for 8184 bytes more. In a process whose heap is still empty, with eight free frames left (two
  pages, and three new page tables for each) and no huge page mapped at the heap's base, the allocator gets exactly
  the range that starts at the heap's base, the kernel has recorded its end, and its two pages are mapped, each to a
  frame of its own. Otherwise this may fail: then it is the library that panics, with its own message, and not the
  kernel.\<close>

theorem user_allocator_init:
  assumes "paging_total (env_x E) (env_f E) free pool_inv huge" and "pool_inv (mc_alloc (k_machine k))" and "\<forall>f \<in> free (mc_alloc (k_machine k)). is_page f"
    and "current k = Inr (pid, p)" and "pi_vm p = Some vm" and "get_pid (k_cpu k) = Inr pid"
    and "heap_inv (env_x E) free (pt_addr (vm_page_table vm) (k_machine k)) (vm_heap vm) (mc_cells (k_machine k)) (mc_tables (k_machine k)) (mc_alloc (k_machine k))"
    and "cell_val (mc_cells (k_machine k)) (hp_end (vm_heap vm)) = HEAP_START"
  shows "allocator_init E Q S context k h = Some (Inl (Expect_failed ''Failed to allocate heap'')) \<and>
      heap_blocked free huge (pt_addr (vm_page_table vm) (k_machine k)) HEAP_START (HEAP_START + BRK_HEAP_SIZE)
        (mc_tables (k_machine k)) (mc_alloc (k_machine k)) \<or>
    (\<exists>mc. allocator_init E Q S context k h = Some (Inr ((HEAP_START, BRK_HEAP_SIZE), k\<lparr>k_machine := mc\<rparr>)) \<and>
      cell_val (mc_cells mc) (hp_end (vm_heap vm)) = HEAP_START + BRK_HEAP_SIZE \<and>
      pt_addr (vm_page_table vm) mc = pt_addr (vm_page_table vm) (k_machine k) \<and>
      backed (env_x E) free (pt_addr (vm_page_table vm) mc) (pages_from HEAP_START 2) (mc_tables mc) (mc_alloc mc))"
proof -
  let ?mc = "k_machine k" and ?e = "HEAP_START + BRK_HEAP_SIZE"
  let ?brk = "\<lambda>addr. Heap_brk (env_x E) (env_f E) (pt_addr (vm_page_table vm) ?mc) (k_cpu k) (vm_heap vm) addr (mc_cells ?mc) (mc_tables ?mc) (mc_alloc ?mc)"
  have pg: "paging (env_x E) (env_f E) free pool_inv" using assms(1) by (simp add: paging_total_def)
  have ad: "x86_addresses (env_x E)" using pg by (simp add: paging_def x86_mapper_def)
  have "canonical HEAP_START" by (simp add: canonical_def heap_consts)
  then have q: "?brk None = Inr (Some HEAP_START, mc_cells ?mc, mc_tables ?mc, mc_alloc ?mc)"
    using x86_addresses.va_new_ok [OF ad] assms(8) by (simp add: Heap_brk_def)
  have "k\<lparr>k_machine := ?mc\<lparr>mc_cells := mc_cells ?mc, mc_tables := mc_tables ?mc, mc_alloc := mc_alloc ?mc\<rparr>\<rparr> = k" by simp
  then obtain c where first: "lib_sys_brk E Q S None context k h = Some (Inr (Some HEAP_START, c, k, h))"
    using brk_path [OF assms(4,5) _ _ _ q, of 0 Q S "context" h] brk_heap_end(4) by simp
  obtain r c' m' a' where g: "?brk (Some ?e) = Inr (r, c', m', a')"
    "r = None \<or> r = Some ?e \<and> heap_inv (env_x E) free (pt_addr (vm_page_table vm) ?mc) (vm_heap vm) c' m' a' \<and>
      cell_val c' = (cell_val (mc_cells ?mc))(hp_end (vm_heap vm) := ?e)"
    using paging.brk_grows [OF pg assms(2,3,7,6) brk_heap_end(1)] brk_heap_end(2) assms(8) by auto
  let ?k = "k\<lparr>k_machine := ?mc\<lparr>mc_cells := c', mc_tables := m', mc_alloc := a'\<rparr>\<rparr>"
  have "va_new (env_x E) ?e = Some ?e" by (rule x86_addresses.va_new_ok [OF ad brk_heap_end(8)])
  then obtain c2 where second: "lib_sys_brk E Q S (Some ?e) c k h = Some (Inr (lib_brk_ret (case r of Some e \<Rightarrow> e | None \<Rightarrow> NOT 0), c2, ?k, h))"
    using brk_path [OF assms(4,5) _ _ _ g(1), of ?e Q S c h] brk_heap_end(6) by simp
  show ?thesis
  proof (cases r)
    case None
    then have "allocator_init E Q S context k h = Some (Inl (Expect_failed ''Failed to allocate heap''))"
      using first second brk_heap_end(7) by (simp add: allocator_init_def lift_def Let_def expect_def)
    moreover have "heap_blocked free huge (pt_addr (vm_page_table vm) ?mc) HEAP_START ?e (mc_tables ?mc) (mc_alloc ?mc)"
      using paging_total.brk_grow_succeeds [OF assms(1,2,7,6) brk_heap_end(1)] brk_heap_end(2) assms(8) g(1) None by auto
    ultimately show ?thesis by blast
  next
    case (Some e)
    then have "allocator_init E Q S context k h = Some (Inr ((HEAP_START, BRK_HEAP_SIZE), ?k))"
      using first second g(2) brk_heap_end(5) by (simp add: allocator_init_def lift_def Let_def expect_def)
    moreover have "pt_addr (vm_page_table vm) (k_machine ?k) = pt_addr (vm_page_table vm) ?mc" by (simp add: pt_addr_def)
    moreover have "backed (env_x E) free (pt_addr (vm_page_table vm) ?mc) (pages_from HEAP_START 2) m' a'"
      using g(2) Some brk_heap_end(3) by (auto simp: heap_inv_def)
    ultimately show ?thesis using g(2) Some by (intro disjI2 exI [of _ "k_machine ?k"]) simp
  qed
qed

abbreviation wit_user :: "(ref_tables, BootInfoFrameAllocator, nat \<times> DecodedKey list) kernel" where
  "wit_user \<equiv> (boot_state ref_queue ((wit_machine (\<lambda>_ _. None))\<lparr>mc_alloc := wit_alloc8\<rparr>))\<lparr>k_cpu := Processor 2,
     k_procs := [ProcessId 2 \<mapsto> (wit_proc Running)\<lparr>pi_vm := Some wit_vm\<rparr>]\<rparr>"

theorem user_allocator_init_witness:
  "\<exists>mc. allocator_init wit_env ref_queue wit_services ProcessContext_default wit_user () =
      Some (Inr ((HEAP_START, BRK_HEAP_SIZE), wit_user\<lparr>k_machine := mc\<rparr>)) \<and>
    backed kx86 bi_free 0 (pages_from HEAP_START 2) (mc_tables mc) (mc_alloc mc)"
proof -
  let ?p = "(wit_proc Running)\<lparr>pi_vm := Some wit_vm\<rparr>"
  have tot: "paging_total (env_x wit_env) (env_f wit_env) bi_free bi_inv no_huge"
    using kpaging_total.paging_total_axioms by simp
  have "get_pid (Processor 2) = Inr (ProcessId 2)" by (simp add: get_pid_eq_Inr)
  then have cur: "current wit_user = Inr (ProcessId 2, ?p)" "get_pid (k_cpu wit_user) = Inr (ProcessId 2)"
    by (simp_all add: current_def get_proc_def)
  have inv: "bi_inv (mc_alloc (k_machine wit_user))" "\<forall>f \<in> bi_free (mc_alloc (k_machine wit_user)). is_page f"
    using wit_alloc8_ok(1,2) by (simp_all add: boot_state_def)
  have hp: "heap_inv (env_x wit_env) bi_free (pt_addr (vm_page_table wit_vm) (k_machine wit_user)) (vm_heap wit_vm) (mc_cells (k_machine wit_user))
      (mc_tables (k_machine wit_user)) (mc_alloc (k_machine wit_user))"
    using wit_heap_empty by (simp add: boot_state_def pt_addr_def)
  have st: "cell_val (mc_cells (k_machine wit_user)) (hp_end (vm_heap wit_vm)) = HEAP_START" by (simp add: boot_state_def)
  have "\<not> heap_blocked bi_free no_huge (pt_addr (vm_page_table wit_vm) (k_machine wit_user)) HEAP_START (HEAP_START + BRK_HEAP_SIZE)
      (mc_tables (k_machine wit_user)) (mc_alloc (k_machine wit_user))"
    using wit_alloc8_ok(3) brk_heap_end(3) wit_heap_one(5) by (simp add: heap_blocked_def boot_state_def)
  with user_allocator_init [OF tot inv cur(1) _ cur(2) hp st, of ref_queue wit_services ProcessContext_default "()"]
  show ?thesis by (auto simp: pt_addr_def boot_state_def)
qed

end
