(* ===== verification/Loader.thy ===== *)
theory Loader
  imports Startup
begin

text \<open>
  The boot loader as a program: opening and loading of files (\<^verbatim>\<open>boot/src/fs.rs\<close>), the frame allocator over the
  firmware (\<^verbatim>\<open>boot/src/allocator.rs\<close>), \<^verbatim>\<open>efi_main\<close> (\<^verbatim>\<open>boot/src/main.rs\<close>) and the jump to the kernel
  (\<^verbatim>\<open>boot/src/lib.rs\<close>). The firmware services and the ELF parser are the parameter \<open>firmware\<close>; what they do is not
  constrained. The write protection in \<^verbatim>\<open>Cr0\<close> is not part of the model of the page tables.
\<close>

section \<open>Firmware\<close>

text \<open>A path leads to a regular file, with its handle of type \<open>'f\<close>, or to something else. An entry of the directory of
  applications is a name with the result of opening it: whether it is a directory, if that can be told, and its handle
  as a regular file; reading an entry may also fail. \<open>'p\<close> is the firmware's page allocator.\<close>

datatype 'f node = Regular 'f | Other_file

record 'f app_entry =
  ae_name :: "rchar list"
  ae_file :: "(bool option \<times> 'f option) option"

record ('f, 'p) firmware =
  fw_root :: "(rchar list \<Rightarrow> 'f node option) res"
  fw_app_entries :: "'f app_entry option list option"
  fw_file_size :: "'f \<Rightarrow> u64 option"
  fw_read :: "'f \<Rightarrow> u64 \<Rightarrow> u8 list option"
  fw_allocate_pages :: "u64 \<Rightarrow> 'p \<Rightarrow> (u64 \<times> 'p) option"
  fw_free_pages :: "u64 \<Rightarrow> u64 \<Rightarrow> 'p \<Rightarrow> 'p option"
  fw_elf :: "u8 list \<Rightarrow> ElfFile option"
  fw_memory_map :: "'p \<Rightarrow> MemoryDescriptor list option"
  fw_system_table :: "unit option"
  fw_exit_boot_services :: "'p \<Rightarrow> MemoryDescriptor list"

section \<open>Files\<close>

text \<open>\<^verbatim>\<open>CStr16::from_str_with_buf\<close> with a buffer of 64 units: no zero, no character outside the basic plane, and room for
  the final zero.\<close>

definition cstr16_fits :: "nat \<Rightarrow> rchar list \<Rightarrow> bool" where
  "cstr16_fits n path \<longleftrightarrow> length path < n \<and> (\<forall>c \<in> set path. c \<noteq> 0 \<and> c < 0x10000)"

definition open_file :: "('f, 'p) firmware \<Rightarrow> rchar list \<Rightarrow> 'f res" where
  "open_file fw path =
     (if \<not> cstr16_fits 64 path then Inl Unwrap_failed
      else rbind (fw_root fw) (\<lambda>root.
           rbind (expect (Expect_failed ''Failed to open file'') (root path)) (\<lambda>node.
             case node of Regular f \<Rightarrow> Inr f | Other_file \<Rightarrow> Inl (Panicked ''Invalid file type''))))"

text \<open>The start of the allocated pages and the bytes that were read.\<close>

definition load_file :: "('f, 'p) firmware \<Rightarrow> 'f \<Rightarrow> 'p \<Rightarrow> (u64 \<times> u8 list \<times> 'p) res" where
  "load_file fw file p =
     rbind (expect (Expect_failed ''Failed to get file info'') (fw_file_size fw file)) (\<lambda>file_size.
       let pages = load_file_pages file_size
       in rbind (expect (Expect_failed ''Failed to allocate pages'') (fw_allocate_pages fw pages p)) (\<lambda>(mem_start, p).
          rbind (expect (Expect_failed ''Failed to read file'') (fw_read fw file (pages * 0x1000))) (\<lambda>buf.
            if length buf \<le> unat (pages * 0x1000) then Inr (mem_start, buf, p) else Inl Index_out_of_bounds)))"

definition free_elf :: "('f, 'p) firmware \<Rightarrow> u64 \<Rightarrow> u8 list \<Rightarrow> 'p \<Rightarrow> 'p res" where
  "free_elf fw mem_start buffer p =
     (if mem_start = 0 then Inl (Expect_failed ''Invalid pointer'')
      else expect (Expect_failed ''Failed to free pages'') (fw_free_pages fw mem_start (free_elf_pages (length buffer)) p))"

text \<open>The name of an application as the bytes of its text.\<close>

definition name_string :: "rchar list \<Rightarrow> string" where
  "name_string name = map (\<lambda>b. char_of (unat b)) (concat (map encode_utf8 name))"

fun load_apps_loop :: "('f, 'p) firmware \<Rightarrow> 'f app_entry option list \<Rightarrow> App list \<Rightarrow> 'p \<Rightarrow> (App list \<times> 'p) res" where
  "load_apps_loop fw [] apps p = Inr (apps, p)"
| "load_apps_loop fw (info # infos) apps p =
     rbind (expect (Expect_failed ''Failed to read entry'') info) (\<lambda>entry.
     rbind (expect Unwrap_failed (ae_file entry)) (\<lambda>(is_directory, regular).
       if unwrap_or True is_directory then load_apps_loop fw infos apps p
       else rbind (expect Unwrap_failed regular) (\<lambda>file.
            rbind (load_file fw file p) (\<lambda>(_, buf, p).
            rbind (expect Unwrap_failed (fw_elf fw buf)) (\<lambda>elf.
              if line_len (ae_name entry) > 16 then Inl Unwrap_failed
              else if length apps = MAX_LIST_APP then Inl (Panicked ''ArrayVec: capacity exceeded'')
              else load_apps_loop fw infos (apps @ [\<lparr>app_name = name_string (ae_name entry), app_elf = elf\<rparr>]) p)))))"

definition load_apps :: "('f, 'p) firmware \<Rightarrow> 'p \<Rightarrow> (App list \<times> 'p) res" where
  "load_apps fw p =
     rbind (fw_root fw) (\<lambda>_.
     rbind (expect (Expect_failed ''Failed to open file'') (fw_app_entries fw)) (\<lambda>infos. load_apps_loop fw infos [] p))"

section \<open>The frame allocator\<close>

text \<open>\<^verbatim>\<open>allocate_frame\<close> panics when the firmware has no page or an address above 52 bits. The panic is noted in the state
  and the frame withheld, so that the mapping in progress stops; \<open>check_uefi\<close> raises it where the mapping returns. The
  allocator never takes a frame back.\<close>

record 'p uefi =
  uefi_pages :: 'p
  uefi_panic :: "panic option"

definition UEFIFrameAllocator :: "('f, 'p) firmware \<Rightarrow> 'z addr_ops_scheme \<Rightarrow> 'p uefi frame_allocator" where
  "UEFIFrameAllocator fw X =
     \<lparr>allocate_frame = (\<lambda>u. case fw_allocate_pages fw 1 (uefi_pages u) of
          None \<Rightarrow> (None, u\<lparr>uefi_panic := Some (Expect_failed ''Failed to allocate frame'')\<rparr>)
        | Some (addr, p) \<Rightarrow>
            if unat addr < 2 ^ 52 then (Some (frame_containing X addr), u\<lparr>uefi_pages := p\<rparr>)
            else (None, u\<lparr>uefi_pages := p, uefi_panic := Some Address_panic\<rparr>)),
      deallocate_frame = (\<lambda>_ u. u)\<rparr>"

definition check_uefi :: "'p uefi \<Rightarrow> 'p uefi res" where
  "check_uefi u = (case uefi_panic u of None \<Rightarrow> Inr u | Some e \<Rightarrow> Inl e)"

section \<open>The sequence\<close>

definition CONFIG_PATH :: "rchar list" where
  "CONFIG_PATH = 92 # chars ''EFI'' @ 92 # chars ''BOOT'' @ 92 # chars ''boot.conf''"

definition MEMORY_MAP_CAP :: nat where
  "MEMORY_MAP_CAP = 256"

text \<open>What the kernel finds: the argument, the first instruction, the stack pointer, page tables and memory.\<close>

record ('m, 'p) handover =
  ho_bootinfo :: BootInfo
  ho_entry :: u64
  ho_stack :: u64
  ho_tables :: 'm
  ho_memory :: bytes
  ho_uefi :: "'p uefi"

definition jump_to_entry :: "u64 \<Rightarrow> BootInfo \<Rightarrow> u64 \<Rightarrow> 'm \<Rightarrow> bytes \<Rightarrow> 'p uefi \<Rightarrow> ('m, 'p) handover res" where
  "jump_to_entry ENTRY bootinfo stack m pm u =
     (if ENTRY = 0 then Inl (Panicked ''ENTRY is not set'')
      else Inr \<lparr>ho_bootinfo = bootinfo, ho_entry = ENTRY, ho_stack = stack, ho_tables = m, ho_memory = pm, ho_uefi = u\<rparr>)"

text \<open>The files are loaded first, then the address space is built, then the boot services end. The result of
  \<^verbatim>\<open>load_elf\<close> is not looked at.\<close>

definition load_files :: "('f, 'p) firmware \<Rightarrow> 'p \<Rightarrow> (Config \<times> u64 \<times> u8 list \<times> ElfFile \<times> App list option \<times> 'p) res" where
  "load_files fw p =
     rbind (open_file fw CONFIG_PATH) (\<lambda>file.
     rbind (load_file fw file p) (\<lambda>(_, buf, p).
     rbind (Config_parse buf) (\<lambda>config.
     rbind (open_file fw (kernel_path config)) (\<lambda>file.
     rbind (load_file fw file p) (\<lambda>(mem_start, buf, p).
     rbind (expect Unwrap_failed (fw_elf fw buf)) (\<lambda>elf.
     rbind (if load_apps_flag config then rbind (load_apps fw p) (\<lambda>(apps, p). Inr (Some apps, p)) else Inr (None, p)) (\<lambda>(apps, p).
       Inr (config, mem_start, buf, elf, apps, p))))))))"

definition map_kernel :: "('f, 'p) firmware \<Rightarrow> ('m, 'p uefi) x86_64 \<Rightarrow> ('m, 'p uefi) huge_mapper \<Rightarrow> frame \<Rightarrow> Config \<Rightarrow> ElfFile \<Rightarrow>
    'm \<Rightarrow> 'p \<Rightarrow> bytes \<Rightarrow> ('m \<times> 'p uefi \<times> bytes) res" where
  "map_kernel fw X map_huge r config elf m p pm =
     rbind (expect (Expect_failed ''Failed to get memory map'') (fw_memory_map fw p)) (\<lambda>mmap.
     rbind (max_phys_addr (map (\<lambda>d. (phys_start d, page_count d)) mmap)) (\<lambda>max_addr.
     rbind (map_physical_memory map_huge X (physical_memory_offset config) max_addr m \<lparr>uefi_pages = p, uefi_panic = None\<rparr>) (\<lambda>(m, u).
     rbind (load_elf X (UEFIFrameAllocator fw X) r elf (physical_memory_offset config) False m u pm) (\<lambda>(_, m, u, pm).
     rbind (check_uefi u) (\<lambda>u.
       let (stack_start, stack_size) = kernel_stack_region config
       in rbind (map_range X (UEFIFrameAllocator fw X) r stack_start stack_size False m u) (\<lambda>(res, m, u).
          rbind (check_uefi u) (\<lambda>u.
            case res of
              Inl e \<Rightarrow> Inl (Panicked ''Failed to map kernel stack with error'')
            | Inr _ \<Rightarrow> Inr (m, u, pm))))))))"

definition efi_main :: "('f, 'p) firmware \<Rightarrow> ('m, 'p uefi) x86_64 \<Rightarrow> ('m, 'p uefi) huge_mapper \<Rightarrow> frame \<Rightarrow> 'm \<Rightarrow> 'p \<Rightarrow> bytes \<Rightarrow>
    ('m, 'p) handover res" where
  "efi_main fw X map_huge r m p pm =
     rbind (load_files fw p) (\<lambda>(config, mem_start, buf, elf, apps, p).
     rbind (map_kernel fw X map_huge r config elf m p pm) (\<lambda>(m, u, pm).
     rbind (get_page_usage X elf) (\<lambda>kernel_pages.
     rbind (free_elf fw mem_start buf (uefi_pages u)) (\<lambda>p.
     rbind (expect (Expect_failed ''Failed to get system table'') (fw_system_table fw)) (\<lambda>_.
       let mmap = fw_exit_boot_services fw p
       in if MEMORY_MAP_CAP < length mmap then Inl (Panicked ''ArrayVec: capacity exceeded in extend/from_iter'')
          else jump_to_entry (elf_entry elf)
            \<lparr>bi_memory_map = mmap, bi_physical_memory_offset = physical_memory_offset config, bi_loaded_apps = apps,
             bi_kernel_pages = kernel_pages\<rparr> (stacktop config) m pm (u\<lparr>uefi_pages := p\<rparr>))))))"

section \<open>What the kernel is handed\<close>

lemma length_name_string [simp]: "length (name_string name) = line_len name"
  by (simp add: name_string_def line_len_def)

lemma load_apps_loop_list:
  assumes "load_apps_loop fw infos apps p = Inr (apps', p')" and "length apps \<le> MAX_LIST_APP"
    and "\<forall>a \<in> set apps. length (app_name a) \<le> 16"
  shows "length apps' \<le> MAX_LIST_APP \<and> (\<forall>a \<in> set apps'. length (app_name a) \<le> 16)"
  using assms
proof (induction infos arbitrary: apps p)
  case (Cons info infos)
  from Cons.prems(1) obtain entry is_directory regular where e: "info = Some entry" "ae_file entry = Some (is_directory, regular)"
    by (auto simp: rbind_eq_Inr_iff)
  show ?case
  proof (cases "unwrap_or True is_directory")
    case False
    with Cons.prems(1) e obtain elf p1 where n: "line_len (ae_name entry) \<le> 16" "length apps \<noteq> MAX_LIST_APP"
      "load_apps_loop fw infos (apps @ [\<lparr>app_name = name_string (ae_name entry), app_elf = elf\<rparr>]) p1 = Inr (apps', p')"
      by (auto simp: rbind_eq_Inr_iff split: if_splits)
    show ?thesis using Cons.IH [OF n(3)] n(1,2) Cons.prems(2,3) by auto
  qed (use Cons e in auto)
qed simp

lemma load_apps_list:
  "load_apps fw p = Inr (apps, p') \<Longrightarrow> length apps \<le> MAX_LIST_APP \<and> (\<forall>a \<in> set apps. length (app_name a) \<le> 16)"
  using load_apps_loop_list [of fw _ "[]" p apps p'] by (auto simp: load_apps_def rbind_eq_Inr_iff)

lemma load_files_apps:
  assumes "load_files fw p = Inr (config, mem_start, buf, elf, apps, p')"
  shows "(apps \<noteq> None \<longleftrightarrow> load_apps_flag config) \<and>
    (\<forall>as. apps = Some as \<longrightarrow> length as \<le> MAX_LIST_APP \<and> (\<forall>a \<in> set as. length (app_name a) \<le> 16))"
  using assms load_apps_list by (fastforce simp: load_files_def rbind_eq_Inr_iff split: if_splits)

lemma page_ranges_eq:
  assumes "x86_addresses X" and "page_ranges X hs = Inr rs"
  shows "rs = map (\<lambda>h. (align_down (ph_virtual_addr h), align_down (ph_virtual_addr h + ph_mem_size h - 1))) hs"
  using assms(2)
proof (induction hs arbitrary: rs)
  case (Cons h hs)
  have va: "va_new X v = Some w \<Longrightarrow> w = v" for v w
    using x86_addresses.va_new_ok [OF assms(1), of v] x86_addresses.va_new_panics [OF assms(1), of v] by (cases "canonical v") auto
  show ?case using Cons by (auto simp: get_page_range_def Let_def rbind_eq_Inr_iff x86_addresses.page_containing_eq [OF assms(1)] dest!: va)
qed simp

lemma get_page_usage_eq:
  assumes "x86_addresses X" and "get_page_usage X elf = Inr rs"
  shows "length rs \<le> KERNEL_PAGES_CAP \<and> (\<forall>h \<in> set (elf_headers elf). ph_is_load h = Some True \<longrightarrow>
    (align_down (ph_virtual_addr h), align_down (ph_virtual_addr h + ph_mem_size h - 1)) \<in> set rs)"
proof -
  let ?hs = "filter (\<lambda>h. ph_is_load h = Some True) (elf_headers elf)"
  have "length ?hs \<le> KERNEL_PAGES_CAP" "page_ranges X (take KERNEL_PAGES_CAP ?hs) = Inr rs"
    using assms(2) by (auto simp: get_page_usage_def Let_def rbind_eq_Inr_iff split: if_splits)
  then show ?thesis using page_ranges_eq [OF assms(1), of ?hs rs] by auto
qed

lemma map_pages_translates:
  assumes "x86_mapper X" and "map_pages X F r fl ps m a = (Inr v, m', a')"
  shows "(\<forall>q. translate_page X m r q \<noteq> None \<longrightarrow> translate_page X m' r q \<noteq> None) \<and> (\<forall>q \<in> set ps. translate_page X m' r q \<noteq> None)"
  using assms(2)
proof (induction ps arbitrary: m a)
  case (Cons q ps)
  then obtain f a1 m1 a2 where s: "map_to X F r q f fl m a1 = (Inr (), m1, a2)" "map_pages X F r fl ps m1 a2 = (Inr v, m', a')"
    by (auto split: prod.splits option.splits sum.splits)
  have "translate_page X m1 r = (translate_page X m r)(q \<mapsto> f)" using x86_mapper.map_to_ok [OF assms(1) s(1)] by blast
  then show ?case using Cons.IH [OF s(2)] by (auto split: if_splits)
qed simp

lemma map_range_translates:
  assumes "x86_mapper X" and "range_fits addr cnt" and "map_range X F r addr cnt user m a = Inr (Inr rng, m', a')"
  shows "\<forall>q \<in> set (range_pages addr cnt). translate_page X m' r q \<noteq> None"
proof -
  have ad: "x86_addresses X" using assms(1) by (simp add: x86_mapper_def)
  have "page_range X (align_down addr) (align_down addr + of_nat (unat cnt) * 4096) = range_pages addr cnt"
    unfolding range_pages_def using assms(2) by (intro x86_addresses.page_range_eq [OF ad]) (simp_all add: range_fits_def)
  then obtain v where "map_pages X F r (map_range_flags user) (range_pages addr cnt) m a = (Inr v, m', a')"
    using assms(2,3) x86_addresses.va_new_ok [OF ad] x86_addresses.page_containing_eq [OF ad] x86_addresses.page_add_ok [OF ad]
    by (auto simp: map_range_def map_range_with_def range_fits_def Let_def split: prod.splits sum.splits)
  then show ?thesis using map_pages_translates [OF assms(1)] by blast
qed

lemma map_kernel_stack:
  assumes "x86_mapper X" and "map_kernel fw X map_huge r config elf m p pm = Inr (m', u, pm')"
    and "kernel_stack_region config = (bottom, pages)" and "range_fits bottom pages"
  shows "uefi_panic u = None \<and> (\<forall>q \<in> set (range_pages bottom pages). translate_page X m' r q \<noteq> None)"
proof -
  from assms(2,3) obtain res m1 u1 m2 u2 pm2 u'
    where mr: "map_range X (UEFIFrameAllocator fw X) r bottom pages False m1 u1 = Inr (res, m2, u2)" "check_uefi u2 = Inr u'"
      and res: "(case res of Inl e \<Rightarrow> Inl (Panicked ''Failed to map kernel stack with error'') | Inr _ \<Rightarrow> Inr (m2, u', pm2)) = Inr (m', u, pm')"
    by (auto simp: map_kernel_def rbind_eq_Inr_iff)
  have "u2 = u'" "uefi_panic u2 = None" using mr(2) by (auto simp: check_uefi_def split: option.splits)
  with mr res have "\<exists>rng. map_range X (UEFIFrameAllocator fw X) r bottom pages False m1 u1 = Inr (Inr rng, m', u)" "uefi_panic u = None"
    by (auto split: sum.splits)
  then show ?thesis using map_range_translates [OF assms(1,4)] by blast
qed

text \<open>C32. What the boot loader hands to the kernel. When \<^verbatim>\<open>efi_main\<close> comes to the jump, the kernel starts at the entry point
  of the file that the configuration names, with the stack pointer just below the top of the configured stack, all of
  whose initial pages are mapped; the boot information has at most 256 memory regions, the configured offset, the page
  range of every loadable segment of the kernel, and, exactly when the configuration asks for them, the list of at
  most 16 applications with names of at most 16 bytes. The pages of the kernel file have been given back, as many as
  were allocated when the whole file was read, and the memory map is the firmware's after that.\<close>

theorem efi_main_hands_over:
  assumes "x86_mapper X" and "efi_main fw X map_huge r m p pm = Inr ho"
  shows "\<exists>c mem_start buf elf p1 p2. load_files fw p = Inr (c, mem_start, buf, elf, bi_loaded_apps (ho_bootinfo ho), p1) \<and>
    ho_entry ho = elf_entry elf \<and> ho_entry ho \<noteq> 0 \<and> ho_stack ho = stacktop c \<and>
    bi_physical_memory_offset (ho_bootinfo ho) = physical_memory_offset c \<and>
    (case kernel_stack_region c of (bottom, pages) \<Rightarrow> range_fits bottom pages \<longrightarrow>
      (\<forall>q \<in> set (range_pages bottom pages). translate_page X (ho_tables ho) r q \<noteq> None)) \<and>
    length (bi_memory_map (ho_bootinfo ho)) \<le> 256 \<and> length (bi_kernel_pages (ho_bootinfo ho)) \<le> 8 \<and>
    (\<forall>h \<in> set (elf_headers elf). ph_is_load h = Some True \<longrightarrow>
      (align_down (ph_virtual_addr h), align_down (ph_virtual_addr h + ph_mem_size h - 1)) \<in> set (bi_kernel_pages (ho_bootinfo ho))) \<and>
    (bi_loaded_apps (ho_bootinfo ho) \<noteq> None \<longleftrightarrow> load_apps_flag c) \<and>
    (\<forall>as. bi_loaded_apps (ho_bootinfo ho) = Some as \<longrightarrow> length as \<le> 16 \<and> (\<forall>a \<in> set as. length (app_name a) \<le> 16)) \<and>
    mem_start \<noteq> 0 \<and> fw_free_pages fw mem_start (load_file_pages (of_nat (length buf))) p2 = Some (uefi_pages (ho_uefi ho)) \<and>
    bi_memory_map (ho_bootinfo ho) = fw_exit_boot_services fw (uefi_pages (ho_uefi ho))"
proof -
  from assms(2) obtain c mem_start buf elf apps p1 m' u pm' rs p3
    where fs: "load_files fw p = Inr (c, mem_start, buf, elf, apps, p1)"
      and mk: "map_kernel fw X map_huge r c elf m p1 pm = Inr (m', u, pm')"
      and pu: "get_page_usage X elf = Inr rs"
      and free: "mem_start \<noteq> 0" "fw_free_pages fw mem_start (free_elf_pages (length buf)) (uefi_pages u) = Some p3"
      and cap: "length (fw_exit_boot_services fw p3) \<le> 256"
      and ho: "elf_entry elf \<noteq> 0" "ho = \<lparr>ho_bootinfo = \<lparr>bi_memory_map = fw_exit_boot_services fw p3,
          bi_physical_memory_offset = physical_memory_offset c, bi_loaded_apps = apps, bi_kernel_pages = rs\<rparr>,
        ho_entry = elf_entry elf, ho_stack = stacktop c, ho_tables = m', ho_memory = pm', ho_uefi = u\<lparr>uefi_pages := p3\<rparr>\<rparr>"
    by (auto simp: efi_main_def free_elf_def jump_to_entry_def MEMORY_MAP_CAP_def Let_def rbind_eq_Inr_iff split: if_splits)
  have stk: "case kernel_stack_region c of (bottom, pages) \<Rightarrow> range_fits bottom pages \<longrightarrow>
      (\<forall>q \<in> set (range_pages bottom pages). translate_page X m' r q \<noteq> None)"
    using map_kernel_stack [OF assms(1) mk] by (auto split: prod.splits)
  have "x86_addresses X" using assms(1) by (simp add: x86_mapper_def)
  note pg = get_page_usage_eq [OF this pu] and ap = load_files_apps [OF fs]
  have "free_elf_pages (length buf) = load_file_pages (of_nat (length buf))" by (simp add: free_elf_pages_def load_file_pages_def)
  with fs free cap ho stk pg ap show ?thesis
    by (intro exI [of _ c] exI [of _ mem_start] exI [of _ buf] exI [of _ elf] exI [of _ p1] exI [of _ "uefi_pages u"] conjI)
      (simp_all add: KERNEL_PAGES_CAP_def MAX_LIST_APP_def)
qed

text \<open>The shipped configuration file, a kernel without segments and no applications, on a firmware that allocates pages
  upwards.\<close>

definition wit_firmware :: "(bool, u64) firmware" where
  "wit_firmware =
     \<lparr>fw_root = Inr (\<lambda>path. if path = CONFIG_PATH then Some (Regular False)
                      else if path = 92 # chars ''KERNEL.ELF'' then Some (Regular True) else None),
      fw_app_entries = Some [], fw_file_size = (\<lambda>_. Some 4000),
      fw_read = (\<lambda>f _. Some (if f then [] else boot_conf_file)),
      fw_allocate_pages = (\<lambda>n p. Some (p, p + n * 4096)), fw_free_pages = (\<lambda>_ _ p. Some p),
      fw_elf = (\<lambda>_. Some \<lparr>elf_byte = (\<lambda>_. 0), elf_len = 0, elf_headers = [], elf_entry = 0xFFFFFF0000001000\<rparr>),
      fw_memory_map = (\<lambda>_. Some [\<lparr>mem_ty = CONVENTIONAL, phys_start = 0, page_count = 16\<rparr>]),
      fw_system_table = Some (), fw_exit_boot_services = (\<lambda>_. [\<lparr>mem_ty = CONVENTIONAL, phys_start = 0, page_count = 16\<rparr>])\<rparr>"

abbreviation wit_huge :: "(ref_tables, u64 uefi) huge_mapper" where
  "wit_huge \<equiv> \<lambda>page frame flags m a. (Inr (), m, a)"

lemma wit_huge_maps:
  "\<forall>f \<in> set frames. canonical (f + offset) \<Longrightarrow>
   map_huge_frames wit_huge (x86_ref :: (ref_tables, u64 uefi) x86_64) offset frames m u = Inr (m, u)"
  by (induction frames) (auto simp: ref.va_new_ok)

lemma wit_load_files:
  "\<exists>c buf. load_files wit_firmware 0x1000 =
     Inr (c, 0x2000, buf, \<lparr>elf_byte = (\<lambda>_. 0), elf_len = 0, elf_headers = [], elf_entry = 0xFFFFFF0000001000\<rparr>, Some [], 0x3000) \<and>
     Config_parse boot_conf_file = Inr c"
proof -
  have len: "length boot_conf_file \<le> 4096" by (simp add: boot_conf_lines_def chars_def)
  have path: "cstr16_fits 64 CONFIG_PATH" "cstr16_fits 64 (92 # chars ''KERNEL.ELF'')"
      "CONFIG_PATH \<noteq> 92 # chars ''KERNEL.ELF''"
    by (simp_all add: cstr16_fits_def CONFIG_PATH_def chars_def)
  show ?thesis
    using len path
    by (simp add: load_files_def open_file_def load_file_def load_apps_def wit_firmware_def boot_conf_file_lines
        boot_conf_parsed load_file_pages_def)
qed

lemma wit_map_kernel:
  assumes "Config_parse boot_conf_file = Inr c"
  shows "\<exists>m' u'. map_kernel wit_firmware x86_ref wit_huge 0 c
     \<lparr>elf_byte = (\<lambda>_. 0), elf_len = 0, elf_headers = [], elf_entry = 0xFFFFFF0000001000\<rparr> (\<lambda>_ _. None) 0x3000 pm = Inr (m', u', pm)"
proof -
  have c: "kernel_stack_region c = (0xFFFFFF01FFFF8000, 8)" "physical_memory_offset c = 0xFFFF800000000000"
    using assms unfolding boot_conf_file_lines boot_conf_parsed by (auto simp: kernel_stack_region_def)
  have "map_physical_memory wit_huge (x86_ref :: (ref_tables, u64 uefi) x86_64) 0xFFFF800000000000 0x100000000 m u = Inr (m, u)" for m u
    by (simp add: map_physical_memory_def wit_huge_maps low_frames_canonical)
  moreover have "fw_memory_map wit_firmware p = Some [\<lparr>mem_ty = CONVENTIONAL, phys_start = 0, page_count = 16\<rparr>]" for p
    by (simp add: wit_firmware_def)
  moreover have "max_phys_addr (map (\<lambda>d. (phys_start d, page_count d)) [\<lparr>mem_ty = CONVENTIONAL, phys_start = 0, page_count = 16\<rparr>]) = Inr 0x100000000"
    by (simp add: max_phys_addr_def max_def)
  moreover have "\<exists>rng m' p'. map_range x86_ref (UEFIFrameAllocator wit_firmware (x86_ref :: (ref_tables, u64 uefi) x86_64)) 0
      0xFFFFFF01FFFF8000 8 False (\<lambda>_ _. None) \<lparr>uefi_pages = 0x3000, uefi_panic = None\<rparr> = Inr (Inr rng, m', \<lparr>uefi_pages = p', uefi_panic = None\<rparr>)"
    by (simp add: map_range_def map_range_with_def x86_ref_def canonical_def align_down_def pages_from_def upt_rec
        UEFIFrameAllocator_def wit_firmware_def)
  ultimately show ?thesis
    by (auto simp: map_kernel_def c load_elf_def check_uefi_def)
qed

theorem efi_main_hands_over_witness:
  "\<exists>ho. efi_main wit_firmware x86_ref wit_huge 0 (\<lambda>_ _. None) 0x1000 (\<lambda>_. 0) = Inr ho \<and>
     ho_entry ho = 0xFFFFFF0000001000 \<and> ho_stack ho = 0xFFFFFF01FFFFFFF8 \<and>
     (\<forall>q \<in> set (range_pages 0xFFFFFF01FFFF8000 8). translate_page (x86_ref :: (ref_tables, u64 uefi) x86_64) (ho_tables ho) 0 q \<noteq> None)"
proof -
  obtain c buf where f: "load_files wit_firmware 0x1000 =
      Inr (c, 0x2000, buf, \<lparr>elf_byte = (\<lambda>_. 0), elf_len = 0, elf_headers = [], elf_entry = 0xFFFFFF0000001000\<rparr>, Some [], 0x3000)"
      and c: "Config_parse boot_conf_file = Inr c"
    using wit_load_files by blast
  obtain m' u' where "map_kernel wit_firmware x86_ref wit_huge 0 c
      \<lparr>elf_byte = (\<lambda>_. 0), elf_len = 0, elf_headers = [], elf_entry = 0xFFFFFF0000001000\<rparr> (\<lambda>_ _. None) 0x3000 (\<lambda>_. 0) = Inr (m', u', \<lambda>_. 0)"
    using wit_map_kernel [OF c] by blast
  with f obtain ho where run: "efi_main wit_firmware x86_ref wit_huge 0 (\<lambda>_ _. None) 0x1000 (\<lambda>_. 0) = Inr ho"
    by (simp add: efi_main_def get_page_usage_def free_elf_def jump_to_entry_def wit_firmware_def MEMORY_MAP_CAP_def)
  have region: "kernel_stack_region c = (0xFFFFFF01FFFF8000, 8)" "stacktop c = 0xFFFFFF01FFFFFFF8"
    using c unfolding boot_conf_file_lines boot_conf_parsed by (auto simp: kernel_stack_region_def stacktop_def)
  have "range_fits 0xFFFFFF01FFFF8000 8" by (simp add: range_fits_def canonical_def align_down_def)
  with efi_main_hands_over [OF ref.x86_mapper_axioms run] f region run show ?thesis by auto
qed

end
