(* ===== verification/Storage.thy ===== *)
theory Storage
  imports Boot
begin

text \<open>
  The storage library of laboratory 0x06 (\<^verbatim>\<open>0x06/pkg/storage\<close>): errors, blocks and block devices, the field accessors
  of on-disk structures, the partition table, mount points and the structures of the FAT16 file system. The
  directory is a course template: parts of it are left open by a \<^verbatim>\<open>FIXME\<close>. What is written is modelled; an open place
  is a parameter of the definition that contains it, and \<^verbatim>\<open>todo!()\<close> and \<^verbatim>\<open>unimplemented!()\<close> are panics. Also the time
  type of the \<^verbatim>\<open>chrono\<close> crate is a parameter.
\<close>

section \<open>Errors\<close>

datatype FilenameError =
    InvalidCharacter | FilenameEmpty | NameTooLong | MisplacedPeriod | Utf8Error | UnableToParse

datatype DeviceError =
    Busy | UnknownDevice | Unknown_error | Device_InvalidOperation | ReadError | WriteError | WithStatus usize

datatype FsError =
    FileNotFound | NotInSector | EndOfFile | WriteZero | NotADirectory | NotAFile | ReadOnly | InvalidOperation
  | NotSupported | BadCluster | InvalidOffset | FileNameError FilenameError | DeviceError DeviceError
  | InvalidPath "rchar list"

type_synonym 'a FsResult = "FsError + 'a"

text \<open>\<^verbatim>\<open>unwrap\<close> and \<^verbatim>\<open>expect\<close> on such a result.\<close>

definition ok_or_panic :: "panic \<Rightarrow> 'a FsResult \<Rightarrow> 'a res" where
  "ok_or_panic e r = (case r of Inl _ \<Rightarrow> Inl e | Inr x \<Rightarrow> Inr x)"

lemma ok_or_panic_simps [simp]: "ok_or_panic e (Inl x) = Inl e" "ok_or_panic e (Inr y) = Inr y"
  by (simp_all add: ok_or_panic_def)

section \<open>Blocks and devices\<close>

record Block =
  blk_contents :: "u8 list"

definition Block_new :: "u8 list \<Rightarrow> Block" where
  "Block_new data = \<lparr>blk_contents = data\<rparr>"

definition Block_default :: "nat \<Rightarrow> Block" where
  "Block_default SIZE = \<lparr>blk_contents = replicate SIZE 0\<rparr>"

text \<open>A block device as the functions of the trait. They act on the state of the hardware; reading fills a block.\<close>

record 'w block_device =
  bd_block_count :: "usize FsResult res"
  bd_read_block :: "usize \<Rightarrow> Block \<Rightarrow> 'w \<Rightarrow> (unit FsResult \<times> Block \<times> 'w) res"
  bd_write_block :: "usize \<Rightarrow> Block \<Rightarrow> 'w \<Rightarrow> (unit FsResult \<times> 'w) res"

section \<open>Fields of on-disk structures\<close>

definition slice_range :: "nat \<Rightarrow> nat \<Rightarrow> 'a list \<Rightarrow> 'a list res" where
  "slice_range i j data = (if i \<le> j \<and> j \<le> length data then Inr (take (j - i) (drop i data)) else Inl Index_out_of_bounds)"

definition try_into :: "nat \<Rightarrow> 'a list \<Rightarrow> 'a list option" where
  "try_into n xs = (if length xs = n then Some xs else None)"

fun from_le_bytes :: "u8 list \<Rightarrow> nat" where
  "from_le_bytes [] = 0"
| "from_le_bytes (b # bs) = unat b + 256 * from_le_bytes bs"

text \<open>The accessors that \<^verbatim>\<open>define_field!\<close> makes: for a byte, for 16 and 32 bits, for an array and for its text.\<close>

definition field_u8 :: "nat \<Rightarrow> u8 list \<Rightarrow> u8" where
  "field_u8 offset data = unwrap_or 0 (if offset < length data then Some (data ! offset) else None)"

definition field_u16 :: "nat \<Rightarrow> u8 list \<Rightarrow> u16 res" where
  "field_u16 offset data =
     rbind (slice_range offset (offset + 2) data) (\<lambda>s. Inr (of_nat (from_le_bytes (unwrap_or (replicate 2 0) (try_into 2 s)))))"

definition field_u32 :: "nat \<Rightarrow> u8 list \<Rightarrow> u32 res" where
  "field_u32 offset data =
     rbind (slice_range offset (offset + 4) data) (\<lambda>s. Inr (of_nat (from_le_bytes (unwrap_or (replicate 4 0) (try_into 4 s)))))"

definition field_bytes :: "nat \<Rightarrow> nat \<Rightarrow> u8 list \<Rightarrow> u8 list res" where
  "field_bytes len offset data =
     rbind (slice_range offset (offset + len) data) (\<lambda>s. Inr (unwrap_or (replicate len 0) (try_into len s)))"

definition field_str :: "nat \<Rightarrow> nat \<Rightarrow> u8 list \<Rightarrow> rchar list res" where
  "field_str len offset data = rbind (slice_range offset (offset + len) data) (\<lambda>s. Inr (unwrap_or [] (from_utf8 s)))"

section \<open>Partitions\<close>

record 'w Partition =
  part_inner :: "'w block_device"
  part_offset :: usize
  part_size :: usize

definition Partition_new :: "'w block_device \<Rightarrow> usize \<Rightarrow> usize \<Rightarrow> 'w Partition" where
  "Partition_new inner offset sz = \<lparr>part_inner = inner, part_offset = offset, part_size = sz\<rparr>"

definition Partition_block_count :: "'w Partition \<Rightarrow> usize FsResult res" where
  "Partition_block_count self = bd_block_count (part_inner self)"

text \<open>The access to the inner device is open; \<open>rest\<close> stands for it.\<close>

definition Partition_read_block ::
    "('w Partition \<Rightarrow> usize \<Rightarrow> Block \<Rightarrow> 'w \<Rightarrow> (unit FsResult \<times> Block \<times> 'w) res) \<Rightarrow>
     'w Partition \<Rightarrow> usize \<Rightarrow> Block \<Rightarrow> 'w \<Rightarrow> (unit FsResult \<times> Block \<times> 'w) res" where
  "Partition_read_block rest self offset block w =
     (if part_size self \<le> offset then Inr (Inl InvalidOffset, block, w) else rest self offset block w)"

definition Partition_write_block ::
    "('w Partition \<Rightarrow> usize \<Rightarrow> Block \<Rightarrow> 'w \<Rightarrow> (unit FsResult \<times> 'w) res) \<Rightarrow>
     'w Partition \<Rightarrow> usize \<Rightarrow> Block \<Rightarrow> 'w \<Rightarrow> (unit FsResult \<times> 'w) res" where
  "Partition_write_block rest self offset block w =
     (if part_size self \<le> offset then Inr (Inl InvalidOffset, w) else rest self offset block w)"

text \<open>The open places of the library.\<close>

record 'w holes =
  part_read_rest :: "'w Partition \<Rightarrow> usize \<Rightarrow> Block \<Rightarrow> 'w \<Rightarrow> (unit FsResult \<times> Block \<times> 'w) res"
  part_write_rest :: "'w Partition \<Rightarrow> usize \<Rightarrow> Block \<Rightarrow> 'w \<Rightarrow> (unit FsResult \<times> 'w) res"
  mbr_entry :: "nat \<Rightarrow> u8 list \<Rightarrow> u8 list res"
  begin_lba :: "u8 list \<Rightarrow> u32"
  total_lba :: "u8 list \<Rightarrow> u32"
  trail :: "u8 list \<Rightarrow> u16"
  total_sectors_16 :: "u8 list \<Rightarrow> u16"
  total_sectors_32 :: "u8 list \<Rightarrow> u32"
  reserved_sector_count :: "u8 list \<Rightarrow> u16"
  root_dir_size :: "u8 list \<Rightarrow> usize"
  root_dir_sector :: "u8 list \<Rightarrow> usize"
  cluster_sector :: "u8 list \<Rightarrow> usize \<Rightarrow> u32 \<Rightarrow> usize"

text \<open>A partition as a block device.\<close>

definition Partition_device :: "'w holes \<Rightarrow> 'w Partition \<Rightarrow> 'w block_device" where
  "Partition_device H self =
     \<lparr>bd_block_count = Partition_block_count self, bd_read_block = Partition_read_block (part_read_rest H) self,
      bd_write_block = Partition_write_block (part_write_rest H) self\<rparr>"

record MbrPartition =
  mp_data :: "u8 list"

definition MbrPartition_parse :: "u8 list \<Rightarrow> MbrPartition" where
  "MbrPartition_parse data = \<lparr>mp_data = data\<rparr>"

definition MbrPartition_status :: "MbrPartition \<Rightarrow> u8" where
  "MbrPartition_status self = field_u8 0 (mp_data self)"

definition is_active :: "MbrPartition \<Rightarrow> bool" where
  "is_active self \<longleftrightarrow> MbrPartition_status self = 0x80"

record 'w MbrTable =
  mbr_inner :: "'w block_device"
  mbr_partitions :: "MbrPartition list"

text \<open>The loop over the four entries. Which bytes of the block belong to an entry is open.\<close>

fun mbr_entries :: "'w holes \<Rightarrow> nat list \<Rightarrow> u8 list \<Rightarrow> MbrPartition list \<Rightarrow> MbrPartition list res" where
  "mbr_entries H [] buffer partitions = Inr partitions"
| "mbr_entries H (i # is) buffer partitions =
     rbind (mbr_entry H i buffer) (\<lambda>data. mbr_entries H is buffer (partitions @ [MbrPartition_parse data]))"

definition MbrTable_parse :: "'w holes \<Rightarrow> nat \<Rightarrow> 'w block_device \<Rightarrow> 'w \<Rightarrow> ('w MbrTable FsResult \<times> 'w) res" where
  "MbrTable_parse H SIZE inner w =
     rbind (bd_read_block inner 0 (Block_default SIZE) w) (\<lambda>(r, block, w).
       case r of
         Inl e \<Rightarrow> Inr (Inl e, w)
       | Inr _ \<Rightarrow>
           rbind (mbr_entries H [0..<4] (blk_contents block) []) (\<lambda>partitions.
           rbind (expect Unwrap_failed (try_into 4 partitions)) (\<lambda>partitions.
             Inr (Inr \<lparr>mbr_inner = inner, mbr_partitions = partitions\<rparr>, w))))"

definition MbrTable_partitions :: "'w holes \<Rightarrow> 'w MbrTable \<Rightarrow> 'w Partition list FsResult" where
  "MbrTable_partitions H self =
     Inr (fold (\<lambda>part parts.
            if is_active part
            then parts @ [Partition_new (mbr_inner self) (ucast (begin_lba H (mp_data part))) (ucast (total_lba H (mp_data part)))]
            else parts) (mbr_partitions self) [])"

section \<open>FAT16\<close>

record Fat16Bpb =
  bpb_data :: "u8 list"

definition Fat16Bpb_new :: "'w holes \<Rightarrow> u8 list \<Rightarrow> Fat16Bpb FsResult res" where
  "Fat16Bpb_new H data =
     rbind (expect Unwrap_failed (try_into 512 data)) (\<lambda>data.
       let bpb = \<lparr>bpb_data = data\<rparr>
       in if length (bpb_data bpb) \<noteq> 512 \<or> trail H (bpb_data bpb) \<noteq> 0xAA55 then Inr (Inl InvalidOperation)
          else Inr (Inr bpb))"

definition total_sectors :: "'w holes \<Rightarrow> Fat16Bpb \<Rightarrow> u32" where
  "total_sectors H self =
     (if total_sectors_16 H (bpb_data self) = 0 then total_sectors_32 H (bpb_data self)
      else ucast (total_sectors_16 H (bpb_data self)))"

record 'w Fat16Impl =
  fat_inner :: "'w block_device"
  fat_bpb :: Fat16Bpb
  fat_start :: usize
  first_data_sector :: usize
  first_root_dir_sector :: usize

definition Fat16Impl_new :: "'w holes \<Rightarrow> 'w block_device \<Rightarrow> 'w \<Rightarrow> ('w Fat16Impl \<times> 'w) res" where
  "Fat16Impl_new H inner w =
     rbind (bd_read_block inner 0 (Block_default 512) w) (\<lambda>(r, block, w).
     rbind (ok_or_panic Unwrap_failed r) (\<lambda>_.
     rbind (Fat16Bpb_new H (blk_contents block)) (\<lambda>r.
     rbind (ok_or_panic Unwrap_failed r) (\<lambda>bpb.
       Inr (\<lparr>fat_inner = inner, fat_bpb = bpb, fat_start = ucast (reserved_sector_count H (bpb_data bpb)),
             first_data_sector = root_dir_sector H (bpb_data bpb) + root_dir_size H (bpb_data bpb),
             first_root_dir_sector = root_dir_sector H (bpb_data bpb)\<rparr>, w)))))"

datatype Cluster = Cluster u32

definition Cluster_INVALID :: Cluster where "Cluster_INVALID = Cluster 0xFFFFFFF6"

definition Cluster_BAD :: Cluster where "Cluster_BAD = Cluster 0xFFFFFFF7"

definition Cluster_EMPTY :: Cluster where "Cluster_EMPTY = Cluster 0"

definition Cluster_ROOT_DIR :: Cluster where "Cluster_ROOT_DIR = Cluster 0xFFFFFFFC"

definition Cluster_END_OF_FILE :: Cluster where "Cluster_END_OF_FILE = Cluster 0xFFFFFFFF"

fun Cluster_add :: "Cluster \<Rightarrow> u32 \<Rightarrow> Cluster" where
  "Cluster_add (Cluster c) rhs = Cluster (c + rhs)"

fun Cluster_add_cluster :: "Cluster \<Rightarrow> Cluster \<Rightarrow> Cluster" where
  "Cluster_add_cluster (Cluster c) (Cluster d) = Cluster (c + d)"

definition cluster_to_sector :: "'w holes \<Rightarrow> 'w Fat16Impl \<Rightarrow> Cluster \<Rightarrow> usize" where
  "cluster_to_sector H self cluster =
     (if cluster = Cluster_ROOT_DIR then first_root_dir_sector self
      else case cluster of Cluster c \<Rightarrow> cluster_sector H (bpb_data (fat_bpb self)) (first_data_sector self) c)"

text \<open>Short file names.\<close>

record ShortFileName =
  sfn_name :: "u8 list"
  sfn_ext :: "u8 list"

definition ShortFileName_new :: "u8 list \<Rightarrow> ShortFileName res" where
  "ShortFileName_new buf =
     rbind (slice_range 0 8 buf) (\<lambda>name. rbind (expect Unwrap_failed (try_into 8 name)) (\<lambda>name.
     rbind (slice_range 8 11 buf) (\<lambda>ext. rbind (expect Unwrap_failed (try_into 3 ext)) (\<lambda>ext.
       Inr \<lparr>sfn_name = name, sfn_ext = ext\<rparr>))))"

definition basename :: "ShortFileName \<Rightarrow> rchar list res" where
  "basename self = expect Unwrap_failed (from_utf8 (sfn_name self))"

definition extension :: "ShortFileName \<Rightarrow> rchar list res" where
  "extension self = expect Unwrap_failed (from_utf8 (sfn_ext self))"

definition is_eod :: "ShortFileName \<Rightarrow> bool" where
  "is_eod self \<longleftrightarrow> sfn_name self ! 0 = 0 \<and> sfn_ext self ! 0 = 0"

definition is_unused :: "ShortFileName \<Rightarrow> bool" where
  "is_unused self \<longleftrightarrow> sfn_name self ! 0 = 0xE5"

definition sfn_matches :: "ShortFileName \<Rightarrow> ShortFileName \<Rightarrow> bool" where
  "sfn_matches self sfn \<longleftrightarrow> sfn_name self = sfn_name sfn \<and> sfn_ext self = sfn_ext sfn"

definition trim_end :: "rchar list \<Rightarrow> rchar list" where
  "trim_end s = rev (dropWhile is_whitespace (rev s))"

definition ShortFileName_fmt :: "ShortFileName \<Rightarrow> rchar list res" where
  "ShortFileName_fmt self =
     (if sfn_ext self ! 0 = 0x20 then rbind (basename self) (\<lambda>b. Inr (trim_end b))
      else rbind (basename self) (\<lambda>b. rbind (extension self) (\<lambda>e. Inr (trim_end b @ chars ''.'' @ trim_end e))))"

text \<open>Directory entries, over the type \<open>'t\<close> of points in time. The attribute tests \<^verbatim>\<open>is_valid\<close>, \<^verbatim>\<open>is_long_name\<close> and
  \<^verbatim>\<open>is_directory\<close> are used but defined nowhere, and the fields behind the name are open.\<close>

record 't DirEntry =
  de_filename :: ShortFileName
  de_modified_time :: 't
  de_created_time :: 't
  de_accessed_time :: 't
  de_cluster :: Cluster
  de_attributes :: u8
  de_size :: u32

record 't entry_holes =
  is_valid :: "'t DirEntry \<Rightarrow> bool"
  is_long_name :: "'t DirEntry \<Rightarrow> bool"
  is_directory :: "'t DirEntry \<Rightarrow> bool"
  entry_times :: "u8 list \<Rightarrow> 't \<times> 't \<times> 't"
  entry_cluster :: "u8 list \<Rightarrow> u32"
  entry_attributes :: "u8 list \<Rightarrow> u8"
  entry_size :: "u8 list \<Rightarrow> u32"

definition DirEntry_parse :: "'t entry_holes \<Rightarrow> u8 list \<Rightarrow> 't DirEntry FsResult res" where
  "DirEntry_parse D data =
     rbind (slice_range 0 11 data) (\<lambda>buf. rbind (ShortFileName_new buf) (\<lambda>filename.
       let (modified_time, created_time, accessed_time) = entry_times D data
       in Inr (Inr \<lparr>de_filename = filename, de_modified_time = modified_time, de_created_time = created_time,
            de_accessed_time = accessed_time, de_cluster = Cluster (entry_cluster D data),
            de_attributes = entry_attributes D data, de_size = entry_size D data\<rparr>)))"

definition DirEntry_filename :: "'t entry_holes \<Rightarrow> 't DirEntry \<Rightarrow> rchar list res" where
  "DirEntry_filename D self =
     (if is_valid D self \<and> \<not> is_long_name D self then ShortFileName_fmt (de_filename self) else Inr (chars ''unknown''))"

text \<open>The date: how the number is taken apart is open; \<open>with_ymd_and_hms\<close> is the crate's function.\<close>

definition prase_datetime :: "(u32 \<Rightarrow> int \<times> u32 \<times> u32 \<times> u32 \<times> u32 \<times> u32) \<Rightarrow>
    (int \<times> u32 \<times> u32 \<times> u32 \<times> u32 \<times> u32 \<Rightarrow> 't option) \<Rightarrow> 't \<Rightarrow> u32 \<Rightarrow> 't" where
  "prase_datetime parts with_ymd_and_hms epoch time =
     (case with_ymd_and_hms (parts time) of Some t \<Rightarrow> t | None \<Rightarrow> epoch)"

datatype FileType = FileType_File | FileType_Directory

record 't Metadata =
  md_name :: "rchar list"
  md_entry_type :: FileType
  md_len :: usize
  md_created :: "'t option"
  md_modified :: "'t option"
  md_accessed :: "'t option"

definition Metadata_new :: "rchar list \<Rightarrow> FileType \<Rightarrow> usize \<Rightarrow> 't option \<Rightarrow> 't option \<Rightarrow> 't option \<Rightarrow> 't Metadata" where
  "Metadata_new name entry_type len created modified accessed =
     \<lparr>md_name = name, md_entry_type = entry_type, md_len = len, md_created = created, md_modified = modified,
      md_accessed = accessed\<rparr>"

definition is_file :: "'t Metadata \<Rightarrow> bool" where
  "is_file self \<longleftrightarrow> md_entry_type self = FileType_File"

definition is_dir :: "'t Metadata \<Rightarrow> bool" where
  "is_dir self \<longleftrightarrow> md_entry_type self = FileType_Directory"

definition Metadata_from :: "'t entry_holes \<Rightarrow> 't DirEntry \<Rightarrow> 't Metadata res" where
  "Metadata_from D entry =
     rbind (DirEntry_filename D entry) (\<lambda>name.
       Inr \<lparr>md_name = name, md_entry_type = (if is_directory D entry then FileType_Directory else FileType_File),
            md_len = ucast (de_size entry), md_created = Some (de_created_time entry),
            md_modified = Some (de_modified_time entry), md_accessed = Some (de_accessed_time entry)\<rparr>)"

record 't Directory =
  dir_cluster :: Cluster
  dir_dirent :: "'t DirEntry option"

definition Directory_new :: "Cluster \<Rightarrow> 't Directory" where
  "Directory_new cluster = \<lparr>dir_cluster = cluster, dir_dirent = None\<rparr>"

definition Directory_root :: "'t Directory" where
  "Directory_root = \<lparr>dir_cluster = Cluster_ROOT_DIR, dir_dirent = None\<rparr>"

definition Directory_from_entry :: "'t DirEntry \<Rightarrow> 't Directory" where
  "Directory_from_entry entry = \<lparr>dir_cluster = de_cluster entry, dir_dirent = Some entry\<rparr>"

text \<open>Open files; the handle of the file system is shared.\<close>

record ('t, 'w) File =
  f_offset :: usize
  f_current_cluster :: Cluster
  f_entry :: "'t DirEntry"
  f_handle :: "'w Fat16Impl"

definition File_new :: "'w Fat16Impl \<Rightarrow> 't DirEntry \<Rightarrow> ('t, 'w) File" where
  "File_new handle entry = \<lparr>f_offset = 0, f_current_cluster = de_cluster entry, f_entry = entry, f_handle = handle\<rparr>"

definition File_length :: "('t, 'w) File \<Rightarrow> usize" where
  "File_length self = ucast (de_size (f_entry self))"

datatype SeekFrom = SeekStart usize | SeekEnd isize | SeekCurrent isize

definition File_seek :: "('t, 'w) File \<Rightarrow> SeekFrom \<Rightarrow> usize FsResult res" where
  "File_seek self pos = Inl (Panicked ''not implemented'')"

definition File_write :: "('t, 'w) File \<Rightarrow> u8 list \<Rightarrow> usize FsResult res" where
  "File_write self buf = Inl (Panicked ''not implemented'')"

definition File_flush :: "('t, 'w) File \<Rightarrow> unit FsResult res" where
  "File_flush self = Inl (Panicked ''not implemented'')"

section \<open>File systems and mount points\<close>

text \<open>The functions of the trait \<^verbatim>\<open>FileSystem\<close>; \<open>'m\<close> are the entries of a directory and \<open>'h\<close> the handles of files.\<close>

record ('m, 'h) file_system =
  fs_read_dir :: "rchar list \<Rightarrow> 'm list FsResult res"
  fs_open_file :: "rchar list \<Rightarrow> 'h FsResult res"
  fs_metadata :: "rchar list \<Rightarrow> 'm FsResult res"
  fs_exists :: "rchar list \<Rightarrow> bool FsResult res"
  fs_create_file :: "rchar list \<Rightarrow> 'h FsResult res"
  fs_append_file :: "rchar list \<Rightarrow> 'h FsResult res"
  fs_remove_file :: "rchar list \<Rightarrow> 'h FsResult res"
  fs_remove_dir :: "rchar list \<Rightarrow> 'h FsResult res"
  fs_copy_file :: "rchar list \<Rightarrow> rchar list \<Rightarrow> unit FsResult res"
  fs_move_file :: "rchar list \<Rightarrow> rchar list \<Rightarrow> unit FsResult res"
  fs_move_dir :: "rchar list \<Rightarrow> rchar list \<Rightarrow> unit FsResult res"

text \<open>An implementation that defines the four required functions gets the default of the others.\<close>

definition default_fs :: "(rchar list \<Rightarrow> 'm list FsResult res) \<Rightarrow> (rchar list \<Rightarrow> 'h FsResult res) \<Rightarrow>
    (rchar list \<Rightarrow> 'm FsResult res) \<Rightarrow> (rchar list \<Rightarrow> bool FsResult res) \<Rightarrow> ('m, 'h) file_system" where
  "default_fs read_dir open_file metadata exists =
     \<lparr>fs_read_dir = read_dir, fs_open_file = open_file, fs_metadata = metadata, fs_exists = exists,
      fs_create_file = (\<lambda>_. Inr (Inl NotSupported)), fs_append_file = (\<lambda>_. Inr (Inl NotSupported)),
      fs_remove_file = (\<lambda>_. Inr (Inl NotSupported)), fs_remove_dir = (\<lambda>_. Inr (Inl NotSupported)),
      fs_copy_file = (\<lambda>_ _. Inr (Inl NotSupported)), fs_move_file = (\<lambda>_ _. Inr (Inl NotSupported)),
      fs_move_dir = (\<lambda>_ _. Inr (Inl NotSupported))\<rparr>"

definition Fat16_fs :: "'w Fat16Impl \<Rightarrow> ('m, 'h) file_system" where
  "Fat16_fs self =
     (let todo = Panicked ''not yet implemented''
      in default_fs (\<lambda>path. Inl todo) (\<lambda>path. Inl todo) (\<lambda>path. Inl todo) (\<lambda>path. Inl todo))"

record ('m, 'h) Mount =
  mnt_fs :: "('m, 'h) file_system"
  mnt_mount_point :: "rchar list"

definition Mount_new :: "('m, 'h) file_system \<Rightarrow> rchar list \<Rightarrow> ('m, 'h) Mount" where
  "Mount_new fs mount_point = \<lparr>mnt_fs = fs, mnt_mount_point = mount_point\<rparr>"

text \<open>\<^verbatim>\<open>str::trim_start_matches\<close> takes the pattern away as often as it is there; the empty pattern never matches.\<close>

function trim_start_matches :: "rchar list \<Rightarrow> rchar list \<Rightarrow> rchar list" where
  "trim_start_matches pat s =
     (if pat \<noteq> [] \<and> take (length pat) s = pat then trim_start_matches pat (drop (length pat) s) else s)"
  by pat_completeness auto
termination
proof (relation "measure (\<lambda>(pat, s). length s)")
  fix pat s :: "rchar list"
  assume "pat \<noteq> [] \<and> take (length pat) s = pat"
  then have "s \<noteq> []" by auto
  then show "((pat, drop (length pat) s), pat, s) \<in> measure (\<lambda>(pat, s). length s)"
    using \<open>pat \<noteq> [] \<and> take (length pat) s = pat\<close> by simp
qed simp

declare trim_start_matches.simps [simp del]

definition trim_mount_point :: "('m, 'h) Mount \<Rightarrow> rchar list \<Rightarrow> rchar list" where
  "trim_mount_point self path = trim_start_matches (mnt_mount_point self) path"

definition Mount_file_system :: "('m, 'h) Mount \<Rightarrow> ('m, 'h) file_system" where
  "Mount_file_system self =
     default_fs (\<lambda>path. fs_read_dir (mnt_fs self) (trim_mount_point self path))
       (\<lambda>path. fs_open_file (mnt_fs self) (trim_mount_point self path))
       (\<lambda>path. fs_metadata (mnt_fs self) (trim_mount_point self path))
       (\<lambda>path. fs_exists (mnt_fs self) (trim_mount_point self path))"

section \<open>Fields are little endian\<close>

text \<open>The reference encoding of a number in \<open>n\<close> bytes.\<close>

fun le_bytes :: "nat \<Rightarrow> nat \<Rightarrow> u8 list" where
  "le_bytes 0 v = []"
| "le_bytes (Suc n) v = of_nat (v mod 256) # le_bytes n (v div 256)"

lemma length_le_bytes [simp]: "length (le_bytes n v) = n"
  by (induction n arbitrary: v) simp_all

lemma from_le_bytes_le_bytes: "from_le_bytes (le_bytes n v) = v mod 256 ^ n"
proof (induction n arbitrary: v)
  case (Suc n)
  have "unat (of_nat (v mod 256) :: u8) = v mod 256" by (simp add: unat_of_nat)
  then show ?case using Suc mod_mult2_eq [of v 256 "256 ^ n"] by simp
qed simp

lemma slice_between: "length s = n \<Longrightarrow> slice_range (length pre) (length pre + n) (pre @ s @ post) = Inr s"
  by (simp add: slice_range_def)

text \<open>A value written in little-endian order is what the accessor at its place returns, for every width, and the bytes
  and the ASCII text of an array come back unchanged. Past the end of the data a byte reads as 0; the wider accessors
  panic there, although they name a fallback value.\<close>

theorem fields_roundtrip:
  "field_u8 (length pre) (pre @ b # post) = b \<and>
   field_u16 (length pre) (pre @ le_bytes 2 (unat v16) @ post) = Inr v16 \<and>
   field_u32 (length pre) (pre @ le_bytes 4 (unat v32) @ post) = Inr v32 \<and>
   field_bytes (length bs) (length pre) (pre @ bs @ post) = Inr bs \<and>
   (ascii s \<longrightarrow> field_str (length s) (length pre) (pre @ map of_nat s @ post) = Inr s) \<and>
   (length data \<le> offset \<longrightarrow> field_u8 offset data = 0) \<and>
   (length data < offset + 2 \<longrightarrow> field_u16 offset data = Inl Index_out_of_bounds) \<and>
   (length data < offset + 4 \<longrightarrow> field_u32 offset data = Inl Index_out_of_bounds)"
proof -
  have "field_u16 (length pre) (pre @ le_bytes 2 (unat v16) @ post) = Inr v16"
    using from_le_bytes_le_bytes [of 2 "unat v16"] unat_word_less_pow [of v16]
    unfolding field_u16_def slice_between [OF length_le_bytes] by (simp add: try_into_def unwrap_or_def)
  moreover have "field_u32 (length pre) (pre @ le_bytes 4 (unat v32) @ post) = Inr v32"
    using from_le_bytes_le_bytes [of 4 "unat v32"] unat_word_less_pow [of v32]
    unfolding field_u32_def slice_between [OF length_le_bytes] by (simp add: try_into_def unwrap_or_def)
  moreover have "field_str (length s) (length pre) (pre @ map of_nat s @ post) = Inr s" if "ascii s"
    using that by (simp add: field_str_def slice_between from_utf8_ascii unwrap_or_def)
  ultimately show ?thesis
    by (simp add: field_u8_def field_bytes_def slice_between try_into_def unwrap_or_def field_u16_def field_u32_def slice_range_def)
qed

section \<open>Short file names\<close>

text \<open>A part of a name in its field: printable characters, padded with blanks.\<close>

definition name_part :: "nat \<Rightarrow> rchar list \<Rightarrow> bool" where
  "name_part n s \<longleftrightarrow> length s \<le> n \<and> (\<forall>c \<in> set s. 0x20 < c \<and> c < 0x7F)"

definition pad :: "nat \<Rightarrow> rchar list \<Rightarrow> rchar list" where
  "pad n s = s @ replicate (n - length s) 0x20"

lemma length_pad [simp]: "name_part n s \<Longrightarrow> length (pad n s) = n"
  by (simp add: name_part_def pad_def)

lemma from_utf8_pad: "name_part n s \<Longrightarrow> from_utf8 (map of_nat (pad n s)) = Some (pad n s)"
  by (rule from_utf8_ascii) (auto simp: name_part_def pad_def ascii_def)

lemma trim_end_pad: "name_part n s \<Longrightarrow> trim_end (pad n s) = s"
proof -
  assume s: "name_part n s"
  have "dropWhile is_whitespace (rev s) = rev s"
    using s by (cases s rule: rev_cases) (auto simp: name_part_def is_whitespace_def)
  then show ?thesis
    by (simp add: trim_end_def pad_def dropWhile_append is_whitespace_def)
qed

lemma pad_inject: "name_part n s \<Longrightarrow> name_part n s' \<Longrightarrow> pad n s = pad n s' \<Longrightarrow> s = s'"
  by (metis trim_end_pad)

lemma of_nat_pad_inject:
  assumes "name_part n s" and "name_part n s'" and "map of_nat (pad n s) = (map of_nat (pad n s') :: u8 list)"
  shows "s = s'"
  using assms from_utf8_pad pad_inject by (metis option.inject)

lemma pad_nth_0:
  assumes "name_part n s" and "0 < n"
  shows "map of_nat (pad n s) ! 0 = (if s = [] then 0x20 else of_nat (hd s) :: u8)"
  using assms by (cases s) (auto simp: pad_def)

lemma name_byte: "0x20 < c \<Longrightarrow> c < 0x7F \<Longrightarrow> (of_nat c :: u8) \<noteq> 0x20 \<and> (of_nat c :: u8) \<noteq> 0 \<and> (of_nat c :: u8) \<noteq> 0xE5"
  by (auto simp: word_unat_eq_iff unat_of_nat)

abbreviation sfn_of :: "rchar list \<Rightarrow> rchar list \<Rightarrow> ShortFileName" where
  "sfn_of n e \<equiv> \<lparr>sfn_name = map of_nat (pad 8 n), sfn_ext = map of_nat (pad 3 e)\<rparr>"

lemma ShortFileName_new_padded:
  assumes "name_part 8 n" and "name_part 3 e"
  shows "ShortFileName_new (map of_nat (pad 8 n) @ map of_nat (pad 3 e) @ rest) = Inr (sfn_of n e)"
  using slice_between [of "map of_nat (pad 8 n)" 8 "[]" "map of_nat (pad 3 e) @ rest"]
    slice_between [of "map of_nat (pad 3 e)" 3 "map of_nat (pad 8 n)" rest] assms
  by (simp add: ShortFileName_new_def try_into_def)

lemma deleted_name_not_utf8: "unat b < 0x80 \<Longrightarrow> from_utf8 (0xE5 # b # bs) = None"
  by (subst from_utf8.simps) (auto simp: decode1_def second3_def second4_def split: list.splits)

text \<open>C40. Short file names. The eleven bytes of a directory entry that hold a name and an extension, padded with blanks, are
  displayed as the name, a point and the extension, without the point when there is no extension; they are neither
  the end mark nor a deleted entry, and two of them match exactly when name and extension are the same. Displaying
  panics exactly when a part to be shown is not UTF-8, as in a deleted entry with an ASCII second character.\<close>

theorem short_name_roundtrip:
  assumes "name_part 8 n" and "name_part 3 e" and "name_part 8 n'" and "name_part 3 e'"
  shows "(\<exists>sfn. ShortFileName_new (map of_nat (pad 8 n) @ map of_nat (pad 3 e) @ rest) = Inr sfn \<and>
      ShortFileName_fmt sfn = Inr (if e = [] then n else n @ chars ''.'' @ e) \<and> \<not> is_eod sfn \<and> \<not> is_unused sfn \<and>
      (sfn_matches sfn (sfn_of n' e') \<longleftrightarrow> n = n' \<and> e = e')) \<and>
    (\<forall>s x. ShortFileName_fmt s = Inl x \<longleftrightarrow>
      x = Unwrap_failed \<and> (from_utf8 (sfn_name s) = None \<or> sfn_ext s ! 0 \<noteq> 0x20 \<and> from_utf8 (sfn_ext s) = None)) \<and>
    (\<forall>b bs ext. unat b < 0x80 \<longrightarrow> ShortFileName_fmt \<lparr>sfn_name = 0xE5 # b # bs, sfn_ext = ext\<rparr> = Inl Unwrap_failed)"
proof (intro conjI)
  have ext: "sfn_ext (sfn_of n e) ! 0 = 0x20 \<longleftrightarrow> e = []"
    using pad_nth_0 [OF assms(2)] assms(2) name_byte by (cases e) (auto simp: name_part_def)
  have "\<not> is_eod (sfn_of n e)" "\<not> is_unused (sfn_of n e)"
    using pad_nth_0 [OF assms(1)] assms(1) name_byte by (cases n; force simp: is_eod_def is_unused_def name_part_def)+
  moreover have "ShortFileName_fmt (sfn_of n e) = Inr (if e = [] then n else n @ chars ''.'' @ e)"
    using ext assms by (simp add: ShortFileName_fmt_def basename_def extension_def from_utf8_pad trim_end_pad)
  moreover have "sfn_matches (sfn_of n e) (sfn_of n' e') \<longleftrightarrow> n = n' \<and> e = e'"
    using of_nat_pad_inject [OF assms(1,3)] of_nat_pad_inject [OF assms(2,4)] by (auto simp: sfn_matches_def)
  ultimately show "\<exists>sfn. ShortFileName_new (map of_nat (pad 8 n) @ map of_nat (pad 3 e) @ rest) = Inr sfn \<and>
      ShortFileName_fmt sfn = Inr (if e = [] then n else n @ chars ''.'' @ e) \<and> \<not> is_eod sfn \<and> \<not> is_unused sfn \<and>
      (sfn_matches sfn (sfn_of n' e') \<longleftrightarrow> n = n' \<and> e = e')"
    using ShortFileName_new_padded [OF assms(1,2)] by blast
  show "\<forall>s x. ShortFileName_fmt s = Inl x \<longleftrightarrow>
      x = Unwrap_failed \<and> (from_utf8 (sfn_name s) = None \<or> sfn_ext s ! 0 \<noteq> 0x20 \<and> from_utf8 (sfn_ext s) = None)"
    by (auto simp: ShortFileName_fmt_def basename_def extension_def expect_def rbind_def split: option.splits)
  show "\<forall>b bs ext. unat b < 0x80 \<longrightarrow> ShortFileName_fmt \<lparr>sfn_name = 0xE5 # b # bs, sfn_ext = ext\<rparr> = Inl Unwrap_failed"
    by (simp add: ShortFileName_fmt_def basename_def deleted_name_not_utf8)
qed

theorem short_name_roundtrip_witness:
  "\<exists>sfn. ShortFileName_new (map of_nat (pad 8 (chars ''KERNEL'')) @ map of_nat (pad 3 (chars ''ELF''))) = Inr sfn \<and>
     ShortFileName_fmt sfn = Inr (chars ''KERNEL.ELF'') \<and> \<not> sfn_matches sfn (sfn_of (chars ''KERNEL'') [])"
proof -
  have "name_part 8 (chars ''KERNEL'')" "name_part 3 (chars ''ELF'')" "name_part 3 []"
    by (simp_all add: name_part_def chars_def)
  from short_name_roundtrip [OF this(1,2,1,3), of "[]"] show ?thesis by (auto simp: chars_def)
qed

section \<open>Mount points\<close>

lemma trim_start_matches_append: "pat \<noteq> [] \<Longrightarrow> trim_start_matches pat (pat @ s) = trim_start_matches pat s"
  by (subst trim_start_matches.simps) simp

lemma trim_start_matches_no_prefix: "pat \<noteq> [] \<Longrightarrow> take (length pat) (trim_start_matches pat s) \<noteq> pat"
  by (induction pat s rule: trim_start_matches.induct) (subst trim_start_matches.simps, simp)

lemma trim_start_matches_copies: "\<exists>n. s = concat (replicate n pat) @ trim_start_matches pat s"
proof (induction pat s rule: trim_start_matches.induct)
  case (1 pat s)
  show ?case
  proof (cases "pat \<noteq> [] \<and> take (length pat) s = pat")
    case True
    with 1 obtain n where "drop (length pat) s = concat (replicate n pat) @ trim_start_matches pat (drop (length pat) s)" by blast
    then have "s = concat (replicate (Suc n) pat) @ trim_start_matches pat (drop (length pat) s)"
      using True append_take_drop_id [of "length pat" s] by simp
    moreover have "trim_start_matches pat s = trim_start_matches pat (drop (length pat) s)"
      using True by (subst trim_start_matches.simps) simp
    ultimately show ?thesis by metis
  next
    case False
    then have "s = concat (replicate 0 pat) @ trim_start_matches pat s" by (subst trim_start_matches.simps) auto
    then show ?thesis ..
  qed
qed

lemma trim_start_matches_char: "trim_start_matches [c] s = dropWhile (\<lambda>d. d = c) s"
proof (induction s)
  case (Cons d s)
  then show ?case using trim_start_matches.simps [of "[c]" "d # s"] by (cases "d = c") simp_all
qed (simp add: trim_start_matches.simps)

text \<open>Mount points. Every reading operation of a mount goes to the mounted file system with a path from which copies of
  the mount point have been taken away until none is left at the front; for the root that strips the leading
  slashes. So below any other mount point a path that starts with the mount point again is looked up without it: the
  entry \<open>mp @ mp @ path\<close> is taken for \<open>mp @ path\<close>. The modifying operations are refused whatever the mounted file system
  supports.\<close>

theorem mount_strips_every_copy:
  fixes fs :: "('m, 'h) file_system" and mp :: "rchar list"
  defines "M \<equiv> Mount_file_system (Mount_new fs mp)"
  shows "\<exists>sub n. path = concat (replicate n mp) @ sub \<and> (mp \<noteq> [] \<longrightarrow> take (length mp) sub \<noteq> mp) \<and>
      (mp = chars ''/'' \<longrightarrow> sub = dropWhile (\<lambda>c. c = 47) path) \<and>
      (\<forall>p \<in> {path, mp @ path, mp @ mp @ path}. fs_read_dir M p = fs_read_dir fs sub \<and> fs_open_file M p = fs_open_file fs sub \<and>
         fs_metadata M p = fs_metadata fs sub \<and> fs_exists M p = fs_exists fs sub) \<and>
      fs_create_file M path = Inr (Inl NotSupported) \<and> fs_remove_file M path = Inr (Inl NotSupported) \<and>
      fs_move_file M path dst = Inr (Inl NotSupported)"
proof -
  let ?t = "trim_start_matches mp path"
  obtain n where n: "path = concat (replicate n mp) @ ?t" using trim_start_matches_copies by blast
  have no_prefix: "mp \<noteq> [] \<longrightarrow> take (length mp) ?t \<noteq> mp" using trim_start_matches_no_prefix by blast
  have root: "mp = chars ''/'' \<longrightarrow> ?t = dropWhile (\<lambda>c. c = 47) path" by (auto simp: chars_def trim_start_matches_char)
  have "trim_start_matches mp (mp @ p) = trim_start_matches mp p" for p
    by (cases "mp = []") (simp_all add: trim_start_matches_append)
  then have sub: "\<forall>p \<in> {path, mp @ path, mp @ mp @ path}. fs_read_dir M p = fs_read_dir fs ?t \<and>
      fs_open_file M p = fs_open_file fs ?t \<and> fs_metadata M p = fs_metadata fs ?t \<and> fs_exists M p = fs_exists fs ?t"
    by (simp add: M_def Mount_file_system_def Mount_new_def default_fs_def trim_mount_point_def)
  have refused: "fs_create_file M path = Inr (Inl NotSupported) \<and> fs_remove_file M path = Inr (Inl NotSupported) \<and>
      fs_move_file M path dst = Inr (Inl NotSupported)"
    by (simp add: M_def Mount_file_system_def default_fs_def)
  show ?thesis
    by (rule exI [of _ ?t], rule exI [of _ n], rule conjI [OF n conjI [OF no_prefix conjI [OF root conjI [OF sub refused]]]])
qed

section \<open>Partitions\<close>

lemma active_partitions:
  "fold (\<lambda>part parts. if is_active part then parts @ [f part] else parts) ps acc = acc @ map f (filter is_active ps)"
  by (induction ps arbitrary: acc) simp_all

lemma mbr_entries_length: "mbr_entries H is buffer acc = Inr ps \<Longrightarrow> length ps = length acc + length is"
  by (induction "is" arbitrary: acc) auto

text \<open>Partitions. A parsed table has four entries, and the partitions are exactly the active ones, in the order of the
  table, with the start and size of their entries. A partition refuses every access from its size on and does not
  touch the disk then; but it reports the number of blocks of the whole device as its own.\<close>

theorem partitions_of_table:
  assumes "MbrTable_parse H SIZE dev w = Inr (Inr table, w')"
  shows "length (mbr_partitions table) = 4 \<and>
    (\<exists>ps. MbrTable_partitions H table = Inr ps \<and>
      map (\<lambda>p. (part_offset p, part_size p)) ps =
        map (\<lambda>e. (ucast (begin_lba H (mp_data e)), ucast (total_lba H (mp_data e)))) (filter is_active (mbr_partitions table)) \<and>
      (\<forall>p \<in> set ps. \<forall>off \<ge> part_size p. \<forall>block s.
         bd_read_block (Partition_device H p) off block s = Inr (Inl InvalidOffset, block, s) \<and>
         bd_write_block (Partition_device H p) off block s = Inr (Inl InvalidOffset, s) \<and>
         bd_block_count (Partition_device H p) = bd_block_count dev))"
proof -
  have t: "mbr_inner table = dev" "length (mbr_partitions table) = 4"
    using assms mbr_entries_length [of H "[0..<4]"]
    by (auto simp: MbrTable_parse_def try_into_def split: sum.splits if_splits)
  have "MbrTable_partitions H table =
    Inr (map (\<lambda>e. Partition_new dev (ucast (begin_lba H (mp_data e))) (ucast (total_lba H (mp_data e)))) (filter is_active (mbr_partitions table)))"
    by (simp add: MbrTable_partitions_def active_partitions t(1))
  with t(2) show ?thesis
    by (auto simp: Partition_new_def Partition_device_def Partition_read_block_def Partition_write_block_def Partition_block_count_def comp_def)
qed

end
