(* ===== verification/Disk.thy ===== *)
theory Disk
  imports Storage Devices
begin

text \<open>
  The disk driver of laboratory 0x06 (\<^verbatim>\<open>0x06/pkg/kernel/src/drivers/ata\<close>) and the mounting of the root file system
  (\<^verbatim>\<open>0x06/pkg/kernel/src/drivers/filesystem.rs\<close>). The registers of a bus are reached through a bus of 8-bit ports and
  one of 16-bit ports over the same device state. Open places of the template that do not even compile are parameters;
  \<^verbatim>\<open>todo!()\<close> is a panic.
\<close>

section \<open>Registers\<close>

definition BUSY :: u8 where "BUSY = 0x80"

definition DRIVE_READY :: u8 where "DRIVE_READY = 0x40"

definition DRIVE_WRITE_FAULT :: u8 where "DRIVE_WRITE_FAULT = 0x20"

definition DRIVE_SEEK_COMPLETE :: u8 where "DRIVE_SEEK_COMPLETE = 0x10"

definition DATA_REQUEST_READY :: u8 where "DATA_REQUEST_READY = 0x08"

definition CORRECTED_DATA :: u8 where "CORRECTED_DATA = 0x04"

definition INDEX :: u8 where "INDEX = 0x02"

definition ERROR :: u8 where "ERROR = 0x01"

datatype AtaCommand =
    ReadPio | ReadPioExt | ReadDma | ReadDmaExt | WritePio | WritePioExt | WriteDma | WriteDmaExt | CacheFlush
  | CacheFlushExt | Packet | IdentifyPacket | IdentifyDevice

primrec AtaCommand_byte :: "AtaCommand \<Rightarrow> u8" where
  "AtaCommand_byte ReadPio = 0x20"
| "AtaCommand_byte ReadPioExt = 0x24"
| "AtaCommand_byte ReadDma = 0xC8"
| "AtaCommand_byte ReadDmaExt = 0x25"
| "AtaCommand_byte WritePio = 0x30"
| "AtaCommand_byte WritePioExt = 0x34"
| "AtaCommand_byte WriteDma = 0xCA"
| "AtaCommand_byte WriteDmaExt = 0x35"
| "AtaCommand_byte CacheFlush = 0xE7"
| "AtaCommand_byte CacheFlushExt = 0xEA"
| "AtaCommand_byte Packet = 0xA0"
| "AtaCommand_byte IdentifyPacket = 0xA1"
| "AtaCommand_byte IdentifyDevice = 0xEC"

datatype AtaDeviceType = Pata "u16 list" | PataPi | Sata | SataPi | NoDevice

record AtaBus =
  ata_id :: u8
  ata_irq :: u8
  ata_io_base :: u16
  ata_ctrl_base :: u16
  ata_data :: u16
  ata_error :: u16
  ata_features :: u16
  ata_sector_count :: u16
  ata_lba_low :: u16
  ata_lba_mid :: u16
  ata_lba_high :: u16
  ata_drive :: u16
  ata_status :: u16
  ata_command :: u16
  ata_alternate_status :: u16
  ata_control :: u16
  ata_drive_blockess :: u16

definition AtaBus_new :: "u8 \<Rightarrow> u8 \<Rightarrow> u16 \<Rightarrow> u16 \<Rightarrow> AtaBus" where
  "AtaBus_new bid irq io_base ctrl_base =
     \<lparr>ata_id = bid, ata_irq = irq, ata_io_base = io_base, ata_ctrl_base = ctrl_base, ata_data = io_base,
      ata_error = io_base + 1, ata_features = io_base + 1, ata_sector_count = io_base + 2, ata_lba_low = io_base + 3,
      ata_lba_mid = io_base + 4, ata_lba_high = io_base + 5, ata_drive = io_base + 6, ata_status = io_base + 7,
      ata_command = io_base + 7, ata_alternate_status = ctrl_base, ata_control = ctrl_base,
      ata_drive_blockess = ctrl_base + 1\<rparr>"

definition BUSES :: "AtaBus list" where
  "BUSES = [AtaBus_new 0 14 0x1F0 0x3F6, AtaBus_new 1 15 0x170 0x376]"

section \<open>Access to a drive\<close>

record 'd ata_ports =
  port8 :: "(u16, u8, 'd) bus"
  port16 :: "(u16, u16, 'd) bus"

definition read_data :: "'d ata_ports \<Rightarrow> AtaBus \<Rightarrow> 'd \<Rightarrow> u16 \<times> 'd" where
  "read_data b self d = bus_read (port16 b) d (ata_data self)"

definition write_data :: "'d ata_ports \<Rightarrow> AtaBus \<Rightarrow> u16 \<Rightarrow> 'd \<Rightarrow> 'd" where
  "write_data b self data d = bus_write (port16 b) d (ata_data self) data"

definition cylinder_low :: "'d ata_ports \<Rightarrow> AtaBus \<Rightarrow> 'd \<Rightarrow> u8 \<times> 'd" where
  "cylinder_low b self d = bus_read (port8 b) d (ata_lba_mid self)"

definition cylinder_high :: "'d ata_ports \<Rightarrow> AtaBus \<Rightarrow> 'd \<Rightarrow> u8 \<times> 'd" where
  "cylinder_high b self d = bus_read (port8 b) d (ata_lba_high self)"

text \<open>All eight bits of a status and of an error byte have a name, so that \<^verbatim>\<open>from_bits_truncate\<close> keeps the byte.\<close>

definition AtaBus_status :: "'d ata_ports \<Rightarrow> AtaBus \<Rightarrow> 'd \<Rightarrow> u8 \<times> 'd" where
  "AtaBus_status b self d =
     (let (_, d) = bus_read (port8 b) d (ata_alternate_status self);
          (_, d) = bus_read (port8 b) d (ata_alternate_status self);
          (_, d) = bus_read (port8 b) d (ata_alternate_status self);
          (_, d) = bus_read (port8 b) d (ata_alternate_status self)
      in bus_read (port8 b) d (ata_status self))"

definition AtaBus_error :: "'d ata_ports \<Rightarrow> AtaBus \<Rightarrow> 'd \<Rightarrow> u8 \<times> 'd" where
  "AtaBus_error b self d = bus_read (port8 b) d (ata_error self)"

definition is_error :: "'d ata_ports \<Rightarrow> AtaBus \<Rightarrow> 'd \<Rightarrow> bool \<times> 'd" where
  "is_error b self d = (let (s, d) = AtaBus_status b self d in (s AND ERROR = ERROR, d))"

text \<open>The log lines read the registers.\<close>

definition AtaBus_debug :: "'d ata_ports \<Rightarrow> AtaBus \<Rightarrow> 'd \<Rightarrow> 'd" where
  "AtaBus_debug b self d = (let (_, d) = AtaBus_error b self d; (_, d) = AtaBus_status b self d in d)"

text \<open>The loop of \<^verbatim>\<open>poll\<close> after a status has been read.\<close>

partial_function (option) poll_loop :: "'d ata_ports \<Rightarrow> AtaBus \<Rightarrow> u8 \<Rightarrow> bool \<Rightarrow> u8 \<times> 'd \<Rightarrow> 'd option" where
  "poll_loop b self bits val sd =
     (let (status, d) = sd
      in if (status AND bits \<noteq> 0) \<noteq> val
         then poll_loop b self bits val
           (AtaBus_status b self (if status AND ERROR = ERROR then AtaBus_debug b self d else d))
         else Some d)"

definition poll :: "'d ata_ports \<Rightarrow> AtaBus \<Rightarrow> u8 \<Rightarrow> bool \<Rightarrow> 'd \<Rightarrow> 'd option" where
  "poll b self bits val d = poll_loop b self bits val (AtaBus_status b self d)"

text \<open>The open places: storing address and command, the two waits, the head of \<^verbatim>\<open>identify_drive\<close> with its early
  returns, and the transfers of \<^verbatim>\<open>read_pio\<close> and \<^verbatim>\<open>write_pio\<close>.\<close>

record 'd ata_holes =
  store_command :: "AtaBus \<Rightarrow> u8 \<Rightarrow> u8 list \<Rightarrow> AtaCommand \<Rightarrow> 'd \<Rightarrow> 'd"
  wait_accepted :: "AtaBus \<Rightarrow> 'd \<Rightarrow> 'd option"
  wait_data :: "AtaBus \<Rightarrow> 'd \<Rightarrow> 'd option"
  identify_head :: "AtaBus \<Rightarrow> u8 \<Rightarrow> 'd \<Rightarrow> (AtaDeviceType FsResult option \<times> 'd) option"
  transfer_in :: "AtaBus \<Rightarrow> u8 list \<Rightarrow> 'd \<Rightarrow> u8 list \<times> 'd"
  transfer_out :: "AtaBus \<Rightarrow> u8 list \<Rightarrow> 'd \<Rightarrow> 'd"

definition write_command :: "'d ata_ports \<Rightarrow> 'd ata_holes \<Rightarrow> AtaBus \<Rightarrow> u8 \<Rightarrow> u32 \<Rightarrow> AtaCommand \<Rightarrow> 'd \<Rightarrow>
    (unit FsResult \<times> 'd) option" where
  "write_command b H self drive block cmd d =
     (let bytes = le_bytes 4 (unat block);
          d = bus_write (port8 b) d (ata_sector_count self) 1;
          d = store_command H self drive bytes cmd d;
          (s, d) = AtaBus_status b self d
      in if s = 0 then Some (Inl (DeviceError UnknownDevice), d)
         else case wait_accepted H self d of
                None \<Rightarrow> None
              | Some d \<Rightarrow>
                  (let (e, d) = is_error b self d
                   in if e then Some (Inl (DeviceError Device_InvalidOperation), AtaBus_debug b self d)
                      else case wait_data H self d of None \<Rightarrow> None | Some d \<Rightarrow> Some (Inr (), d)))"

text \<open>The 256 words that a drive sends about itself.\<close>

fun read_words :: "'d ata_ports \<Rightarrow> AtaBus \<Rightarrow> nat \<Rightarrow> 'd \<Rightarrow> u16 list \<times> 'd" where
  "read_words b self 0 d = ([], d)"
| "read_words b self (Suc n) d = (let (w, d) = read_data b self d; (ws, d) = read_words b self n d in (w # ws, d))"

definition identify_drive :: "'d ata_ports \<Rightarrow> 'd ata_holes \<Rightarrow> AtaBus \<Rightarrow> u8 \<Rightarrow> 'd \<Rightarrow> (AtaDeviceType FsResult \<times> 'd) option" where
  "identify_drive b H self drive d =
     (case identify_head H self drive d of
        None \<Rightarrow> None
      | Some (Some r, d) \<Rightarrow> Some (r, d)
      | Some (None, d) \<Rightarrow>
          (let (lo, d) = cylinder_low b self d; (hi, d) = cylinder_high b self d
           in if lo = 0 \<and> hi = 0 then (let (ws, d) = read_words b self 256 d in Some (Inr (Pata ws), d))
              else if lo = 0x14 \<and> hi = 0xEB then Some (Inr PataPi, d)
              else if lo = 0x3C \<and> hi = 0xC3 then Some (Inr Sata, d)
              else if lo = 0x69 \<and> hi = 0x96 then Some (Inr SataPi, d)
              else Some (Inr NoDevice, d)))"

definition read_pio :: "'d ata_ports \<Rightarrow> 'd ata_holes \<Rightarrow> AtaBus \<Rightarrow> u8 \<Rightarrow> u32 \<Rightarrow> u8 list \<Rightarrow> 'd \<Rightarrow>
    (unit FsResult \<times> u8 list \<times> 'd) option" where
  "read_pio b H self drive block buf d =
     (case write_command b H self drive block ReadPio d of
        None \<Rightarrow> None
      | Some (Inl e, d) \<Rightarrow> Some (Inl e, buf, d)
      | Some (Inr _, d) \<Rightarrow>
          (let (buf, d) = transfer_in H self buf d; (e, d) = is_error b self d
           in if e then Some (Inl (DeviceError ReadError), buf, AtaBus_debug b self d) else Some (Inr (), buf, d)))"

definition write_pio :: "'d ata_ports \<Rightarrow> 'd ata_holes \<Rightarrow> AtaBus \<Rightarrow> u8 \<Rightarrow> u32 \<Rightarrow> u8 list \<Rightarrow> 'd \<Rightarrow>
    (unit FsResult \<times> 'd) option" where
  "write_pio b H self drive block buf d =
     (case write_command b H self drive block WritePio d of
        None \<Rightarrow> None
      | Some (Inl e, d) \<Rightarrow> Some (Inl e, d)
      | Some (Inr _, d) \<Rightarrow>
          (let d = transfer_out H self buf d; (e, d) = is_error b self d
           in if e then Some (Inl (DeviceError WriteError), AtaBus_debug b self d) else Some (Inr (), d)))"

text \<open>A drive. Which words hold its size and its texts is open.\<close>

record AtaDrive =
  ad_bus :: u8
  ad_drive :: u8
  ad_blocks :: u32
  ad_model :: "rchar list"
  ad_serial :: "rchar list"

definition to_be_bytes :: "u16 \<Rightarrow> u8 list" where
  "to_be_bytes w = rev (le_bytes 2 (unat w))"

text \<open>The block device functions of a drive are \<^verbatim>\<open>todo!()\<close>, a panic.\<close>

definition AtaDrive_device :: "AtaDrive \<Rightarrow> 'w block_device" where
  "AtaDrive_device self =
     (let todo = Panicked ''not yet implemented''
      in \<lparr>bd_block_count = Inl todo, bd_read_block = (\<lambda>offset block w. Inl todo), bd_write_block = (\<lambda>offset block w. Inl todo)\<rparr>)"

definition AtaDrive_humanized_size :: "AtaDrive \<Rightarrow> (rat \<times> string) res" where
  "AtaDrive_humanized_size self =
     rbind (bd_block_count (AtaDrive_device self :: unit block_device)) (\<lambda>r.
       rbind (ok_or_panic Unwrap_failed r) (\<lambda>count. humanized_size (512 * count)))"

text \<open>The message that a drive was opened shows its size, so that the number of blocks is asked for.\<close>

definition AtaDrive_open :: "'d ata_ports \<Rightarrow> 'd ata_holes \<Rightarrow> (u8 list \<Rightarrow> u32 \<times> rchar list \<times> rchar list) \<Rightarrow>
    u8 \<Rightarrow> u8 \<Rightarrow> 'd \<Rightarrow> (AtaDrive option \<times> 'd) res option" where
  "AtaDrive_open b H identity bus drive d =
     (if length BUSES \<le> unat bus then Some (Inl Index_out_of_bounds)
      else case identify_drive b H (BUSES ! unat bus) drive d of
             None \<Rightarrow> None
           | Some (r, d) \<Rightarrow>
               (case r of
                  Inr (Pata res) \<Rightarrow>
                    (let (blocks, model, serial) = identity (concat (map to_be_bytes res));
                         ata_drive = \<lparr>ad_bus = bus, ad_drive = drive, ad_blocks = blocks, ad_model = model, ad_serial = serial\<rparr>
                     in Some (rbind (AtaDrive_humanized_size ata_drive) (\<lambda>_. Inr (Some ata_drive, d))))
                | _ \<Rightarrow> Some (Inr (None, d))))"

section \<open>The root file system\<close>

type_synonym ('m, 'h) rootfs = "('m, 'h) Mount option"

definition get_rootfs :: "('m, 'h) rootfs \<Rightarrow> ('m, 'h) Mount res" where
  "get_rootfs ROOTFS = expect Unwrap_failed ROOTFS"

text \<open>\<^verbatim>\<open>filesystem::init\<close>. What it does with the drive that was opened uses nothing of a drive but its block device
  functions and is a definition of its own, so that it can be studied on a device that works.\<close>

definition mount_first_partition :: "'w holes \<Rightarrow> 'w block_device \<Rightarrow> 'w \<Rightarrow> ('m, 'h) rootfs \<Rightarrow> (('m, 'h) rootfs \<times> 'w) res" where
  "mount_first_partition H drive w ROOTFS =
     rbind (MbrTable_parse H 512 drive w) (\<lambda>(r, w).
     rbind (ok_or_panic (Expect_failed ''Failed to parse MBR'') r) (\<lambda>table.
     rbind (ok_or_panic (Expect_failed ''Failed to get partitions'') (MbrTable_partitions H table)) (\<lambda>parts.
       case parts of
         [] \<Rightarrow> Inl (Panicked ''removal index (is 0) should be < len (is 0)'')
       | part # _ \<Rightarrow>
           (case ROOTFS of
              Some m \<Rightarrow> Inr (ROOTFS, w)
            | None \<Rightarrow>
                rbind (Fat16Impl_new H (Partition_device H part) w) (\<lambda>(handle, w).
                  Inr (Some (Mount_new (Fat16_fs handle) (chars ''/'')), w))))))"

definition filesystem_init :: "'d ata_ports \<Rightarrow> 'd ata_holes \<Rightarrow> (u8 list \<Rightarrow> u32 \<times> rchar list \<times> rchar list) \<Rightarrow> 'd holes \<Rightarrow>
    'd \<Rightarrow> ('m, 'h) rootfs \<Rightarrow> (('m, 'h) rootfs \<times> 'd) res option" where
  "filesystem_init b A identity H d ROOTFS =
     map_option (\<lambda>r. rbind r (\<lambda>(found, d).
       rbind (expect (Expect_failed ''Failed to open disk device'') found) (\<lambda>drive.
         mount_first_partition H (AtaDrive_device drive) d ROOTFS)))
       (AtaDrive_open b A identity 0 0 d)"

section \<open>Polling\<close>

text \<open>One round of the loop: the next status, after the registers have been logged when the last one showed an error.\<close>

definition poll_round :: "'d ata_ports \<Rightarrow> AtaBus \<Rightarrow> u8 \<times> 'd \<Rightarrow> u8 \<times> 'd" where
  "poll_round b self sd =
     AtaBus_status b self (if fst sd AND ERROR = ERROR then AtaBus_debug b self (snd sd) else snd sd)"

definition shows_bits :: "u8 \<Rightarrow> bool \<Rightarrow> u8 \<times> 'd \<Rightarrow> bool" where
  "shows_bits bits val sd \<longleftrightarrow> (fst sd AND bits \<noteq> 0) = val"

lemma poll_loop_step:
  "poll_loop b self bits val sd =
     (if shows_bits bits val sd then Some (snd sd) else poll_loop b self bits val (poll_round b self sd))"
  by (subst poll_loop.simps) (auto simp: shows_bits_def poll_round_def split_beta)

lemma poll_loop_ends:
  assumes "shows_bits bits val ((poll_round b self ^^ n) sd)" and "\<forall>k < n. \<not> shows_bits bits val ((poll_round b self ^^ k) sd)"
  shows "poll_loop b self bits val sd = Some (snd ((poll_round b self ^^ n) sd))"
  using assms
proof (induction n arbitrary: sd)
  case (Suc n)
  have "poll_loop b self bits val (poll_round b self sd) = Some (snd ((poll_round b self ^^ n) (poll_round b self sd)))"
    using Suc.prems by (intro Suc.IH) (auto simp: funpow_swap1 simp flip: funpow.simps(2) [THEN fun_cong, unfolded comp_def])
  moreover have "\<not> shows_bits bits val sd" using Suc.prems(2) by (metis funpow_0 zero_less_Suc)
  ultimately show ?case by (subst poll_loop_step) (simp add: funpow_swap1)
qed (subst poll_loop_step, simp)

lemma poll_loop_only_if:
  "poll_loop b self bits val sd = Some d \<Longrightarrow> \<exists>n. shows_bits bits val ((poll_round b self ^^ n) sd)"
proof (rule poll_loop.raw_induct [where P = "\<lambda>b self bits val sd d. \<exists>n. shows_bits bits val ((poll_round b self ^^ n) sd)"])
  fix loop :: "'d ata_ports \<Rightarrow> AtaBus \<Rightarrow> u8 \<Rightarrow> bool \<Rightarrow> u8 \<times> 'd \<Rightarrow> 'd option" and b self bits val sd d
  assume IH: "\<And>b self bits val sd d. loop b self bits val sd = Some d \<Longrightarrow> \<exists>n. shows_bits bits val ((poll_round b self ^^ n) sd)"
    and run: "(let (status, d) = sd
        in if (status AND bits \<noteq> 0) \<noteq> val
           then loop b self bits val (AtaBus_status b self (if status AND ERROR = ERROR then AtaBus_debug b self d else d))
           else Some d) = Some d"
  show "\<exists>n. shows_bits bits val ((poll_round b self ^^ n) sd)"
  proof (cases "shows_bits bits val sd")
    case True
    then have "shows_bits bits val ((poll_round b self ^^ 0) sd)" by simp
    then show ?thesis ..
  next
    case False
    with run have "loop b self bits val (poll_round b self sd) = Some d"
      by (auto simp: shows_bits_def poll_round_def split_beta split: if_splits)
    from IH [OF this] obtain n where "shows_bits bits val ((poll_round b self ^^ n) (poll_round b self sd))" by blast
    then have "shows_bits bits val ((poll_round b self ^^ Suc n) sd)" by (simp add: funpow_swap1)
    then show ?thesis ..
  qed
qed

text \<open>Polling a drive. \<^verbatim>\<open>poll\<close> returns exactly when some status that it reads shows the wanted bits, and then at the first
  one; there is no time-out, so on a drive that never does it runs for ever. An error in the status does not end it.\<close>

theorem poll_ends_iff_status_shown:
  fixes b :: "'d ata_ports" and self :: AtaBus and d :: 'd
  defines "seen \<equiv> \<lambda>n. (poll_round b self ^^ n) (AtaBus_status b self d)"
  shows "poll b self bits val d =
    (if \<exists>n. shows_bits bits val (seen n) then Some (snd (seen (LEAST n. shows_bits bits val (seen n)))) else None)"
proof (cases "\<exists>n. shows_bits bits val (seen n)")
  case True
  let ?n = "LEAST n. shows_bits bits val (seen n)"
  have "shows_bits bits val (seen ?n)" "\<forall>k < ?n. \<not> shows_bits bits val (seen k)"
    using True by (auto intro: LeastI_ex dest: not_less_Least)
  then show ?thesis using True poll_loop_ends [of bits val ?n b self] unfolding poll_def seen_def by simp
next
  case False
  then have "poll_loop b self bits val (AtaBus_status b self d) = None"
    using poll_loop_only_if [of b self bits val] unfolding seen_def by (cases "poll_loop b self bits val (AtaBus_status b self d)") auto
  with False show ?thesis by (simp add: poll_def)
qed

section \<open>Mounting the root file system\<close>

lemma first_active:
  "filter is_active (mbr_partitions table) = e # es \<Longrightarrow> \<exists>parts. MbrTable_partitions H table =
     Inr (Partition_new (mbr_inner table) (ucast (begin_lba H (mp_data e))) (ucast (total_lba H (mp_data e))) # parts)"
  by (simp add: MbrTable_partitions_def active_partitions)

lemma MbrTable_parse_inner: "MbrTable_parse H SIZE dev w = Inr (Inr table, w') \<Longrightarrow> mbr_inner table = dev"
  by (auto simp: MbrTable_parse_def split: sum.splits)

lemma mount_first_partition_parsed:
  assumes "MbrTable_parse H 512 dev w = Inr (Inr table, w1)" and "filter is_active (mbr_partitions table) = e # es"
  shows "mount_first_partition H dev w ROOTFS =
    (case ROOTFS of Some m \<Rightarrow> Inr (ROOTFS, w1)
     | None \<Rightarrow> rbind (Fat16Impl_new H (Partition_device H
         (Partition_new dev (ucast (begin_lba H (mp_data e))) (ucast (total_lba H (mp_data e))))) w1)
         (\<lambda>(handle, w). Inr (Some (Mount_new (Fat16_fs handle) (chars ''/'')), w)))"
  using first_active [OF assms(2), of H] MbrTable_parse_inner [OF assms(1)] assms(1)
  by (auto simp: mount_first_partition_def split: option.splits)

text \<open>Without a drive that can be read there is no root file system: as the driver stands, \<^verbatim>\<open>filesystem::init\<close> never
  mounts anything. It panics in the message about the drive it opened, or because it opened none, or identifying the
  drive never ends.\<close>

theorem filesystem_init_never_mounts:
  "filesystem_init b A identity H d R = None \<or>
   filesystem_init b A identity H d R = Some (Inl (Panicked ''not yet implemented'')) \<or>
   filesystem_init b A identity H d R = Some (Inl (Expect_failed ''Failed to open disk device''))"
  by (auto simp: filesystem_init_def AtaDrive_open_def AtaDrive_humanized_size_def AtaDrive_device_def BUSES_def Let_def
      split: option.splits sum.splits AtaDeviceType.splits prod.splits)

text \<open>A device whose partition table cannot be read.\<close>

lemma mount_first_partition_unreadable:
  "MbrTable_parse H 512 dev w = Inr (Inl e, w1) \<Longrightarrow>
   mount_first_partition H dev w R = Inl (Expect_failed ''Failed to parse MBR'')"
  by (simp add: mount_first_partition_def ok_or_panic_def)

text \<open>Mounting the root file system, on a device whose partition table can be read. The file system is made on the first
  active partition and mounted at the root, when the partition is not empty and its first sector, of 512 bytes, carries
  the FAT signature. No active partition, an empty partition, a sector that cannot be read or has no signature are
  panics. A second call reads the table but leaves the mount as it is.\<close>

theorem mount_first_partition_mounts:
  assumes "MbrTable_parse H 512 dev w = Inr (Inr table, w1)"
  shows "(filter is_active (mbr_partitions table) = [] \<longrightarrow>
      mount_first_partition H dev w R = Inl (Panicked ''removal index (is 0) should be < len (is 0)'')) \<and>
    (\<forall>e es. filter is_active (mbr_partitions table) = e # es \<longrightarrow>
      (\<forall>mount. mount_first_partition H dev w (Some mount) = Inr (Some mount, w1)) \<and>
      (let part = Partition_new dev (ucast (begin_lba H (mp_data e))) (ucast (total_lba H (mp_data e)))
       in (total_lba H (mp_data e) = 0 \<longrightarrow> mount_first_partition H dev w None = Inl Unwrap_failed) \<and>
          (\<forall>r blk w2. total_lba H (mp_data e) \<noteq> 0 \<longrightarrow> part_read_rest H part 0 (Block_default 512) w1 = Inr (r, blk, w2) \<longrightarrow>
             length (blk_contents blk) = 512 \<longrightarrow>
             (if r = Inr () \<and> trail H (blk_contents blk) = 0xAA55
              then \<exists>fs. mount_first_partition H dev w None = Inr (Some \<lparr>mnt_fs = Fat16_fs fs, mnt_mount_point = chars ''/''\<rparr>, w2) \<and>
                     fat_inner fs = Partition_device H part \<and> bpb_data (fat_bpb fs) = blk_contents blk
              else mount_first_partition H dev w None = Inl Unwrap_failed))))"
proof (intro conjI impI allI)
  show "mount_first_partition H dev w R = Inl (Panicked ''removal index (is 0) should be < len (is 0)'')"
    if "filter is_active (mbr_partitions table) = []"
    using that assms by (simp add: mount_first_partition_def MbrTable_partitions_def active_partitions)
  fix e es
  assume act: "filter is_active (mbr_partitions table) = e # es"
  note fi = mount_first_partition_parsed [OF assms act]
  show "mount_first_partition H dev w (Some mount) = Inr (Some mount, w1)" for mount by (simp add: fi)
  let ?part = "Partition_new dev (ucast (begin_lba H (mp_data e))) (ucast (total_lba H (mp_data e)))"
  have z: "(ucast x :: usize) = 0 \<longleftrightarrow> x = 0" for x :: u32 by (simp add: word_unat_eq_iff unat_ucast_u32)
  show "let part = ?part
       in (total_lba H (mp_data e) = 0 \<longrightarrow> mount_first_partition H dev w None = Inl Unwrap_failed) \<and>
          (\<forall>r blk w2. total_lba H (mp_data e) \<noteq> 0 \<longrightarrow> part_read_rest H part 0 (Block_default 512) w1 = Inr (r, blk, w2) \<longrightarrow>
             length (blk_contents blk) = 512 \<longrightarrow>
             (if r = Inr () \<and> trail H (blk_contents blk) = 0xAA55
              then \<exists>fs. mount_first_partition H dev w None = Inr (Some \<lparr>mnt_fs = Fat16_fs fs, mnt_mount_point = chars ''/''\<rparr>, w2) \<and>
                     fat_inner fs = Partition_device H part \<and> bpb_data (fat_bpb fs) = blk_contents blk
              else mount_first_partition H dev w None = Inl Unwrap_failed))"
    unfolding Let_def
    by (auto simp: fi Fat16Impl_new_def Partition_device_def Partition_read_block_def Partition_new_def z Fat16Bpb_new_def
        try_into_def Mount_new_def ok_or_panic_def Let_def split: sum.splits)
qed

text \<open>A disk whose second table entry is active; every block of the partition carries the signature.\<close>

definition wit_holes :: "unit holes" where
  "wit_holes =
     \<lparr>part_read_rest = (\<lambda>_ _ _ w. Inr (Inr (), Block_new (replicate 510 0 @ [0x55, 0xAA]), w)),
      part_write_rest = (\<lambda>_ _ _ w. Inr (Inr (), w)),
      mbr_entry = (\<lambda>i _. Inr (if i = 1 then 0x80 # replicate 15 0 else replicate 16 0)),
      begin_lba = (\<lambda>_. 63), total_lba = (\<lambda>_. 100), trail = (\<lambda>data. of_nat (from_le_bytes (drop 510 data))),
      total_sectors_16 = (\<lambda>_. 0), total_sectors_32 = (\<lambda>_. 100), reserved_sector_count = (\<lambda>_. 1), root_dir_size = (\<lambda>_. 32),
      root_dir_sector = (\<lambda>_. 5), cluster_sector = (\<lambda>_ s c. s + ucast c)\<rparr>"

definition wit_disk :: "unit block_device" where
  "wit_disk = \<lparr>bd_block_count = Inr (Inr 1000), bd_read_block = (\<lambda>_ blk w. Inr (Inr (), blk, w)),
     bd_write_block = (\<lambda>_ _ w. Inr (Inr (), w))\<rparr>"

theorem mount_first_partition_mounts_witness:
  "\<exists>fs. mount_first_partition wit_holes wit_disk () None = Inr (Some \<lparr>mnt_fs = Fat16_fs fs, mnt_mount_point = chars ''/''\<rparr>, ()) \<and>
     fat_inner fs = Partition_device wit_holes (Partition_new wit_disk 63 100)"
proof -
  let ?t = "\<lparr>mbr_inner = wit_disk, mbr_partitions = map (\<lambda>i. MbrPartition_parse (if i = 1 then 0x80 # replicate 15 0 else replicate 16 0)) [0, 1, 2, 3 :: nat]\<rparr>"
  have parse: "MbrTable_parse wit_holes 512 wit_disk () = Inr (Inr ?t, ())"
    by (simp add: MbrTable_parse_def wit_disk_def wit_holes_def try_into_def upt_rec)
  have act: "filter is_active (mbr_partitions ?t) = [MbrPartition_parse (0x80 # replicate 15 0)]"
    by (simp add: is_active_def MbrPartition_status_def MbrPartition_parse_def field_u8_def unwrap_or_def)
  have blk: "part_read_rest wit_holes p 0 b () = Inr (Inr (), Block_new (replicate 510 0 @ [0x55, 0xAA]), ())" for p b
    by (simp add: wit_holes_def)
  have "length (blk_contents (Block_new (replicate 510 0 @ [0x55, 0xAA]))) = 512"
    "trail wit_holes (blk_contents (Block_new (replicate 510 0 @ [0x55, 0xAA]))) = 0xAA55"
    "total_lba wit_holes x = 100" "begin_lba wit_holes x = 63" for x
    by (simp_all add: wit_holes_def Block_new_def)
  with mount_first_partition_mounts [OF parse, of None, unfolded act] blk show ?thesis
    by (fastforce simp: Let_def)
qed

end
