(* ===== verification/Spec2Isabelle.thy ===== *)
theory Spec2Isabelle
  imports UserLib Apps Interrupts Boot Messages Shell Loader Disk
begin

text \<open>
  Verification of YatSenOS, an operating system in Rust for x86-64.

  \<^bold>\<open>The program.\<close> The complete system is in \<^verbatim>\<open>src/src/0x01/pkg\<close>: the boot loader (\<^verbatim>\<open>boot\<close>), the ELF loader shared by boot
  loader and kernel (\<^verbatim>\<open>elf\<close>), the kernel (\<^verbatim>\<open>kernel\<close>), the numbers and the calling convention of the system calls
  (\<^verbatim>\<open>syscall\<close>), the library of user programs (\<^verbatim>\<open>lib\<close>) and the programs (\<^verbatim>\<open>app\<close>). The directories \<^verbatim>\<open>0x02\<close> to \<^verbatim>\<open>0x07\<close> hold
  laboratory templates; the file system library and the disk driver exist only in \<^verbatim>\<open>0x06\<close>, with open places.

  The boot loader reads its configuration, loads the kernel and the applications, builds the address space and jumps to
  \<^verbatim>\<open>kernel_main\<close>. The kernel initialises devices, interrupts, processes and memory, spawns the shell and waits. The
  timer interrupt, the page fault and the system call interrupt enter the process manager, which switches between
  processes, each with a context, shared process data (environment, descriptors, semaphores) and an address space with
  code, stack and heap. Programs reach the kernel through the library.

  \<^bold>\<open>The theories\<close>, bottom up, with the sources they model.

  \<^item> \<open>Prelude\<close>: machine integers as words, panics as values of a sum type, the panic monad, generic lemmas.
  \<^item> \<open>Pid\<close>: \<^verbatim>\<open>proc/pid.rs\<close>, \<^verbatim>\<open>proc/processor.rs\<close>. Pids are unique until the 16-bit counter wraps.
  \<^item> \<open>Sync\<close>: \<^verbatim>\<open>proc/sync.rs\<close>. The locale \<open>counting_semaphore\<close> is the contract: units are conserved and waiters are woken
    in the order in which they blocked.
  \<^item> \<open>X86\<close>: the interface of the \<^verbatim>\<open>x86_64\<close> crate, addresses and page tables, as records of functions with the locales
    \<open>x86_addresses\<close>, \<open>x86_mapper\<close> and \<open>x86_map_errors\<close> (why mapping a page fails), and a reference instance.
  \<^item> \<open>Frames\<close>: \<^verbatim>\<open>memory/frames.rs\<close>, \<^verbatim>\<open>memory/address.rs\<close>. The locale \<open>frame_pool\<close> is what a client of a frame allocator relies
    on; the boot-info allocator is an interpretation. Frames are conserved, none is handed out twice.
  \<^item> \<open>Elf\<close>, \<open>ElfLoad\<close>: \<^verbatim>\<open>elf/src/lib.rs\<close>. The locale \<open>paging\<close> joins mapper and allocator, and \<open>paging_total\<close> adds the reasons of a
    failure, so that mapping succeeds when the pages are unmapped and four free frames are left for each (one for the page,
    three for new tables). Mapping takes fresh frames and changes nothing else, unmapping undoes it, and a loaded image of page
    aligned segments reads back as the bytes of the file; a segment that is not aligned loses bytes.
  \<^item> \<open>Stack\<close>, \<open>Heap\<close>, \<open>ProcVm\<close>: \<^verbatim>\<open>proc/vm/*.rs\<close>, \<^verbatim>\<open>proc/paging.rs\<close>. Growth on page faults, the private copy made by a fork, \<^verbatim>\<open>brk\<close>, each
    of which succeeds when enough frames are left, and the release of an address space, shared or not.
  \<^item> \<open>Input\<close>, \<open>Resource\<close>: \<^verbatim>\<open>drivers/input.rs\<close>, \<^verbatim>\<open>interrupt/serial.rs\<close>, \<^verbatim>\<open>utils/resource.rs\<close>. Serial bytes become characters and
    come out of reads of the standard input; the byte-wise decoding agrees with a decoder of whole runs of bytes, on any bytes.
  \<^item> \<open>Process\<close>, \<open>Manager\<close>: \<^verbatim>\<open>proc/context.rs\<close>, \<^verbatim>\<open>proc/data.rs\<close>, \<^verbatim>\<open>proc/process.rs\<close>, \<^verbatim>\<open>proc/manager.rs\<close>, \<^verbatim>\<open>proc/mod.rs\<close>. The record
    \<open>kernel\<close> is the state; one definition per kernel entry.
  \<^item> \<open>Scheduler\<close>, \<open>Scheduling\<close>: an abstract scheduler as an inductive step relation, the kernel's entries as another, the
    refinement between them, the kernel invariant over all reachable states, termination of \<^verbatim>\<open>switch_next\<close>, round robin,
    exit codes and the two returns of a fork.
  \<^item> \<open>Syscall\<close>, \<open>UserLib\<close>: \<^verbatim>\<open>syscall/src\<close>, \<^verbatim>\<open>interrupt/syscall\<close>, \<^verbatim>\<open>lib/src\<close>. No system call breaks the invariant; what the library makes
    of the kernel's answers.
  \<^item> \<open>Threads\<close>, \<open>Apps\<close>, \<open>Messages\<close>, \<open>Shell\<close>: groups of forked threads over the kernel's semaphores, with the locales
    \<open>live_group\<close> and \<open>ordered_group\<close> for safety and absence of deadlock under a lock order; the counter, the philosophers,
    the factorial, the bounded message queue and the shell of \<^verbatim>\<open>app\<close>.
  \<^item> \<open>Devices\<close>, \<open>Interrupts\<close>: \<^verbatim>\<open>drivers/uart16550.rs\<close>, \<^verbatim>\<open>drivers/serial.rs\<close>, \<^verbatim>\<open>interrupt/\<close>, \<^verbatim>\<open>memory/gdt.rs\<close>, \<^verbatim>\<open>utils/regs.rs\<close>. Drivers over a
    bus, the interrupt table, and the assembly stub that saves and restores a context.
  \<^item> \<open>Boot\<close>, \<open>Loader\<close>: \<^verbatim>\<open>boot/src\<close> and the size formatting of \<^verbatim>\<open>utils/mod.rs\<close>. The configuration round trip, the offset mapping, and
    what \<^verbatim>\<open>efi_main\<close> hands to the kernel. The mapping is at the configured offset exactly when that is a multiple of 2 MiB.
  \<^item> \<open>Startup\<close>: \<^verbatim>\<open>memory/mod.rs\<close>, \<^verbatim>\<open>memory/user.rs\<close>, \<^verbatim>\<open>kernel/src/lib.rs\<close>, \<^verbatim>\<open>kernel/src/main.rs\<close>, \<^verbatim>\<open>lib/src/allocator/brk.rs\<close>. The start of
    the kernel up to the running shell, and of the heap of a user process through all layers.
  \<^item> \<open>Storage\<close>, \<open>Disk\<close>: the written part of \<^verbatim>\<open>0x06/pkg\<close>. Field accessors, partitions, short file names, mount points, polling of
    a drive and the mounting of the root file system. \<^verbatim>\<open>todo!()\<close> is a panic, so that the start of the file system never gets past
    the opening of a drive; what follows is a definition over any block device.

  \<^bold>\<open>How the code is modelled.\<close> Structures are records and enumerations datatypes with the names of the source; \<^verbatim>\<open>Arc\<close>s are
  numbered cells of a store; integers are words, since the release build wraps. A function that may panic has the type
  \<open>'a res\<close>, one that may not return an \<open>option\<close> around it. A loop that may run for ever is a \<open>partial_function (option)\<close>, or
  recursion over the list of the answers that the environment gives, with \<open>None\<close> when they end; no fuel is used. When
  such a loop returns is proved: for the dispatch loop of \<^verbatim>\<open>switch_next\<close>, the search for a place of a forked stack, the waits of
  the device drivers and the polling of a drive.

  \<^bold>\<open>Parameters.\<close> Third-party crates, the firmware and the hardware are arguments of the definitions: the \<^verbatim>\<open>x86_64\<close> mapper, the
  lock-free queue (\<open>array_queue_spec\<close>), device registers (\<open>uart_spec\<close>, \<open>ioapic_spec\<close>, \<open>lapic_spec\<close>), the firmware's files and pages
  (record \<open>firmware\<close>), the heap allocator and the clock (record \<open>services\<close>). Their documented behaviour is a locale or a named
  predicate, and the witnesses instantiate it. Open places of \<^verbatim>\<open>0x06\<close> are the records \<open>holes\<close>, \<open>entry_holes\<close> and \<open>ata_holes\<close>,
  about which nothing is assumed.

  \<^bold>\<open>Not modelled.\<close> Text output and its macros, the logger, \<^verbatim>\<open>Debug\<close> and \<^verbatim>\<open>Display\<close> implementations of kernel types; the segment
  descriptors of the GDT, which the crate builds; the kernel's own heap, a static array given to a third-party crate; the
  panic handlers; the self tests \<^verbatim>\<open>grow_stack\<close> and \<^verbatim>\<open>utils/func.rs\<close> and the demonstration programs \<^verbatim>\<open>hello\<close> and \<^verbatim>\<open>fork_test\<close>; what the
  templates of \<^verbatim>\<open>0x06\<close> leave open; the other templates, which are earlier or partial copies of files of \<^verbatim>\<open>0x01\<close>. One
  processor is modelled, as the kernel uses one; interrupts are off inside the kernel's entries. The start of the kernel is
  one piece: interrupts between their enabling in \<^verbatim>\<open>init\<close> and the wait of \<^verbatim>\<open>kernel_main\<close> are left out. A \<^verbatim>\<open>sleep\<close> in a
  group of threads is a turn that returns. The specification of the local APIC keeps reserved bits, and that of the mapper
  reports a page inside a huge page as not mapped.
\<close>

end
